(* ===== verification/Prelude.thy ===== *)
theory Prelude
  imports Main "HOL-Library.Word" "HOL-Library.Monad_Syntax"
begin

text \<open>
  Shared vocabulary of the development: the machine integers of \<^verbatim>\<open>inc/types.h\<close> with its
  rounding macros, the lemmas on 32-bit words that address arithmetic needs, singly linked
  lists threaded through an array (the shape of both kernel free lists) with the interface
  a free list offers to its clients, and the collections of rewrite rules the component
  theories fill.

  Fallible kernel code is modelled in the option monad: \<^term>\<open>None\<close> is the kernel going down
  (a call of \<^verbatim>\<open>panic\<close>, a failed \<^verbatim>\<open>assert\<close>, or a null dereference), \<^term>\<open>Some\<close> is a normal
  return. A C array of structures is a function from indices, a pointer into it an index,
  and a pointer that may be null an index option.
\<close>

unbundle bit_operations_syntax

named_theorems layout_simps \<open>address decomposition\<close>
named_theorems frame_simps \<open>fields a kernel operation leaves alone\<close>
named_theorems run_simps \<open>definitions unfolded when a closed run is evaluated\<close>

type_synonym u8 = "8 word"
type_synonym u16 = "16 word"
type_synonym u32 = "32 word"
type_synonym u64 = "64 word"

section \<open>Rounding (inc/types.h)\<close>

definition ROUNDDOWN :: "u32 \<Rightarrow> u32 \<Rightarrow> u32" where
  "ROUNDDOWN a n = a - a mod n"

definition ROUNDUP :: "u32 \<Rightarrow> u32 \<Rightarrow> u32" where
  "ROUNDUP a n = ROUNDDOWN (a + n - 1) n"

section \<open>Loops over a list of indices\<close>

primrec foldM :: "('a \<Rightarrow> 's \<Rightarrow> 's option) \<Rightarrow> 'a list \<Rightarrow> 's \<Rightarrow> 's option" where
  "foldM f [] s = Some s"
| "foldM f (x # xs) s = do { s \<leftarrow> f x s; foldM f xs s }"

lemma foldM_append: "foldM f (xs @ ys) s = do { s \<leftarrow> foldM f xs s; foldM f ys s }"
  by (induction xs arbitrary: s) auto

lemma foldM_skip: "(\<And>x. x \<in> set xs \<Longrightarrow> f x s = Some s) \<Longrightarrow> foldM f xs s = Some s"
  by (induction xs) auto

text \<open>An invariant kept by every round holds after the loop, and the loop completes.\<close>

lemma foldM_inv:
  assumes "P s" and "\<And>x s. x \<in> set xs \<Longrightarrow> P s \<Longrightarrow> \<exists>s'. f x s = Some s' \<and> P s'"
  shows "\<exists>s'. foldM f xs s = Some s' \<and> P s'"
  using assms
proof (induction xs arbitrary: s)
  case Nil
  then show ?case by simp
next
  case (Cons x xs)
  from Cons.prems(2) [OF _ Cons.prems(1), of x] obtain s1 where s1: "f x s = Some s1" "P s1" by auto
  from Cons.IH [OF s1(2)] Cons.prems(2) s1(1) show ?case by auto
qed

section \<open>Lists threaded through an array\<close>

primrec chain :: "('a \<Rightarrow> 'a option) \<Rightarrow> 'a option \<Rightarrow> 'a list \<Rightarrow> bool" where
  "chain nx p [] \<longleftrightarrow> p = None"
| "chain nx p (x # xs) \<longleftrightarrow> p = Some x \<and> chain nx (nx x) xs"

text \<open>Following the links for at most a given number of steps.\<close>

primrec walk :: "('a \<Rightarrow> 'a option) \<Rightarrow> nat \<Rightarrow> 'a option \<Rightarrow> 'a list" where
  "walk nx 0 p = []"
| "walk nx (Suc n) p = (case p of None \<Rightarrow> [] | Some x \<Rightarrow> x # walk nx n (nx x))"

lemma chain_None [simp]: "chain nx None xs \<longleftrightarrow> xs = []"
  by (cases xs) auto

lemma chain_Some: "chain nx (Some x) xs \<longleftrightarrow> (\<exists>ys. xs = x # ys \<and> chain nx (nx x) ys)"
  by (cases xs) auto

lemma chain_upd [simp]: "a \<notin> set xs \<Longrightarrow> chain (nx(a := y)) p xs = chain nx p xs"
  by (induction xs arbitrary: p) (auto simp: fun_upd_apply)

lemma chain_cong: "(\<And>x. x \<in> set xs \<Longrightarrow> nx x = nx' x) \<Longrightarrow> chain nx p xs = chain nx' p xs"
  by (induction xs arbitrary: p) auto

lemma chain_transfer: "chain nx p xs \<Longrightarrow> (\<And>x. x \<in> set xs \<Longrightarrow> nx' x = nx x) \<Longrightarrow> chain nx' p xs"
  using chain_cong [of xs nx' nx p] by simp

lemma chain_unique: "chain nx p xs \<Longrightarrow> chain nx p ys \<Longrightarrow> xs = ys"
proof (induction xs arbitrary: p ys)
  case Nil
  then show ?case by simp
next
  case (Cons x xs)
  then obtain zs where "ys = x # zs" and "chain nx (nx x) zs"
    by (auto simp: chain_Some)
  with Cons show ?case by auto
qed

lemma chain_suffix: "chain nx p (xs @ x # ys) \<Longrightarrow> chain nx (nx x) ys"
  by (induction xs arbitrary: p) auto

lemma chain_hd_notin: "chain nx (nx x) xs \<Longrightarrow> x \<notin> set xs"
proof
  assume c: "chain nx (nx x) xs" and "x \<in> set xs"
  then obtain ys zs where xs: "xs = ys @ x # zs"
    by (auto simp: in_set_conv_decomp)
  with c have "chain nx (nx x) zs" by (blast dest: chain_suffix)
  with c have "xs = zs" by (blast dest: chain_unique)
  with xs show False by simp
qed

lemma chain_distinct: "chain nx p xs \<Longrightarrow> distinct xs"
  by (induction xs arbitrary: p) (auto dest: chain_hd_notin)

lemma chain_links: "chain nx p xs \<Longrightarrow> x \<in> set xs \<Longrightarrow> nx x = Some y \<Longrightarrow> y \<in> set xs"
  by (induction xs arbitrary: p) (auto simp: chain_Some)

lemma walk_chain: "chain nx p xs \<Longrightarrow> length xs \<le> n \<Longrightarrow> walk nx n p = xs"
proof (induction xs arbitrary: p n)
  case Nil
  then show ?case by (cases n) auto
next
  case (Cons x xs)
  then show ?case by (cases n) auto
qed

lemma distinct_below_length: "distinct xs \<Longrightarrow> \<forall>x\<in>set xs. x < (n::nat) \<Longrightarrow> length xs \<le> n"
proof -
  assume d: "distinct xs" and b: "\<forall>x\<in>set xs. x < n"
  from b have "set xs \<subseteq> {..<n}" by auto
  then have "card (set xs) \<le> card {..<n}" by (intro card_mono) auto
  with d show ?thesis by (simp add: distinct_card)
qed

section \<open>The interface of a free list\<close>

text \<open>
  What a client may rely on: an invariant, the list of free items, an allocator that takes
  the head and a release that pushes. Both the physical page allocator and the environment
  table meet it.
\<close>

locale free_store =
  fixes inv :: "'s \<Rightarrow> bool"
    and free :: "'s \<Rightarrow> 'a list"
    and alloc :: "'s \<Rightarrow> ('a option \<times> 's) option"
    and release :: "'a \<Rightarrow> 's \<Rightarrow> 's option"
    and idle :: "'s \<Rightarrow> 'a \<Rightarrow> bool"
  assumes free_distinct: "inv s \<Longrightarrow> distinct (free s)"
    and alloc_empty: "inv s \<Longrightarrow> free s = [] \<Longrightarrow> alloc s = Some (None, s)"
    and alloc_hd: "inv s \<Longrightarrow> free s = x # xs \<Longrightarrow>
      \<exists>s'. alloc s = Some (Some x, s') \<and> inv s' \<and> free s' = xs \<and> idle s' x"
    and release_push: "inv s \<Longrightarrow> idle s x \<Longrightarrow> x \<notin> set (free s) \<Longrightarrow>
      \<exists>s'. release x s = Some s' \<and> inv s' \<and> free s' = x # free s"
begin

primrec alloc_n :: "nat \<Rightarrow> 's \<Rightarrow> ('a list \<times> 's) option" where
  "alloc_n 0 s = Some ([], s)"
| "alloc_n (Suc n) s = do {
     (r, s') \<leftarrow> alloc s;
     (case r of None \<Rightarrow> None
      | Some x \<Rightarrow> do { (xs, s'') \<leftarrow> alloc_n n s'; Some (x # xs, s'') })}"

lemma alloc_total: "inv s \<Longrightarrow> \<exists>r s'. alloc s = Some (r, s') \<and> inv s'"
  by (cases "free s") (auto dest: alloc_empty alloc_hd)

lemma alloc_cases:
  assumes "inv s" and "alloc s = Some (r, s')"
  obtains (empty) "free s = []" "r = None" "s' = s"
    | (take) x xs where "free s = x # xs" "r = Some x" "inv s'" "free s' = xs" "idle s' x"
      "x \<notin> set xs"
  using assms free_distinct [OF assms(1)] alloc_empty alloc_hd
  by (cases "free s") (fastforce)+

text \<open>The allocator fails exactly when the free list is empty.\<close>

lemma alloc_None_iff: "inv s \<Longrightarrow> (\<exists>s'. alloc s = Some (None, s')) \<longleftrightarrow> free s = []"
  by (cases "free s") (auto dest: alloc_empty alloc_hd)

text \<open>A released item is the next one handed out.\<close>

lemma release_alloc:
  assumes "inv s" and "idle s x" and "x \<notin> set (free s)"
  shows "\<exists>s1 s2. release x s = Some s1 \<and> alloc s1 = Some (Some x, s2) \<and> free s2 = free s"
proof -
  from release_push [OF assms] obtain s1 where
    s1: "release x s = Some s1" "inv s1" "free s1 = x # free s" by blast
  from alloc_hd [OF s1(2,3)] s1(1) show ?thesis by blast
qed

text \<open>Successive allocations take successive items, so they are pairwise different.\<close>

lemma alloc_n_takes:
  assumes "inv s" and "n \<le> length (free s)"
  shows "\<exists>s'. alloc_n n s = Some (take n (free s), s') \<and> inv s' \<and> free s' = drop n (free s)"
  using assms
proof (induction n arbitrary: s)
  case 0
  then show ?case by simp
next
  case (Suc n)
  then obtain x xs where f: "free s = x # xs" by (cases "free s") auto
  from alloc_hd [OF Suc.prems(1) f] obtain s' where
    s': "alloc s = Some (Some x, s')" "inv s'" "free s' = xs" by blast
  from Suc.IH [OF s'(2)] s' Suc.prems f show ?case by auto
qed

lemma alloc_n_distinct:
  assumes "inv s" and "alloc_n n s = Some (xs, s')" and "n \<le> length (free s)"
  shows "distinct xs \<and> length xs = n \<and> set xs \<inter> set (free s') = {}"
proof -
  from alloc_n_takes [OF assms(1,3)] assms(2)
  have xs: "xs = take n (free s)" "free s' = drop n (free s)" by auto
  from free_distinct [OF assms(1)] have "distinct (take n (free s) @ drop n (free s))"
    by simp
  then have "distinct (take n (free s))" "set (take n (free s)) \<inter> set (drop n (free s)) = {}"
    by (simp_all del: append_take_drop_id)
  with xs assms(3) show ?thesis by simp
qed

end

section \<open>The interface of isolated operations\<close>

text \<open>
  A state with several parts (address spaces, say) and operations that each change one part.
  A provider shows that an admissible operation completes, keeps the invariant and leaves the
  other parts alone; a client gets the same for every sequence of operations.
\<close>

primrec admissible_run :: "('op \<Rightarrow> 's \<Rightarrow> bool) \<Rightarrow> ('op \<Rightarrow> 's \<Rightarrow> 's option) \<Rightarrow> 'op list \<Rightarrow> 's \<Rightarrow> bool" where
  "admissible_run adm step [] s = True"
| "admissible_run adm step (x # xs) s =
     (adm x s \<and> (case step x s of None \<Rightarrow> True | Some s' \<Rightarrow> admissible_run adm step xs s'))"

locale isolated_ops =
  fixes inv :: "'s \<Rightarrow> bool"
    and adm :: "'op \<Rightarrow> 's \<Rightarrow> bool"
    and step :: "'op \<Rightarrow> 's \<Rightarrow> 's option"
    and target :: "'op \<Rightarrow> 'k"
    and keys :: "'k set"
    and view :: "'k \<Rightarrow> 's \<Rightarrow> 'v"
  assumes step_ok: "inv s \<Longrightarrow> adm x s \<Longrightarrow>
      \<exists>s'. step x s = Some s' \<and> inv s' \<and> (\<forall>k\<in>keys. k \<noteq> target x \<longrightarrow> view k s' = view k s)"
begin

lemma run_ok:
  assumes "inv s" and "admissible_run adm step xs s"
  shows "\<exists>s'. foldM step xs s = Some s' \<and> inv s' \<and> (\<forall>k\<in>keys. k \<notin> target ` set xs \<longrightarrow> view k s' = view k s)"
  using assms
proof (induction xs arbitrary: s)
  case Nil
  then show ?case by simp
next
  case (Cons x xs)
  then have "adm x s" by simp
  from step_ok [OF Cons.prems(1) this] obtain s1 where
    s1: "step x s = Some s1" "inv s1" "\<forall>k\<in>keys. k \<noteq> target x \<longrightarrow> view k s1 = view k s" by blast
  with Cons.prems(2) have "admissible_run adm step xs s1" by simp
  from Cons.IH [OF s1(2) this] s1 show ?case by auto
qed

end

section \<open>Words\<close>

lemma mask12_eq: "(0xFFF :: u32) = mask 12"
  by (simp add: mask_eq_exp_minus_1)

lemma mask10_eq: "(0x3FF :: u32) = mask 10"
  by (simp add: mask_eq_exp_minus_1)

lemma unat_u32_less [simp]: "unat (a :: u32) < 4294967296"
  using unsigned_less [where 'a = nat, of a] by simp

lemma unat_and_mask: "unat ((a :: u32) AND mask n) = unat a mod 2 ^ n"
proof -
  have "unat (take_bit n a) = take_bit n (unat a)" by (rule unsigned_take_bit_eq)
  then show ?thesis by (simp only: take_bit_eq_mask [symmetric] take_bit_eq_mod)
qed

lemma unat_drop_bit_u32: "unat (drop_bit n (a :: u32)) = unat a div 2 ^ n"
  by (subst unsigned_drop_bit_eq) (simp add: drop_bit_eq_div take_bit_eq_mod)

lemma unat_and_not_mask: "unat ((a :: u32) AND NOT (mask n)) = unat a - unat a mod 2 ^ n"
proof -
  have split: "(a AND NOT (mask n)) + (a AND mask n) = a"
  proof -
    have "(a AND NOT (mask n)) + (a AND mask n) = (a AND NOT (mask n)) OR (a AND mask n)"
      by (rule disjunctive_add) (simp add: bit_simps)
    also have "\<dots> = a" by (rule bit_word_eqI) (auto simp: bit_simps)
    finally show ?thesis .
  qed
  have "a AND mask n \<le> a" by (rule word_and_le2)
  then have "unat (a - (a AND mask n)) = unat a - unat (a AND mask n)"
    by (simp add: unat_sub)
  moreover from split have "a AND NOT (mask n) = a - (a AND mask n)"
    by (simp add: eq_diff_eq)
  ultimately show ?thesis by (simp add: unat_and_mask)
qed

lemma word_eq_unatI: "unat (a :: u32) = unat b \<Longrightarrow> a = b"
  by (simp add: word_unat_eq_iff)

section \<open>Bytes\<close>

lemma unat_u8 [simp]: "unat (ucast (b :: u8) :: u32) = unat b"
  by transfer (simp add: take_bit_take_bit min_def)

lemma ucast_u8 [simp]: "ucast (ucast (b :: u8) :: u32) = b"
  by transfer (simp add: take_bit_take_bit min_def)

lemma ucast_u8_bound: "(ucast (b :: u8) :: u32) < 256"
proof -
  have "unat b < 2 ^ LENGTH(8)" by (rule unsigned_less)
  then show ?thesis by (simp add: word_less_nat_alt)
qed

lemma ucast_u8_not: "(ucast (b :: u8) :: u32) \<noteq> - 1" "(ucast b :: u32) = 0 \<longleftrightarrow> b = 0"
proof -
  show "(ucast b :: u32) \<noteq> - 1" using ucast_u8_bound [of b] by auto
  show "(ucast b :: u32) = 0 \<longleftrightarrow> b = 0" by (metis ucast_u8 unsigned_0)
qed

end
