(* ===== verification/Layout.thy ===== *)
theory Layout
  imports Prelude
begin

text \<open>
  The constants of \<^verbatim>\<open>inc/mmu.h\<close>, \<^verbatim>\<open>inc/memlayout.h\<close> and \<^verbatim>\<open>inc/error.h\<close>, the macros that
  take a linear address apart (\<^verbatim>\<open>PDX\<close>, \<^verbatim>\<open>PTX\<close>, \<^verbatim>\<open>PGOFF\<close>, \<^verbatim>\<open>PGNUM\<close>, \<^verbatim>\<open>PGADDR\<close>, \<^verbatim>\<open>PTE_ADDR\<close>)
  and their laws: the decomposition is a bijection, a page base plus four times an index
  stays on the page, and such slots are pairwise different.
\<close>

section \<open>Constants\<close>

abbreviation (input) PGSIZE :: u32 where "PGSIZE \<equiv> 4096"
abbreviation (input) PGSHIFT :: nat where "PGSHIFT \<equiv> 12"
abbreviation (input) NPDENTRIES :: nat where "NPDENTRIES \<equiv> 1024"
abbreviation (input) NPTENTRIES :: nat where "NPTENTRIES \<equiv> 1024"
abbreviation (input) PTSIZE :: u32 where "PTSIZE \<equiv> 0x400000"
abbreviation (input) PTXSHIFT :: nat where "PTXSHIFT \<equiv> 12"
abbreviation (input) PDXSHIFT :: nat where "PDXSHIFT \<equiv> 22"

abbreviation (input) PTE_P :: u32 where "PTE_P \<equiv> 0x001"
abbreviation (input) PTE_W :: u32 where "PTE_W \<equiv> 0x002"
abbreviation (input) PTE_U :: u32 where "PTE_U \<equiv> 0x004"
abbreviation (input) PTE_PWT :: u32 where "PTE_PWT \<equiv> 0x008"
abbreviation (input) PTE_PCD :: u32 where "PTE_PCD \<equiv> 0x010"
abbreviation (input) PTE_AVAIL :: u32 where "PTE_AVAIL \<equiv> 0xE00"
abbreviation (input) PTE_SYSCALL :: u32 where "PTE_SYSCALL \<equiv> 0xE07"

abbreviation (input) FL_IF :: u32 where "FL_IF \<equiv> 0x200"
abbreviation (input) FEC_PR :: u32 where "FEC_PR \<equiv> 0x1"
abbreviation (input) FEC_WR :: u32 where "FEC_WR \<equiv> 0x2"
abbreviation (input) FEC_U :: u32 where "FEC_U \<equiv> 0x4"

abbreviation (input) GD_KT :: u16 where "GD_KT \<equiv> 0x08"
abbreviation (input) GD_KD :: u16 where "GD_KD \<equiv> 0x10"
abbreviation (input) GD_UT :: u16 where "GD_UT \<equiv> 0x18"
abbreviation (input) GD_UD :: u16 where "GD_UD \<equiv> 0x20"
abbreviation (input) GD_TSS0 :: u16 where "GD_TSS0 \<equiv> 0x28"

abbreviation (input) KERNBASE :: u32 where "KERNBASE \<equiv> 0xF0000000"
abbreviation (input) IOPHYSMEM :: u32 where "IOPHYSMEM \<equiv> 0x0A0000"
abbreviation (input) EXTPHYSMEM :: u32 where "EXTPHYSMEM \<equiv> 0x100000"
abbreviation (input) KSTACKTOP :: u32 where "KSTACKTOP \<equiv> KERNBASE"
abbreviation (input) KSTKSIZE :: u32 where "KSTKSIZE \<equiv> 0x8000"
abbreviation (input) KSTKGAP :: u32 where "KSTKGAP \<equiv> 0x8000"
abbreviation (input) MMIOLIM :: u32 where "MMIOLIM \<equiv> 0xEFC00000"
abbreviation (input) MMIOBASE :: u32 where "MMIOBASE \<equiv> 0xEF800000"
abbreviation (input) ULIM :: u32 where "ULIM \<equiv> MMIOBASE"
abbreviation (input) UVPT :: u32 where "UVPT \<equiv> 0xEF400000"
abbreviation (input) UPAGES :: u32 where "UPAGES \<equiv> 0xEF000000"
abbreviation (input) UENVS :: u32 where "UENVS \<equiv> 0xEEC00000"
abbreviation (input) UTOP :: u32 where "UTOP \<equiv> UENVS"
abbreviation (input) UXSTACKTOP :: u32 where "UXSTACKTOP \<equiv> UTOP"
abbreviation (input) USTACKTOP :: u32 where "USTACKTOP \<equiv> 0xEEBFE000"
abbreviation (input) UTEXT :: u32 where "UTEXT \<equiv> 0x800000"
abbreviation (input) UTEMP :: u32 where "UTEMP \<equiv> 0x400000"
abbreviation (input) PFTEMP :: u32 where "PFTEMP \<equiv> 0x7FF000"
abbreviation (input) USTABDATA :: u32 where "USTABDATA \<equiv> 0x200000"
abbreviation (input) MPENTRY_PADDR :: u32 where "MPENTRY_PADDR \<equiv> 0x7000"

abbreviation (input) E_UNSPECIFIED :: u32 where "E_UNSPECIFIED \<equiv> 1"
abbreviation (input) E_BAD_ENV :: u32 where "E_BAD_ENV \<equiv> 2"
abbreviation (input) E_INVAL :: u32 where "E_INVAL \<equiv> 3"
abbreviation (input) E_NO_MEM :: u32 where "E_NO_MEM \<equiv> 4"
abbreviation (input) E_NO_FREE_ENV :: u32 where "E_NO_FREE_ENV \<equiv> 5"
abbreviation (input) E_FAULT :: u32 where "E_FAULT \<equiv> 6"
abbreviation (input) E_IPC_NOT_RECV :: u32 where "E_IPC_NOT_RECV \<equiv> 7"
abbreviation (input) E_EOF :: u32 where "E_EOF \<equiv> 8"
abbreviation (input) MAXERROR :: u32 where "MAXERROR \<equiv> 9"

section \<open>Linear addresses\<close>

definition PGNUM :: "u32 \<Rightarrow> u32" where
  "PGNUM la = drop_bit PTXSHIFT la"

definition PDX :: "u32 \<Rightarrow> u32" where
  "PDX la = drop_bit PDXSHIFT la AND 0x3FF"

definition PTX :: "u32 \<Rightarrow> u32" where
  "PTX la = drop_bit PTXSHIFT la AND 0x3FF"

definition PGOFF :: "u32 \<Rightarrow> u32" where
  "PGOFF la = la AND 0xFFF"

definition PGADDR :: "u32 \<Rightarrow> u32 \<Rightarrow> u32 \<Rightarrow> u32" where
  "PGADDR d t off = push_bit PDXSHIFT d OR push_bit PTXSHIFT t OR off"

definition PTE_ADDR :: "u32 \<Rightarrow> u32" where
  "PTE_ADDR pte = pte AND NOT 0xFFF"

section \<open>Laws\<close>

lemma unat_PGNUM [layout_simps]: "unat (PGNUM a) = unat a div 4096"
  by (simp add: PGNUM_def unat_drop_bit_u32)

lemma unat_PDX [layout_simps]: "unat (PDX a) = unat a div 4194304"
proof -
  have "unat a div 4194304 < 1024" using unat_u32_less [of a] by linarith
  then show ?thesis by (simp add: PDX_def mask10_eq unat_and_mask unat_drop_bit_u32)
qed

lemma unat_PTX [layout_simps]: "unat (PTX a) = unat a div 4096 mod 1024"
  by (simp add: PTX_def mask10_eq unat_and_mask unat_drop_bit_u32)

lemma unat_PGOFF [layout_simps]: "unat (PGOFF a) = unat a mod 4096"
  by (simp add: PGOFF_def mask12_eq unat_and_mask)

lemma unat_PTE_ADDR [layout_simps]: "unat (PTE_ADDR a) = unat a - unat a mod 4096"
  by (simp add: PTE_ADDR_def mask12_eq unat_and_not_mask)

lemma PDX_less [simp]: "PDX a < 1024"
proof -
  have "unat a div 4194304 < 1024" using unat_u32_less [of a] by linarith
  then show ?thesis by (simp add: word_less_nat_alt unat_PDX)
qed

lemma PTX_less [simp]: "PTX a < 1024"
  by (simp add: word_less_nat_alt unat_PTX)

lemma PGOFF_less [simp]: "PGOFF a < 4096"
  by (simp add: word_less_nat_alt unat_PGOFF)

lemma PGOFF_PTE_ADDR [simp]: "PGOFF (PTE_ADDR a) = 0"
  by (simp add: PGOFF_def PTE_ADDR_def mask12_eq bit_eq_iff bit_simps)

lemma PTE_ADDR_idem [simp]: "PTE_ADDR (PTE_ADDR a) = PTE_ADDR a"
  by (simp add: PTE_ADDR_def bit_eq_iff bit_simps)

lemma PTE_ADDR_aligned [simp]: "PGOFF a = 0 \<Longrightarrow> PTE_ADDR a = a"
  by (rule word_eq_unatI) (metis diff_zero unat_0 unat_PGOFF unat_PTE_ADDR)

lemma PGADDR_split: "PGADDR (PDX a) (PTX a) (PGOFF a) = a"
proof (rule bit_word_eqI)
  fix n assume "n < LENGTH(32)"
  then show "bit (PGADDR (PDX a) (PTX a) (PGOFF a)) n \<longleftrightarrow> bit a n"
    by (cases "n < 22")
      (auto simp: PGADDR_def PDX_def PTX_def PGOFF_def mask10_eq mask12_eq bit_simps)
qed

lemma bit_below_mask: "(d :: u32) AND mask k = d \<Longrightarrow> bit d n \<Longrightarrow> n < k"
  by (metis bit_and_iff bit_mask_iff)

lemma less_and_mask: "(d :: u32) < 1024 \<Longrightarrow> d AND mask 10 = d"
  by (rule word_eq_unatI) (simp add: unat_and_mask word_less_nat_alt)

lemma less_and_mask12: "(d :: u32) < 4096 \<Longrightarrow> d AND mask 12 = d"
  by (rule word_eq_unatI) (simp add: unat_and_mask word_less_nat_alt)

lemma PGADDR_parts:
  assumes "d < 1024" and "t < 1024" and "off < 4096"
  shows "PDX (PGADDR d t off) = d" "PTX (PGADDR d t off) = t" "PGOFF (PGADDR d t off) = off"
proof -
  note d = bit_below_mask [OF less_and_mask [OF assms(1)]]
    and t = bit_below_mask [OF less_and_mask [OF assms(2)]]
    and off = bit_below_mask [OF less_and_mask12 [OF assms(3)]]
  note defs = PGADDR_def PDX_def PTX_def PGOFF_def mask10_eq mask12_eq bit_simps
  show "PDX (PGADDR d t off) = d"
    by (rule bit_word_eqI) (auto simp: defs dest: d t off)
  show "PTX (PGADDR d t off) = t"
    by (rule bit_word_eqI) (auto simp: defs dest: d t off)
  show "PGOFF (PGADDR d t off) = off"
    by (rule bit_word_eqI) (auto simp: defs dest: d t off)
qed

lemma same_page_iff: "PTE_ADDR a = PTE_ADDR b \<longleftrightarrow> PDX a = PDX b \<and> PTX a = PTX b"
proof -
  define p q where "p = unat a div 4096" and "q = unat b div 4096"
  have "PTE_ADDR a = PTE_ADDR b \<longleftrightarrow> p = q"
    by (simp add: word_unat_eq_iff unat_PTE_ADDR minus_mod_eq_mult_div p_def q_def)
  moreover have "p = q \<longleftrightarrow> p div 1024 = q div 1024 \<and> p mod 1024 = q mod 1024"
    by (metis div_mult_mod_eq)
  moreover have "p div 1024 = unat (PDX a)" "q div 1024 = unat (PDX b)"
    by (simp_all add: p_def q_def unat_PDX flip: div_mult2_eq)
  moreover have "p mod 1024 = unat (PTX a)" "q mod 1024 = unat (PTX b)"
    by (simp_all add: p_def q_def unat_PTX)
  ultimately show ?thesis by (simp add: word_unat_eq_iff)
qed

lemma aligned_dvd: "PGOFF b = 0 \<longleftrightarrow> unat b mod 4096 = 0"
  by (simp add: word_unat_eq_iff unat_PGOFF)

lemma aligned_mult: "PGOFF b = 0 \<Longrightarrow> \<exists>k < 1048576. unat b = 4096 * k"
proof -
  assume "PGOFF b = 0"
  then have "unat b = 4096 * (unat b div 4096)" by (auto simp: aligned_dvd)
  moreover have "unat b div 4096 < 1048576" using unat_u32_less [of b] by linarith
  ultimately show ?thesis by blast
qed

lemma slot_unat: "PGOFF b = 0 \<Longrightarrow> i < 1024 \<Longrightarrow> unat (b + 4 * i) = unat b + 4 * unat i"
proof -
  assume b: "PGOFF b = 0" and i: "i < 1024"
  from i have i': "unat i < 1024" by (simp add: word_less_nat_alt)
  then have i4: "unat (4 * i) = 4 * unat i" by (simp add: unat_word_ariths)
  from aligned_mult [OF b] obtain k where "k < 1048576" "unat b = 4096 * k" by blast
  with i' have "unat b + 4 * unat i < 4294967296" by linarith
  then show ?thesis by (simp add: unat_word_ariths i4)
qed

lemma slot_page [simp]: "PGOFF b = 0 \<Longrightarrow> i < 1024 \<Longrightarrow> PTE_ADDR (b + 4 * i) = b"
proof (rule word_eq_unatI)
  assume b: "PGOFF b = 0" and i: "i < 1024"
  from i have i': "unat i < 1024" by (simp add: word_less_nat_alt)
  from aligned_mult [OF b] obtain k where "unat b = 4096 * k" by blast
  with i' have "(unat b + 4 * unat i) mod 4096 = 4 * unat i" by simp
  then show "unat (PTE_ADDR (b + 4 * i)) = unat b"
    using b i by (simp add: unat_PTE_ADDR slot_unat)
qed

lemma slot_inj [simp]:
  assumes "PGOFF b = 0" and "PGOFF c = 0" and "i < 1024" and "j < 1024"
  shows "b + 4 * i = c + 4 * j \<longleftrightarrow> b = c \<and> i = j"
proof
  assume eq: "b + 4 * i = c + 4 * j"
  then have "PTE_ADDR (b + 4 * i) = PTE_ADDR (c + 4 * j)" by simp
  with assms have bc: "b = c" by simp
  from eq assms have "unat b + 4 * unat i = unat c + 4 * unat j" by (metis slot_unat)
  with bc show "b = c \<and> i = j" by (simp add: word_unat_eq_iff)
qed simp

lemma times4_inj [simp]: "i < 1024 \<Longrightarrow> j < 1024 \<Longrightarrow> 4 * i = 4 * j \<longleftrightarrow> i = (j :: u32)"
  using slot_inj [of 0 0 i j] by (simp add: PGOFF_def)

lemma PGOFF_add_aligned [simp]: "PGOFF b = 0 \<Longrightarrow> PGOFF (a + b) = PGOFF a"
proof -
  assume "PGOFF b = 0"
  from aligned_mult [OF this] obtain k where k: "unat b = 4096 * k" by blast
  have "unat (a + b) mod 4096 = (unat a + unat b) mod 4294967296 mod 4096"
    by (simp add: unat_word_ariths)
  also have "\<dots> = (unat a + unat b) mod 4096" by (rule mod_mod_cancel) simp
  also have "\<dots> = unat a mod 4096" by (simp add: k)
  finally show ?thesis by (simp add: word_unat_eq_iff unat_PGOFF)
qed

lemma PGOFF_sub_KERNBASE [simp]: "PGOFF (a - KERNBASE) = PGOFF a"
proof -
  have "PGOFF 0x10000000 = 0" by (simp add: PGOFF_def)
  then have "PGOFF (a + 0x10000000) = PGOFF a" by (rule PGOFF_add_aligned)
  moreover have "a - KERNBASE = a + 0x10000000" by simp
  ultimately show ?thesis by (simp only:)
qed

lemma PTE_ADDR_or: "PTE_ADDR (a OR b) = PTE_ADDR a OR PTE_ADDR b"
  by (simp add: PTE_ADDR_def bit.conj_disj_distrib2)

lemma PGOFF_or: "PGOFF (a OR b) = PGOFF a OR PGOFF b"
  by (simp add: PGOFF_def bit.conj_disj_distrib2)

lemma PTE_ADDR_small [simp]: "f < 4096 \<Longrightarrow> PTE_ADDR f = 0"
  by (rule word_eq_unatI) (simp add: unat_PTE_ADDR word_less_nat_alt)

lemma PGOFF_small [simp]: "f < 4096 \<Longrightarrow> PGOFF f = f"
  by (rule word_eq_unatI) (simp add: unat_PGOFF word_less_nat_alt)

lemma PTE_ADDR_entry: "PGOFF b = 0 \<Longrightarrow> f < 4096 \<Longrightarrow> PTE_ADDR (b OR f) = b"
  by (simp add: PTE_ADDR_or)

lemma PGOFF_entry: "PGOFF b = 0 \<Longrightarrow> f < 4096 \<Longrightarrow> PGOFF (b OR f) = f"
  by (simp add: PGOFF_or)

lemma present_or [simp]: "(w OR PTE_P) AND PTE_P = PTE_P"
  by (rule bit_word_eqI) (auto simp: bit_simps)

end
