(* ===== verification/Segments.thy ===== *)
theory Segments
  imports Prelude
begin

text \<open>
  Segment and gate descriptors of \<^verbatim>\<open>inc/mmu.h\<close> with the macros that fill them, the task
  state segment, and the kernel's global descriptor table of \<^verbatim>\<open>kern/env.c\<close>. Bit fields are
  words of their declared width, so an initialiser truncates as in C.
\<close>

section \<open>Descriptors\<close>

record Segdesc =
  sd_lim_15_0 :: "16 word"
  sd_base_15_0 :: "16 word"
  sd_base_23_16 :: "8 word"
  sd_type :: "4 word"
  sd_s :: "1 word"
  sd_dpl :: "2 word"
  sd_p :: "1 word"
  sd_lim_19_16 :: "4 word"
  sd_avl :: "1 word"
  sd_rsv1 :: "1 word"
  sd_db :: "1 word"
  sd_g :: "1 word"
  sd_base_31_24 :: "8 word"

definition SEG_NULL :: Segdesc where
  "SEG_NULL = \<lparr>sd_lim_15_0 = 0, sd_base_15_0 = 0, sd_base_23_16 = 0, sd_type = 0, sd_s = 0,
     sd_dpl = 0, sd_p = 0, sd_lim_19_16 = 0, sd_avl = 0, sd_rsv1 = 0, sd_db = 0, sd_g = 0,
     sd_base_31_24 = 0\<rparr>"

definition SEG :: "u32 \<Rightarrow> u32 \<Rightarrow> u32 \<Rightarrow> u32 \<Rightarrow> Segdesc" where
  "SEG type base lim dpl = \<lparr>sd_lim_15_0 = ucast (drop_bit 12 lim AND 0xFFFF),
     sd_base_15_0 = ucast (base AND 0xFFFF), sd_base_23_16 = ucast (drop_bit 16 base AND 0xFF),
     sd_type = ucast type, sd_s = 1, sd_dpl = ucast dpl, sd_p = 1,
     sd_lim_19_16 = ucast (drop_bit 28 lim), sd_avl = 0, sd_rsv1 = 0, sd_db = 1, sd_g = 1,
     sd_base_31_24 = ucast (drop_bit 24 base)\<rparr>"

definition SEG16 :: "u32 \<Rightarrow> u32 \<Rightarrow> u32 \<Rightarrow> u32 \<Rightarrow> Segdesc" where
  "SEG16 type base lim dpl = \<lparr>sd_lim_15_0 = ucast (lim AND 0xFFFF),
     sd_base_15_0 = ucast (base AND 0xFFFF), sd_base_23_16 = ucast (drop_bit 16 base AND 0xFF),
     sd_type = ucast type, sd_s = 1, sd_dpl = ucast dpl, sd_p = 1,
     sd_lim_19_16 = ucast (drop_bit 16 lim), sd_avl = 0, sd_rsv1 = 0, sd_db = 1, sd_g = 0,
     sd_base_31_24 = ucast (drop_bit 24 base)\<rparr>"

abbreviation (input) STA_X :: u32 where "STA_X \<equiv> 0x8"
abbreviation (input) STA_W :: u32 where "STA_W \<equiv> 0x2"
abbreviation (input) STA_R :: u32 where "STA_R \<equiv> 0x2"
abbreviation (input) STS_T32A :: u32 where "STS_T32A \<equiv> 0x9"
abbreviation (input) STS_IG32 :: "4 word" where "STS_IG32 \<equiv> 0xE"
abbreviation (input) STS_TG32 :: "4 word" where "STS_TG32 \<equiv> 0xF"

record Taskstate =
  ts_link :: u32
  ts_esp0 :: u32
  ts_ss0 :: u16
  ts_padding1 :: u16
  ts_esp1 :: u32
  ts_ss1 :: u16
  ts_padding2 :: u16
  ts_esp2 :: u32
  ts_ss2 :: u16
  ts_padding3 :: u16
  ts_cr3 :: u32
  ts_eip :: u32
  ts_eflags :: u32
  ts_eax :: u32
  ts_ecx :: u32
  ts_edx :: u32
  ts_ebx :: u32
  ts_esp :: u32
  ts_ebp :: u32
  ts_esi :: u32
  ts_edi :: u32
  ts_es :: u16
  ts_padding4 :: u16
  ts_cs :: u16
  ts_padding5 :: u16
  ts_ss :: u16
  ts_padding6 :: u16
  ts_ds :: u16
  ts_padding7 :: u16
  ts_fs :: u16
  ts_padding8 :: u16
  ts_gs :: u16
  ts_padding9 :: u16
  ts_ldt :: u16
  ts_padding10 :: u16
  ts_t :: u16
  ts_iomb :: u16

abbreviation (input) sizeof_Taskstate :: nat where "sizeof_Taskstate \<equiv> 104"

record Gatedesc =
  gd_off_15_0 :: "16 word"
  gd_sel :: "16 word"
  gd_args :: "5 word"
  gd_rsv1 :: "3 word"
  gd_type :: "4 word"
  gd_s :: "1 word"
  gd_dpl :: "2 word"
  gd_p :: "1 word"
  gd_off_31_16 :: "16 word"

definition SETGATE :: "bool \<Rightarrow> u16 \<Rightarrow> u32 \<Rightarrow> u32 \<Rightarrow> Gatedesc" where
  "SETGATE istrap sel off dpl = \<lparr>gd_off_15_0 = ucast (off AND 0xFFFF), gd_sel = sel, gd_args = 0,
     gd_rsv1 = 0, gd_type = (if istrap then STS_TG32 else STS_IG32), gd_s = 0,
     gd_dpl = ucast dpl, gd_p = 1, gd_off_31_16 = ucast (drop_bit 16 off)\<rparr>"

text \<open>The static initialiser of \<^verbatim>\<open>gdt[NCPU + 5]\<close>; slots are selectors shifted right by three.\<close>

definition gdt_init :: "nat \<Rightarrow> Segdesc" where
  "gdt_init i =
     (if i = 1 then SEG (STA_X OR STA_R) 0 0xFFFFFFFF 0
      else if i = 2 then SEG STA_W 0 0xFFFFFFFF 0
      else if i = 3 then SEG (STA_X OR STA_R) 0 0xFFFFFFFF 3
      else if i = 4 then SEG STA_W 0 0xFFFFFFFF 3
      else SEG_NULL)"

section \<open>What the hardware reads\<close>

definition gate_offset :: "Gatedesc \<Rightarrow> u32" where
  "gate_offset g = push_bit 16 (ucast (gd_off_31_16 g)) OR ucast (gd_off_15_0 g)"

definition seg_base :: "Segdesc \<Rightarrow> u32" where
  "seg_base d = push_bit 24 (ucast (sd_base_31_24 d)) OR push_bit 16 (ucast (sd_base_23_16 d)) OR
     ucast (sd_base_15_0 d)"

lemma mask16_eq: "(0xFFFF :: u32) = mask 16"
  by (simp add: mask_eq_exp_minus_1)

lemma mask8_eq: "(0xFF :: u32) = mask 8"
  by (simp add: mask_eq_exp_minus_1)

lemma gate_offset_SETGATE: "gate_offset (SETGATE t sel off dpl) = off"
proof (rule bit_word_eqI)
  fix n assume "n < LENGTH(32)"
  then show "bit (gate_offset (SETGATE t sel off dpl)) n \<longleftrightarrow> bit off n"
    by (cases "n < 16") (auto simp: gate_offset_def SETGATE_def mask16_eq bit_simps)
qed

lemma seg_base_SEG16: "seg_base (SEG16 t base lim dpl) = base"
proof (rule bit_word_eqI)
  fix n assume "n < LENGTH(32)"
  then show "bit (seg_base (SEG16 t base lim dpl)) n \<longleftrightarrow> bit base n"
    by (cases "n < 16"; cases "n < 24") (auto simp: seg_base_def SEG16_def mask16_eq mask8_eq bit_simps)
qed

end
