(* ===== verification/Console.thy ===== *)
theory Console
  imports Prelude
begin

text \<open>
  The console of \<^verbatim>\<open>kern/console.c\<close>: the ring buffer of input characters, the keyboard
  driver's state machine with its key maps, the serial port and the text screen.

  Devices are part of the record: \<open>serial_rx\<close> and \<open>kbd_rx\<close> hold the bytes the serial port and
  the keyboard controller will deliver (for the keyboard the status byte that accompanies
  each), \<open>serial_tx\<close> and \<open>lpt_tx\<close> what was written to the two ports (latest first),
  \<open>crt_buf\<close> the memory of the screen and \<open>crt_cursor\<close> the cursor register. Polling loops that
  only wait for a device (\<^verbatim>\<open>delay\<close>) have no effect and are left out.
\<close>

section \<open>State\<close>

record console =
  serial_exists :: bool
  serial_rx :: "u8 list"
  serial_tx :: "u8 list"
  lpt_tx :: "u8 list"
  addr_6845 :: u32
  crt_buf :: "nat \<Rightarrow> u16"
  crt_pos :: u16
  crt_cursor :: u16
  kbd_rx :: "(u8 \<times> u8) list"
  kbd_shift :: u32
  rebooted :: bool
  cbuf :: "nat \<Rightarrow> u8"
  rpos :: u32
  wpos :: u32

abbreviation (input) CRT_COLS :: u16 where "CRT_COLS \<equiv> 80"
abbreviation (input) CRT_SIZE :: u16 where "CRT_SIZE \<equiv> 2000"
abbreviation (input) CONSBUFSIZE :: u32 where "CONSBUFSIZE \<equiv> 512"

section \<open>Serial and parallel port\<close>

definition serial_proc_data :: "console \<Rightarrow> u32 \<times> console" where
  "serial_proc_data con =
     (case serial_rx con of
        [] \<Rightarrow> (- 1, con)
      | b # bs \<Rightarrow> (ucast b, con\<lparr>serial_rx := bs\<rparr>))"

definition serial_putc :: "u32 \<Rightarrow> console \<Rightarrow> console" where
  "serial_putc c con = con\<lparr>serial_tx := ucast c # serial_tx con\<rparr>"

text \<open>The line status register as read once the port is set up; \<open>0xFF\<close> when there is none.\<close>

definition serial_init :: "u8 \<Rightarrow> console \<Rightarrow> console" where
  "serial_init lsr con = con\<lparr>serial_exists := (lsr \<noteq> 0xFF), serial_rx := drop 1 (serial_rx con)\<rparr>"

definition lpt_putc :: "u32 \<Rightarrow> console \<Rightarrow> console" where
  "lpt_putc c con = con\<lparr>lpt_tx := ucast c # lpt_tx con\<rparr>"

section \<open>Screen\<close>

text \<open>
  \<open>present\<close> says whether colour memory keeps what is written to it; \<open>hi\<close> and \<open>lo\<close> are the two
  halves of the cursor register.
\<close>

definition cga_init :: "bool \<Rightarrow> u8 \<Rightarrow> u8 \<Rightarrow> console \<Rightarrow> console" where
  "cga_init present hi lo con =
     con\<lparr>addr_6845 := (if present then 0x3D4 else 0x3B4),
         crt_pos := ucast (push_bit 8 (ucast hi :: u32) OR ucast lo)\<rparr>"

definition cga_switch :: "u32 \<Rightarrow> console \<Rightarrow> console" where
  "cga_switch c con =
     (let b = c AND 0xFF in
      if b = 0x08 then
        (if crt_pos con > 0 then
           con\<lparr>crt_pos := crt_pos con - 1,
               crt_buf := (crt_buf con)(unat (crt_pos con - 1) := ucast ((c AND NOT 0xFF) OR 0x20))\<rparr>
         else con)
      else if b = 0x0A then
        (let p = crt_pos con + CRT_COLS in con\<lparr>crt_pos := p - p mod CRT_COLS\<rparr>)
      else if b = 0x0D then con\<lparr>crt_pos := crt_pos con - crt_pos con mod CRT_COLS\<rparr>
      else con\<lparr>crt_buf := (crt_buf con)(unat (crt_pos con) := ucast c), crt_pos := crt_pos con + 1\<rparr>)"

text \<open>Scrolling by one line when the screen is full, then moving the cursor.\<close>

definition cga_finish :: "console \<Rightarrow> console" where
  "cga_finish con =
     (let con = (if crt_pos con \<ge> CRT_SIZE then
         con\<lparr>crt_buf := (\<lambda>i. if i < 1920 then crt_buf con (i + 80)
                             else if i < 2000 then 0x0700 OR 0x20 else crt_buf con i),
             crt_pos := crt_pos con - CRT_COLS\<rparr> else con)
      in con\<lparr>crt_cursor := crt_pos con\<rparr>)"

definition cga_attr :: "u32 \<Rightarrow> u32" where
  "cga_attr c = (if c AND NOT 0xFF = 0 then c OR 0x0700 else c)"

text \<open>A tab prints five blanks through \<^verbatim>\<open>cons_putc\<close>, which come back here as ordinary characters.\<close>

definition cga_putc_blank :: "console \<Rightarrow> console" where
  "cga_putc_blank con = cga_finish (cga_switch (cga_attr 0x20) con)"

definition cons_putc_blank :: "console \<Rightarrow> console" where
  "cons_putc_blank con = cga_putc_blank (lpt_putc 0x20 (serial_putc 0x20 con))"

definition cga_putc :: "u32 \<Rightarrow> console \<Rightarrow> console" where
  "cga_putc c con =
     (let c = cga_attr c in
      cga_finish (if c AND 0xFF = 0x09 then (cons_putc_blank ^^ 5) con else cga_switch c con))"

definition cons_putc :: "u32 \<Rightarrow> console \<Rightarrow> console" where
  "cons_putc c con = cga_putc c (lpt_putc c (serial_putc c con))"

definition cputchar :: "u32 \<Rightarrow> console \<Rightarrow> console" where
  "cputchar c con = cons_putc c con"

text \<open>The bytes of a string, and \<^verbatim>\<open>cprintf\<close> of a format that has no directive.\<close>

definition codes :: "string \<Rightarrow> u8 list" where
  "codes = map of_char"

definition cprintf_lit :: "u8 list \<Rightarrow> console \<Rightarrow> console" where
  "cprintf_lit msg = fold (\<lambda>ch. cputchar (ucast ch)) msg"

section \<open>Keyboard\<close>

abbreviation (input) SHIFT :: u32 where "SHIFT \<equiv> 1"
abbreviation (input) CTL :: u32 where "CTL \<equiv> 2"
abbreviation (input) ALT :: u32 where "ALT \<equiv> 4"
abbreviation (input) CAPSLOCK :: u32 where "CAPSLOCK \<equiv> 8"
abbreviation (input) NUMLOCK :: u32 where "NUMLOCK \<equiv> 16"
abbreviation (input) SCROLLLOCK :: u32 where "SCROLLLOCK \<equiv> 32"
abbreviation (input) E0ESC :: u32 where "E0ESC \<equiv> 64"
abbreviation (input) KBS_DIB :: u8 where "KBS_DIB \<equiv> 1"
abbreviation (input) KBS_TERR :: u8 where "KBS_TERR \<equiv> 0x20"
abbreviation (input) KEY_DEL :: u32 where "KEY_DEL \<equiv> 0xE9"

definition shiftcode :: "u8 \<Rightarrow> u32" where
  "shiftcode d =
     (if d = 0x1D \<or> d = 0x9D then CTL
      else if d = 0x2A \<or> d = 0x36 then SHIFT
      else if d = 0x38 \<or> d = 0xB8 then ALT else 0)"

definition togglecode :: "u8 \<Rightarrow> u32" where
  "togglecode d =
     (if d = 0x3A then CAPSLOCK else if d = 0x45 then NUMLOCK
      else if d = 0x46 then SCROLLLOCK else 0)"

text \<open>Reading an array whose initialiser names the first elements; the others are zero.\<close>

definition table :: "u8 list \<Rightarrow> (u8 \<times> u8) list \<Rightarrow> u8 \<Rightarrow> u8" where
  "table xs ys d =
     (case map_of ys d of Some v \<Rightarrow> v
      | None \<Rightarrow> if unat d < length xs then xs ! unat d else 0)"

definition keypad :: "(u8 \<times> u8) list" where
  "keypad = [(0xC8, 0xE2), (0xC9, 0xE6), (0xCB, 0xE4), (0xCD, 0xE5), (0xCF, 0xE1),
     (0xD0, 0xE3), (0xD1, 0xE7), (0xD2, 0xE8), (0xD3, 0xE9)]"

definition normalmap :: "u8 \<Rightarrow> u8" where
  "normalmap = table
     ([0, 0x1B] @ codes ''1234567890-='' @ [8, 9] @
      codes ''qwertyuiop[]'' @ [10, 0] @
      codes ''asdfghjkl;'' @ [0x27, 0x60, 0, 0x5C] @ codes ''zxcvbnm,./'' @ [0] @ codes ''*'' @
      [0] @ codes '' '' @ replicate 13 0 @
      codes ''789-456+1230.'')
     ([(0xC7, 0xE0), (0x9C, 10), (0xB5, of_char (CHR ''/''))] @ keypad)"

definition shiftmap :: "u8 \<Rightarrow> u8" where
  "shiftmap = table
     ([0, 0x1B] @ codes ''!@#$%^&*()_+'' @ [8, 9] @
      codes ''QWERTYUIOP{}'' @ [10, 0] @
      codes ''ASDFGHJKL:'' @ [0x22, 0x7E, 0, 0x7C] @ codes ''ZXCVBNM<>?'' @ [0] @ codes ''*'' @
      [0] @ codes '' '' @ replicate 13 0 @
      codes ''789-456+1230.'')
     ([(0xC7, 0xE0), (0x9C, 10), (0xB5, of_char (CHR ''/''))] @ keypad)"

definition ctl :: "string \<Rightarrow> u8 list" where
  "ctl s = map (\<lambda>c. c - 0x40) (codes s)"

definition ctlmap :: "u8 \<Rightarrow> u8" where
  "ctlmap = table
     (replicate 16 0 @ ctl ''QWERTYUIOP'' @ [0, 0, 13, 0] @ ctl ''ASDFGHJKL'' @ [0] @
      [0, 0, 0, 0x5C - 0x40] @ ctl ''ZXCVBNM'' @ [0, 0] @ ctl ''/'' @ [0, 0])
     ([(0x97, 0xE0), (0xB5, of_char (CHR ''/'') - 0x40)] @ keypad)"

definition charcode :: "u32 \<Rightarrow> u8 \<Rightarrow> u8" where
  "charcode i = (if i = 0 then normalmap else if i = 1 then shiftmap else ctlmap)"

text \<open>What one scan code does to the shift state, and the character it stands for, 0 if none.\<close>

definition kbd_decode :: "u32 \<Rightarrow> u8 \<Rightarrow> u32 \<times> u32" where
  "kbd_decode shift data =
     (if data = 0xE0 then (0, shift OR E0ESC)
      else if data AND 0x80 \<noteq> 0 then
        (let data = (if shift AND E0ESC \<noteq> 0 then data else data AND 0x7F)
         in (0, shift AND NOT (shiftcode data OR E0ESC)))
      else
        let esc = shift AND E0ESC \<noteq> 0;
            data = (if esc then data OR 0x80 else data);
            shift = (if esc then shift AND NOT E0ESC else shift);
            shift = (shift OR shiftcode data) XOR togglecode data;
            c = (ucast (charcode (shift AND (CTL OR SHIFT)) data) :: u32)
        in (if shift AND CAPSLOCK \<noteq> 0 then
              (if 0x61 \<le> c \<and> c \<le> 0x7A then c - 0x20
               else if 0x41 \<le> c \<and> c \<le> 0x5A then c + 0x20 else c)
            else c, shift))"

text \<open>
  The three ways \<^verbatim>\<open>kbd_proc_data\<close> returns early after reading a scan code give no character, so
  its last test, for Ctrl-Alt-Del, is written once behind all of them.
\<close>

definition kbd_proc_data :: "console \<Rightarrow> u32 \<times> console" where
  "kbd_proc_data con =
     (case kbd_rx con of
        [] \<Rightarrow> (- 1, con)
      | (stat, data) # rest \<Rightarrow>
          if stat AND KBS_DIB = 0 then (- 1, con)
          else if stat AND KBS_TERR \<noteq> 0 then (- 1, con)
          else
            let (c, shift) = kbd_decode (kbd_shift con) data;
                con = con\<lparr>kbd_rx := rest, kbd_shift := shift\<rparr>
            in if NOT shift AND (CTL OR ALT) = 0 \<and> c = KEY_DEL
               then (c, (cprintf_lit (codes ''Rebooting!'' @ [10]) con)\<lparr>rebooted := True\<rparr>)
               else (c, con))"

section \<open>Input buffer\<close>

definition cons_store :: "u32 \<Rightarrow> console \<Rightarrow> console" where
  "cons_store c con =
     (let con = con\<lparr>cbuf := (cbuf con)(unat (wpos con) := ucast c), wpos := wpos con + 1\<rparr>
      in if wpos con = CONSBUFSIZE then con\<lparr>wpos := 0\<rparr> else con)"

partial_function (option) cons_intr :: "(console \<Rightarrow> u32 \<times> console) \<Rightarrow> console \<Rightarrow> console option" where
  "cons_intr proc con =
     (let r = proc con in
      if fst r = - 1 then Some (snd r)
      else if fst r = 0 then cons_intr proc (snd r)
      else cons_intr proc (cons_store (fst r) (snd r)))"

definition serial_intr :: "console \<Rightarrow> console option" where
  "serial_intr con = (if serial_exists con then cons_intr serial_proc_data con else Some con)"

definition kbd_intr :: "console \<Rightarrow> console option" where
  "kbd_intr con = cons_intr kbd_proc_data con"

definition cons_getc :: "console \<Rightarrow> (u32 \<times> console) option" where
  "cons_getc con = do {
     con \<leftarrow> serial_intr con;
     con \<leftarrow> kbd_intr con;
     (if rpos con \<noteq> wpos con then
        let c = ucast (cbuf con (unat (rpos con)));
            con = con\<lparr>rpos := rpos con + 1\<rparr>
        in Some (c, if rpos con = CONSBUFSIZE then con\<lparr>rpos := 0\<rparr> else con)
      else Some (0, con))}"

text \<open>Initialisation; unmasking the keyboard's interrupt line belongs to the interrupt controller.\<close>

definition kbd_init :: "console \<Rightarrow> console option" where
  "kbd_init con = kbd_intr con"

definition cons_init :: "bool \<Rightarrow> u8 \<Rightarrow> u8 \<Rightarrow> u8 \<Rightarrow> console \<Rightarrow> console option" where
  "cons_init present hi lo lsr con = do {
     con \<leftarrow> kbd_init (cga_init present hi lo con);
     let con = serial_init lsr con;
     Some (if serial_exists con then con
           else cprintf_lit (codes ''Serial port does not exist!'' @ [10]) con)}"

text \<open>
  \<^verbatim>\<open>getchar\<close> polls until a character is there. What the devices deliver between two polls is the
  argument: one update of the console for each poll after the first; when the updates are used
  up without a character the poll goes on, which is \<^term>\<open>None\<close>.
\<close>

fun getchar :: "(console \<Rightarrow> console) list \<Rightarrow> console \<Rightarrow> (u32 \<times> (console \<Rightarrow> console) list \<times> console) option" where
  "getchar arrivals con = do {
     (c, con) \<leftarrow> cons_getc con;
     if c \<noteq> 0 then Some (c, arrivals, con)
     else case arrivals of [] \<Rightarrow> None | a # as \<Rightarrow> getchar as (a con)}"

declare getchar.simps [simp del]

definition iscons :: "u32 \<Rightarrow> u32" where
  "iscons fdnum = 1"

end
