(* ===== verification/Kstate.thy ===== *)
theory Kstate
  imports Layout Segments Console
begin

text \<open>
  The kernel's data: page descriptors, trap frames, environments, CPUs, the big kernel
  lock and the record of the whole kernel state, together with the inline helpers of
  \<^verbatim>\<open>kern/pmap.h\<close> and the access to memory.

  Physical memory is the field \<open>phys\<close>, a function from the physical address of a 32-bit
  word (a multiple of four) to its value; byte accesses are derived from it, least
  significant byte first. The kernel reaches physical memory through its linear mapping at
  \<^verbatim>\<open>KERNBASE\<close>: dereferencing a kernel pointer \<open>kva\<close> is an access to \<open>kva - KERNBASE\<close>.
  Pointers to page directories and page table entries are such 32-bit kernel addresses.
  A \<^verbatim>\<open>struct PageInfo *\<close> is an index into \<^verbatim>\<open>pages\<close>, a \<^verbatim>\<open>struct Env *\<close> an index into
  \<^verbatim>\<open>envs\<close>. Per-CPU registers (\<^verbatim>\<open>cr3\<close>, the task register) are functions of the CPU number,
  and \<open>cpunum_reg\<close> is the number of the CPU that is executing. The lock's debugging fields
  other than the holder are left out.
\<close>

section \<open>Structures\<close>

record PageInfo =
  pp_link :: "nat option"
  pp_ref :: u16

record PushRegs =
  reg_edi :: u32
  reg_esi :: u32
  reg_ebp :: u32
  reg_oesp :: u32
  reg_ebx :: u32
  reg_edx :: u32
  reg_ecx :: u32
  reg_eax :: u32

record Trapframe =
  tf_regs :: PushRegs
  tf_es :: u16
  tf_padding1 :: u16
  tf_ds :: u16
  tf_padding2 :: u16
  tf_trapno :: u32
  tf_err :: u32
  tf_eip :: u32
  tf_cs :: u16
  tf_padding3 :: u16
  tf_eflags :: u32
  tf_esp :: u32
  tf_ss :: u16
  tf_padding4 :: u16

abbreviation (input) ENV_FREE :: u32 where "ENV_FREE \<equiv> 0"
abbreviation (input) ENV_DYING :: u32 where "ENV_DYING \<equiv> 1"
abbreviation (input) ENV_RUNNABLE :: u32 where "ENV_RUNNABLE \<equiv> 2"
abbreviation (input) ENV_RUNNING :: u32 where "ENV_RUNNING \<equiv> 3"
abbreviation (input) ENV_NOT_RUNNABLE :: u32 where "ENV_NOT_RUNNABLE \<equiv> 4"
abbreviation (input) ENV_TYPE_USER :: u32 where "ENV_TYPE_USER \<equiv> 0"
abbreviation (input) NENV :: nat where "NENV \<equiv> 1024"

record Env =
  env_tf :: Trapframe
  env_link :: "nat option"
  env_id :: u32
  env_parent_id :: u32
  env_type :: u32
  env_status :: u32
  env_runs :: u32
  env_cpunum :: nat
  env_pgdir :: u32
  env_pgfault_upcall :: u32
  env_ipc_recving :: bool
  env_ipc_dstva :: u32
  env_ipc_value :: u32
  env_ipc_from :: u32
  env_ipc_perm :: u32

abbreviation (input) NCPU :: nat where "NCPU \<equiv> 8"
abbreviation (input) CPU_UNUSED :: u32 where "CPU_UNUSED \<equiv> 0"
abbreviation (input) CPU_STARTED :: u32 where "CPU_STARTED \<equiv> 1"
abbreviation (input) CPU_HALTED :: u32 where "CPU_HALTED \<equiv> 2"

record CpuInfo =
  cpu_id :: u8
  cpu_status :: u32
  cpu_env :: "nat option"
  cpu_ts :: Taskstate

record spinlock =
  locked :: u32
  lk_cpu :: "nat option"

record kstate =
  npages :: u32
  npages_basemem :: u32
  kern_pgdir :: u32
  pages_va :: u32
  pages :: "nat \<Rightarrow> PageInfo"
  page_free_list :: "nat option"
  nextfree :: u32
  mmio_base :: u32
  user_mem_check_addr :: u32
  phys :: "u32 \<Rightarrow> u32"
  envs_va :: u32
  envs :: "nat \<Rightarrow> Env"
  env_free_list :: "nat option"
  cpus :: "nat \<Rightarrow> CpuInfo"
  cpunum_reg :: nat
  cr3 :: "nat \<Rightarrow> u32"
  invlpg_log :: "u32 list"
  kernel_lock :: spinlock
  cons :: console
  gdt :: "nat \<Rightarrow> Segdesc"
  idt :: "nat \<Rightarrow> Gatedesc"
  task_reg :: "nat \<Rightarrow> u16"

text \<open>The frame and the environment that \<^verbatim>\<open>memset\<close> to zero leaves.\<close>

definition tf_zero :: Trapframe where
  "tf_zero = \<lparr>tf_regs = \<lparr>reg_edi = 0, reg_esi = 0, reg_ebp = 0, reg_oesp = 0, reg_ebx = 0,
       reg_edx = 0, reg_ecx = 0, reg_eax = 0\<rparr>,
     tf_es = 0, tf_padding1 = 0, tf_ds = 0, tf_padding2 = 0, tf_trapno = 0, tf_err = 0, tf_eip = 0,
     tf_cs = 0, tf_padding3 = 0, tf_eflags = 0, tf_esp = 0, tf_ss = 0, tf_padding4 = 0\<rparr>"

definition env_zero :: Env where
  "env_zero = \<lparr>env_tf = tf_zero, env_link = None, env_id = 0, env_parent_id = 0, env_type = 0,
     env_status = 0, env_runs = 0, env_cpunum = 0, env_pgdir = 0, env_pgfault_upcall = 0,
     env_ipc_recving = False, env_ipc_dstva = 0, env_ipc_value = 0, env_ipc_from = 0,
     env_ipc_perm = 0\<rparr>"

section \<open>Current CPU and environment\<close>

definition curenv :: "kstate \<Rightarrow> nat option" where
  "curenv s = cpu_env (cpus s (cpunum_reg s))"

definition set_curenv :: "nat option \<Rightarrow> kstate \<Rightarrow> kstate" where
  "set_curenv e s =
     s\<lparr>cpus := (cpus s)(cpunum_reg s := (cpus s (cpunum_reg s))\<lparr>cpu_env := e\<rparr>)\<rparr>"

definition lcr3 :: "u32 \<Rightarrow> kstate \<Rightarrow> kstate" where
  "lcr3 v s = s\<lparr>cr3 := (cr3 s)(cpunum_reg s := v)\<rparr>"

definition upd_env :: "nat \<Rightarrow> (Env \<Rightarrow> Env) \<Rightarrow> kstate \<Rightarrow> kstate" where
  "upd_env e f s = s\<lparr>envs := (envs s)(e := f (envs s e))\<rparr>"

section \<open>Memory\<close>

definition ld :: "kstate \<Rightarrow> u32 \<Rightarrow> u32" where
  "ld s kva = phys s (kva - KERNBASE)"

definition st :: "u32 \<Rightarrow> u32 \<Rightarrow> kstate \<Rightarrow> kstate" where
  "st kva v s = s\<lparr>phys := (phys s)(kva - KERNBASE := v)\<rparr>"

text \<open>The word-wise branch of \<^verbatim>\<open>memset\<close>: \<open>n\<close> bytes from \<open>pa\<close>, both multiples of four.\<close>

definition memset_words :: "u32 \<Rightarrow> u32 \<Rightarrow> u32 \<Rightarrow> kstate \<Rightarrow> kstate" where
  "memset_words kva c n s =
     (let b = c AND 0xFF; w = push_bit 24 b OR push_bit 16 b OR push_bit 8 b OR b in
      s\<lparr>phys := (\<lambda>a. if a - (kva - KERNBASE) < n then w else phys s a)\<rparr>)"

definition byte_of :: "u32 \<Rightarrow> u32 \<Rightarrow> u8" where
  "byte_of w a = ucast (drop_bit (8 * unat (a AND 3)) w)"

definition ld8 :: "(u32 \<Rightarrow> u32) \<Rightarrow> u32 \<Rightarrow> u8" where
  "ld8 m a = byte_of (m (a AND NOT 3)) a"

definition st8 :: "u32 \<Rightarrow> u8 \<Rightarrow> (u32 \<Rightarrow> u32) \<Rightarrow> (u32 \<Rightarrow> u32)" where
  "st8 a v m =
     (let sh = 8 * unat (a AND 3); w = m (a AND NOT 3) in
      m(a AND NOT 3 := (w AND NOT (push_bit sh 0xFF)) OR push_bit sh (ucast v)))"

section \<open>Addresses of pages (kern/pmap.h)\<close>

definition PADDR :: "u32 \<Rightarrow> u32 option" where
  "PADDR kva = (if kva < KERNBASE then None else Some (kva - KERNBASE))"

definition KADDR :: "kstate \<Rightarrow> u32 \<Rightarrow> u32 option" where
  "KADDR s pa = (if PGNUM pa \<ge> npages s then None else Some (pa + KERNBASE))"

definition page2pa :: "nat \<Rightarrow> u32" where
  "page2pa pp = push_bit PGSHIFT (of_nat pp)"

definition pa2page :: "kstate \<Rightarrow> u32 \<Rightarrow> nat option" where
  "pa2page s pa = (if PGNUM pa \<ge> npages s then None else Some (unat (PGNUM pa)))"

definition page2kva :: "kstate \<Rightarrow> nat \<Rightarrow> u32 option" where
  "page2kva s pp = KADDR s (page2pa pp)"

section \<open>Laws\<close>

lemma unat_page2pa: "i < 1048576 \<Longrightarrow> unat (page2pa i) = 4096 * i"
  by (simp add: page2pa_def push_bit_eq_mult unat_word_ariths unat_of_nat)

lemma PGNUM_page2pa: "i < 1048576 \<Longrightarrow> PGNUM (page2pa i) = of_nat i"
  by (rule word_eq_unatI) (simp add: unat_PGNUM unat_page2pa unat_of_nat)

lemma page2pa_aligned [simp]: "PGOFF (page2pa i) = 0"
  by (rule bit_word_eqI) (auto simp: PGOFF_def mask12_eq page2pa_def bit_simps)

lemma page2pa_inj: "i < 1048576 \<Longrightarrow> j < 1048576 \<Longrightarrow> page2pa i = page2pa j \<longleftrightarrow> i = j"
  by (metis mult_cancel_left unat_page2pa zero_neq_numeral)

lemma page2pa_PGNUM: "page2pa (unat (PGNUM a)) = PTE_ADDR a"
proof (rule word_eq_unatI)
  have "unat a div 4096 < 1048576" using unat_u32_less [of a] by linarith
  then show "unat (page2pa (unat (PGNUM a))) = unat (PTE_ADDR a)"
    by (simp add: unat_page2pa unat_PGNUM unat_PTE_ADDR minus_mod_eq_mult_div)
qed

lemma PGNUM_PTE_ADDR [simp]: "PGNUM (PTE_ADDR a) = PGNUM a"
  by (rule word_eq_unatI) (simp add: unat_PGNUM unat_PTE_ADDR minus_mod_eq_mult_div)

lemma page_range_iff: "PGOFF b = 0 \<Longrightarrow> a - b < 4096 \<longleftrightarrow> PTE_ADDR a = b"
proof
  assume b: "PGOFF b = 0" and "a - b < 4096"
  define d where "d = a - b"
  from aligned_mult [OF b] obtain k where k: "k < 1048576" "unat b = 4096 * k" by blast
  have d: "unat d < 4096" using \<open>a - b < 4096\<close> by (simp add: d_def word_less_nat_alt)
  have a: "a = b + d" by (simp add: d_def)
  have "unat a = 4096 * k + unat d"
    using k d by (simp add: a unat_word_ariths)
  then have "unat a - unat a mod 4096 = unat b" using d k by simp
  then show "PTE_ADDR a = b" by (simp add: word_unat_eq_iff unat_PTE_ADDR)
next
  assume "PTE_ADDR a = b"
  then have "unat b = unat a - unat a mod 4096" by (auto simp: unat_PTE_ADDR)
  moreover from this have "b \<le> a" by (simp add: word_le_nat_alt)
  then have "unat (a - b) = unat a - unat b" by (simp add: unat_sub)
  ultimately have "unat (a - b) = unat a mod 4096" by simp
  then show "a - b < 4096" by (simp add: word_less_nat_alt)
qed

lemma phys_st: "phys (st kva v s) = (phys s)(kva - KERNBASE := v)"
  by (simp add: st_def)

lemma phys_clear_page:
  "PGOFF pa = 0 \<Longrightarrow>
   phys (memset_words (pa + KERNBASE) 0 PGSIZE s) = (\<lambda>a. if PTE_ADDR a = pa then 0 else phys s a)"
  by (auto simp: memset_words_def page_range_iff)

lemma pa2page_page2pa:
  "i < unat (npages s) \<Longrightarrow> unat (npages s) \<le> 1048576 \<Longrightarrow> pa2page s (page2pa i) = Some i"
  by (simp add: pa2page_def PGNUM_page2pa word_le_nat_alt unat_of_nat)

lemma page2kva_Some:
  "i < unat (npages s) \<Longrightarrow> unat (npages s) \<le> 1048576 \<Longrightarrow>
   page2kva s i = Some (page2pa i + KERNBASE)"
  by (simp add: page2kva_def KADDR_def PGNUM_page2pa word_le_nat_alt unat_of_nat)

lemma KADDR_Some_iff: "KADDR s pa = Some kva \<longleftrightarrow> PGNUM pa < npages s \<and> kva = pa + KERNBASE"
  by (auto simp: KADDR_def not_le)

lemma PADDR_KADDR: "KADDR s pa = Some kva \<Longrightarrow> unat pa < 268435456 \<Longrightarrow> PADDR kva = Some pa"
  by (auto simp: KADDR_Some_iff PADDR_def word_less_nat_alt unat_word_ariths)

lemma curenv_set [simp]: "curenv (set_curenv e s) = e"
  by (simp add: curenv_def set_curenv_def)

end
