(* ===== verification/Pages.thy ===== *)
theory Pages
  imports Kstate
begin

text \<open>
  The physical page allocator of \<^verbatim>\<open>kern/pmap.c\<close>: the boot-time bump allocator, the
  construction of the free list, allocation, release and reference counts. The allocator's
  invariant says that the free list is a finite acyclic chain of in-range descriptors whose
  reference counts are zero; the allocator meets the free-list interface of the prelude.
\<close>

section \<open>Operations\<close>

text \<open>The parameter \<open>kend\<close> is the linker's symbol \<^verbatim>\<open>end\<close>.\<close>

definition boot_alloc :: "u32 \<Rightarrow> u32 \<Rightarrow> kstate \<Rightarrow> (u32 \<times> kstate) option" where
  "boot_alloc kend n s =
     (let s1 = (if nextfree s = 0 then s\<lparr>nextfree := ROUNDUP kend PGSIZE\<rparr> else s);
          result = nextfree s1;
          s2 = s1\<lparr>nextfree := ROUNDUP (nextfree s1 + n) PGSIZE\<rparr>
      in if nextfree s2 - KERNBASE > npages s2 * PGSIZE then None else Some (result, s2))"

definition set_page :: "nat \<Rightarrow> PageInfo \<Rightarrow> kstate \<Rightarrow> kstate" where
  "set_page i p s = s\<lparr>pages := (pages s)(i := p)\<rparr>"

definition page_init_step :: "u32 \<Rightarrow> u32 \<Rightarrow> nat \<Rightarrow> kstate \<Rightarrow> kstate" where
  "page_init_step io_hole_start_page kernel_end_page i s =
     (if i = 0 then set_page i \<lparr>pp_link = None, pp_ref = 1\<rparr> s
      else if unat io_hole_start_page \<le> i \<and> i < unat kernel_end_page then
        set_page i \<lparr>pp_link = None, pp_ref = 1\<rparr> s
      else if i = unat (MPENTRY_PADDR div PGSIZE) then
        set_page i \<lparr>pp_link = None, pp_ref = 1\<rparr> s
      else (set_page i \<lparr>pp_link = page_free_list s, pp_ref = 0\<rparr> s)\<lparr>page_free_list := Some i\<rparr>)"

definition page_init :: "u32 \<Rightarrow> kstate \<Rightarrow> kstate option" where
  "page_init kend s = do {
     (a, s) \<leftarrow> boot_alloc kend 0 s;
     pa \<leftarrow> PADDR a;
     Some (fold (page_init_step (IOPHYSMEM div PGSIZE) (pa div PGSIZE)) [0..<unat (npages s)] s)}"

abbreviation (input) ALLOC_ZERO :: u32 where "ALLOC_ZERO \<equiv> 1"

definition page_alloc :: "u32 \<Rightarrow> kstate \<Rightarrow> (nat option \<times> kstate) option" where
  "page_alloc alloc_flags s =
     (case page_free_list s of
        None \<Rightarrow> Some (None, s)
      | Some res \<Rightarrow>
          let s1 = s\<lparr>page_free_list := pp_link (pages s res)\<rparr>;
              s2 = set_page res ((pages s1 res)\<lparr>pp_link := None\<rparr>) s1
          in if alloc_flags AND ALLOC_ZERO \<noteq> 0 then do {
               kva \<leftarrow> page2kva s2 res;
               Some (Some res, memset_words kva 0 PGSIZE s2)}
             else Some (Some res, s2))"

definition page_free :: "nat \<Rightarrow> kstate \<Rightarrow> kstate option" where
  "page_free pp s =
     (if pp_ref (pages s pp) \<noteq> 0 then None
      else if pp_link (pages s pp) \<noteq> None then None
      else Some ((set_page pp ((pages s pp)\<lparr>pp_link := page_free_list s\<rparr>) s)
             \<lparr>page_free_list := Some pp\<rparr>))"

definition page_decref :: "nat \<Rightarrow> kstate \<Rightarrow> kstate option" where
  "page_decref pp s =
     (let s1 = set_page pp ((pages s pp)\<lparr>pp_ref := pp_ref (pages s pp) - 1\<rparr>) s
      in if pp_ref (pages s1 pp) = 0 then page_free pp s1 else Some s1)"

section \<open>Invariant\<close>

definition free_pages :: "kstate \<Rightarrow> nat list" where
  "free_pages s = walk (\<lambda>i. pp_link (pages s i)) (unat (npages s)) (page_free_list s)"

definition pages_ok :: "kstate \<Rightarrow> bool" where
  "pages_ok s \<longleftrightarrow>
     unat (npages s) \<le> 1048576 \<and>
     chain (\<lambda>i. pp_link (pages s i)) (page_free_list s) (free_pages s) \<and>
     (\<forall>i\<in>set (free_pages s). i < unat (npages s) \<and> pp_ref (pages s i) = 0)"

definition page_idle :: "kstate \<Rightarrow> nat \<Rightarrow> bool" where
  "page_idle s i \<longleftrightarrow> i < unat (npages s) \<and> pp_ref (pages s i) = 0 \<and> pp_link (pages s i) = None"

section \<open>The allocator meets the free-list interface\<close>

lemma pages_okI:
  assumes "unat (npages s) \<le> 1048576"
    and c: "chain (\<lambda>i. pp_link (pages s i)) (page_free_list s) xs"
    and b: "\<forall>i\<in>set xs. i < unat (npages s) \<and> pp_ref (pages s i) = 0"
  shows "pages_ok s \<and> free_pages s = xs"
proof -
  from chain_distinct [OF c] b have "length xs \<le> unat (npages s)"
    by (intro distinct_below_length) auto
  with c have "free_pages s = xs" by (simp add: free_pages_def walk_chain)
  with assms show ?thesis by (simp add: pages_ok_def)
qed

lemma pages_okD:
  assumes "pages_ok s"
  shows "chain (\<lambda>i. pp_link (pages s i)) (page_free_list s) (free_pages s)"
    and "i \<in> set (free_pages s) \<Longrightarrow> i < unat (npages s)"
    and "i \<in> set (free_pages s) \<Longrightarrow> pp_ref (pages s i) = 0"
    and "unat (npages s) \<le> 1048576"
  using assms by (auto simp: pages_ok_def)

text \<open>Updates that do not touch the allocator's fields keep its invariant and its list.\<close>

lemma pages_ok_cong:
  assumes "npages s' = npages s" "pages s' = pages s" "page_free_list s' = page_free_list s"
  shows "pages_ok s' = pages_ok s" and "free_pages s' = free_pages s"
  using assms by (simp_all add: pages_ok_def free_pages_def)

lemma page_alloc_empty: "pages_ok s \<Longrightarrow> free_pages s = [] \<Longrightarrow> page_alloc flags s = Some (None, s)"
  by (auto simp: pages_ok_def page_alloc_def)

lemma page_alloc_hd:
  assumes ok: "pages_ok s" and f: "free_pages s = x # xs"
  shows "page_alloc flags s = Some (Some x,
      s\<lparr>page_free_list := pp_link (pages s x),
        pages := (pages s)(x := (pages s x)\<lparr>pp_link := None\<rparr>),
        phys := (if flags AND ALLOC_ZERO \<noteq> 0
                 then (\<lambda>a. if PTE_ADDR a = page2pa x then 0 else phys s a) else phys s)\<rparr>)"
proof -
  from ok f have hd: "page_free_list s = Some x" and x: "x < unat (npages s)"
    and n: "unat (npages s) \<le> 1048576"
    by (auto simp: pages_ok_def)
  have kva: "page2kva t x = Some (page2pa x + KERNBASE)" if "npages t = npages s" for t
    using x n that by (intro page2kva_Some) simp_all
  show ?thesis
    by (simp add: page_alloc_def hd Let_def kva memset_words_def page_range_iff set_page_def
      cong: if_cong)
qed

lemma page_alloc_takes:
  assumes ok: "pages_ok s" and f: "free_pages s = x # xs"
    and r: "page_alloc flags s = Some (r, s')"
  shows "r = Some x" and "pages_ok s'" and "free_pages s' = xs" and "page_idle s' x"
    and "x \<notin> set xs" and "x < unat (npages s)"
proof -
  note s' = r [unfolded page_alloc_hd [OF ok f], simplified]
  from pages_okD(1) [OF ok] f
  have c: "chain (\<lambda>i. pp_link (pages s i)) (pp_link (pages s x)) xs" by simp
  then show nin: "x \<notin> set xs" by (rule chain_hd_notin)
  from ok f show lt: "x < unat (npages s)" by (auto simp: pages_ok_def)
  from s' show "r = Some x" by simp
  have ok': "\<forall>i\<in>set xs. i < unat (npages s') \<and> pp_ref (pages s' i) = 0"
    using ok f s' nin by (auto simp: pages_ok_def)
  have "chain (\<lambda>i. pp_link (pages s' i)) (page_free_list s') xs"
    by (rule chain_transfer [where nx = "\<lambda>i. pp_link (pages s i)"]) (use c s' nin in auto)
  moreover have "unat (npages s') \<le> 1048576" using ok s' by (auto simp: pages_ok_def)
  ultimately have "pages_ok s' \<and> free_pages s' = xs" using ok' by (intro pages_okI) auto
  then show "pages_ok s'" "free_pages s' = xs" by auto
  show "page_idle s' x" using ok f s' lt by (auto simp: page_idle_def pages_ok_def)
qed

lemma page_free_push:
  assumes ok: "pages_ok s" and i: "page_idle s x" and nin: "x \<notin> set (free_pages s)"
  shows "\<exists>s'. page_free x s = Some s' \<and> pages_ok s' \<and> free_pages s' = x # free_pages s"
proof -
  define s' where "s' = (set_page x ((pages s x)\<lparr>pp_link := page_free_list s\<rparr>) s)
             \<lparr>page_free_list := Some x\<rparr>"
  from i have "page_free x s = Some s'" by (simp add: page_free_def page_idle_def s'_def)
  moreover have "pages_ok s' \<and> free_pages s' = x # free_pages s"
  proof (rule pages_okI)
    have "chain (\<lambda>i. pp_link (pages s' i)) (page_free_list s) (free_pages s)"
      by (rule chain_transfer [OF pages_okD(1) [OF ok]]) (use nin in \<open>auto simp: s'_def set_page_def\<close>)
    then show "chain (\<lambda>i. pp_link (pages s' i)) (page_free_list s') (x # free_pages s)"
      by (simp add: s'_def set_page_def)
  qed (use ok i in \<open>auto simp: s'_def set_page_def pages_ok_def page_idle_def\<close>)
  ultimately show ?thesis by blast
qed

interpretation page_store: free_store pages_ok free_pages "page_alloc flags" page_free page_idle
  for flags :: u32
proof
  fix s x xs
  assume ok: "pages_ok s"
  show "distinct (free_pages s)" using pages_okD(1) [OF ok] by (rule chain_distinct)
  show "page_alloc flags s = Some (None, s)" if "free_pages s = []"
    using ok that by (rule page_alloc_empty)
  show "\<exists>s'. page_alloc flags s = Some (Some x, s') \<and> pages_ok s' \<and> free_pages s' = xs \<and> page_idle s' x"
    if f: "free_pages s = x # xs"
    using page_alloc_takes [OF ok f page_alloc_hd [OF ok f]] page_alloc_hd [OF ok f, of flags]
    by blast
  show "\<exists>s'. page_free x s = Some s' \<and> pages_ok s' \<and> free_pages s' = x # free_pages s"
    if "page_idle s x" "x \<notin> set (free_pages s)"
    using ok that by (rule page_free_push)
qed


section \<open>Frame conditions\<close>

lemma set_page_fields [frame_simps]:
  "npages (set_page i p s) = npages s" "npages_basemem (set_page i p s) = npages_basemem s"
  "phys (set_page i p s) = phys s" "page_free_list (set_page i p s) = page_free_list s"
  "envs (set_page i p s) = envs s" "kern_pgdir (set_page i p s) = kern_pgdir s"
  "cpus (set_page i p s) = cpus s" "cpunum_reg (set_page i p s) = cpunum_reg s"
  "nextfree (set_page i p s) = nextfree s" "invlpg_log (set_page i p s) = invlpg_log s"
  "pages (set_page i p s) = (pages s)(i := p)"
  by (simp_all add: set_page_def)

lemma curenv_set_page [frame_simps]: "curenv (set_page i p s) = curenv s"
  by (simp add: curenv_def set_page_def)

text \<open>A descriptor that is not on the free list may be rewritten at will.\<close>

lemma set_page_pages_ok:
  assumes ok: "pages_ok s" and nin: "i \<notin> set (free_pages s)"
  shows "pages_ok (set_page i p s)" and "free_pages (set_page i p s) = free_pages s"
proof -
  have "chain (\<lambda>j. pp_link (pages (set_page i p s) j)) (page_free_list (set_page i p s)) (free_pages s)"
    by (rule chain_transfer [where nx = "\<lambda>j. pp_link (pages s j)"])
      (use pages_okD(1) [OF ok] nin in \<open>auto simp: set_page_def\<close>)
  then have "pages_ok (set_page i p s) \<and> free_pages (set_page i p s) = free_pages s"
    by (rule pages_okI [rotated]) (use ok nin in \<open>auto simp: set_page_def pages_ok_def\<close>)
  then show "pages_ok (set_page i p s)" "free_pages (set_page i p s) = free_pages s" by auto
qed

text \<open>What each operation may change, as an equation between the states.\<close>

lemma page_free_state:
  assumes "page_free pp s = Some s'"
  shows "\<exists>ps fl. s' = s\<lparr>pages := ps, page_free_list := fl\<rparr> \<and> (\<forall>i. pp_ref (ps i) = pp_ref (pages s i))"
  using assms by (auto simp: page_free_def set_page_def split: if_splits)

lemma page_decref_state:
  assumes "page_decref pp s = Some s'"
  shows "\<exists>ps fl. s' = s\<lparr>pages := ps, page_free_list := fl\<rparr> \<and>
    (\<forall>i. pp_ref (ps i) = (if i = pp then pp_ref (pages s i) - 1 else pp_ref (pages s i)))"
proof (intro exI conjI)
  show "s' = s\<lparr>pages := pages s', page_free_list := page_free_list s'\<rparr>"
    using assms by (auto simp: page_decref_def page_free_def set_page_def Let_def split: if_splits)
  show "\<forall>i. pp_ref (pages s' i) = (if i = pp then pp_ref (pages s i) - 1 else pp_ref (pages s i))"
    using assms by (auto simp: page_decref_def page_free_def set_page_def Let_def split: if_splits)
qed

lemma page_alloc_state:
  assumes "page_alloc flags s = Some (r, s')"
  shows "\<exists>ps fl m. s' = s\<lparr>pages := ps, page_free_list := fl, phys := m\<rparr> \<and>
    (\<forall>i. pp_ref (ps i) = pp_ref (pages s i))"
proof (intro exI conjI)
  show "s' = s\<lparr>pages := pages s', page_free_list := page_free_list s', phys := phys s'\<rparr>"
    using assms
    by (auto simp: page_alloc_def set_page_def memset_words_def Let_def bind_eq_Some_conv
        split: if_splits option.splits)
  show "\<forall>i. pp_ref (pages s' i) = pp_ref (pages s i)"
    using assms
    by (auto simp: page_alloc_def set_page_def memset_words_def Let_def bind_eq_Some_conv
        split: if_splits option.splits)
qed

section \<open>Dropping a reference\<close>

lemma page_decref_keeps:
  assumes ok: "pages_ok s" and nin: "pp \<notin> set (free_pages s)" and "pp_ref (pages s pp) \<noteq> 1"
  shows "page_decref pp s = Some (set_page pp ((pages s pp)\<lparr>pp_ref := pp_ref (pages s pp) - 1\<rparr>) s)"
  using assms by (simp add: page_decref_def Let_def set_page_def)

lemma page_decref_last:
  assumes ok: "pages_ok s" and lt: "pp < unat (npages s)" and nin: "pp \<notin> set (free_pages s)"
    and one: "pp_ref (pages s pp) = 1" and lk: "pp_link (pages s pp) = None"
  shows "\<exists>s'. page_decref pp s = Some s' \<and> pages_ok s' \<and> free_pages s' = pp # free_pages s"
proof -
  let ?p = "(pages s pp)\<lparr>pp_ref := pp_ref (pages s pp) - 1\<rparr>"
  have "pages_ok (set_page pp ?p s)" "free_pages (set_page pp ?p s) = free_pages s"
    using set_page_pages_ok [OF ok nin] by blast+
  moreover have "page_idle (set_page pp ?p s) pp"
    using lt one lk by (simp add: page_idle_def set_page_def)
  ultimately have "\<exists>s'. page_free pp (set_page pp ?p s) = Some s' \<and> pages_ok s' \<and>
      free_pages s' = pp # free_pages s"
    using nin page_free_push by metis
  with one show ?thesis by (simp add: page_decref_def Let_def set_page_def)
qed

lemma page_decref_ok:
  assumes ok: "pages_ok s" and lt: "pp < unat (npages s)" and nin: "pp \<notin> set (free_pages s)"
    and lk: "pp_link (pages s pp) = None"
  obtains s' where "page_decref pp s = Some s'" "pages_ok s'"
    "set (free_pages s') \<subseteq> insert pp (set (free_pages s))" "set (free_pages s) \<subseteq> set (free_pages s')"
proof (cases "pp_ref (pages s pp) = 1")
  case True
  from page_decref_last [OF ok lt nin True lk] obtain s' where
    "page_decref pp s = Some s'" "pages_ok s'" "free_pages s' = pp # free_pages s" by blast
  then show ?thesis by (intro that [of s']) auto
next
  case False
  from page_decref_keeps [OF ok nin False] set_page_pages_ok [OF ok nin] that show ?thesis
    by (metis order_refl subset_insertI)
qed

text \<open>Only the link of a page that ends up on the free list can have changed.\<close>

lemma page_decref_links:
  assumes d: "page_decref pp s = Some s'" and ok': "pages_ok s'" and i: "i \<notin> set (free_pages s')"
  shows "pp_link (pages s' i) = pp_link (pages s i)"
proof (cases "page_free_list s' = Some pp")
  case True
  with pages_okD(1) [OF ok'] have "pp \<in> set (free_pages s')" by (auto simp: chain_Some)
  with i have "i \<noteq> pp" by auto
  with d show ?thesis by (auto simp: page_decref_def page_free_def set_page_def Let_def split: if_splits)
next
  case False
  with d show ?thesis by (auto simp: page_decref_def page_free_def set_page_def Let_def split: if_splits)
qed

section \<open>Building the free list\<close>

definition page_usable :: "nat \<Rightarrow> nat \<Rightarrow> bool" where
  "page_usable kend_page i \<longleftrightarrow> i \<noteq> 0 \<and> \<not> (160 \<le> i \<and> i < kend_page) \<and> i \<noteq> 7"

lemma page_init_step_eq:
  "page_init_step 160 kp i s =
     (if page_usable (unat kp) i
      then (set_page i \<lparr>pp_link = page_free_list s, pp_ref = 0\<rparr> s)\<lparr>page_free_list := Some i\<rparr>
      else set_page i \<lparr>pp_link = None, pp_ref = 1\<rparr> s)"
  by (simp add: page_init_step_def page_usable_def)

lemma page_init_fold:
  fixes k :: nat and kp :: u32
  assumes "page_free_list s = None"
  defines "s' \<equiv> fold (page_init_step 160 kp) [0..<k] s"
    and "xs \<equiv> rev (filter (page_usable (unat kp)) [0..<k])"
  shows "chain (\<lambda>i. pp_link (pages s' i)) (page_free_list s') xs \<and> npages s' = npages s \<and>
    phys s' = phys s \<and>
    (\<forall>i<k. pp_ref (pages s' i) = (if page_usable (unat kp) i then 0 else 1) \<and>
           (page_usable (unat kp) i \<or> pp_link (pages s' i) = None))"
  unfolding s'_def xs_def
proof (induction k)
  case 0
  show ?case using assms(1) by simp
next
  case (Suc k)
  define t where "t = fold (page_init_step 160 kp) [0..<k] s"
  define ys where "ys = rev (filter (page_usable (unat kp)) [0..<k])"
  have k: "k \<notin> set ys" by (simp add: ys_def)
  note IH = Suc.IH [folded t_def ys_def]
  have c: "chain (\<lambda>i. pp_link (pages (set_page k p t) i)) (page_free_list t) ys" for p
    by (rule chain_transfer [where nx = "\<lambda>i. pp_link (pages t i)"])
      (use IH k in \<open>auto simp: set_page_def\<close>)
  have up: "fold (page_init_step 160 kp) [0..<Suc k] s
      = page_init_step 160 kp k t" by (simp add: t_def)
  show ?case
  proof (cases "page_usable (unat kp) k")
    case True
    with IH c [of "\<lparr>pp_link = page_free_list t, pp_ref = 0\<rparr>"] k show ?thesis
      unfolding up
      by (simp add: page_init_step_eq [of kp k t] set_page_def less_Suc_eq flip: ys_def)
  next
    case False
    with IH c [of "\<lparr>pp_link = None, pp_ref = 1\<rparr>"] k show ?thesis
      unfolding up
      by (simp add: page_init_step_eq [of kp k t] set_page_def less_Suc_eq flip: ys_def)
  qed
qed

lemma page_init_result:
  assumes "page_free_list s = None" and "unat (npages s) \<le> 1048576"
    and ba: "boot_alloc kend 0 s = Some (a, s1)" and "PADDR a = Some pa"
  shows "\<exists>s'. page_init kend s = Some s' \<and> pages_ok s' \<and>
    free_pages s' = rev (filter (page_usable (unat (pa div PGSIZE))) [0..<unat (npages s)]) \<and>
    (\<forall>i < unat (npages s). pp_ref (pages s' i) = (if i \<in> set (free_pages s') then 0 else 1))"
proof -
  have f: "page_free_list s1 = None" "npages s1 = npages s"
    using ba assms(1) by (auto simp: boot_alloc_def Let_def split: if_splits)
  define s' where "s' = fold (page_init_step 160 (pa div PGSIZE)) [0..<unat (npages s1)] s1"
  note fold = page_init_fold [OF f(1), of "pa div PGSIZE" "unat (npages s1)", folded s'_def]
  have "pages_ok s' \<and> free_pages s' = rev (filter (page_usable (unat (pa div PGSIZE))) [0..<unat (npages s)])"
    using fold f(2) assms(2) by (intro pages_okI) (auto)
  moreover have "page_init kend s = Some s'"
    using ba assms(4) by (simp add: page_init_def s'_def)
  ultimately show ?thesis using fold f(2) by auto
qed

end
