(* ===== verification/Pgdir.thy ===== *)
theory Pgdir
  imports Pages
begin

text \<open>
  The two-level page tables of \<^verbatim>\<open>kern/pmap.c\<close>: walking, mapping, unmapping and looking up
  pages, static mappings, the MMIO window and the check of user pointers. Page tables live
  in physical memory, so every entry is read and written through a 32-bit kernel address,
  as in the code. The abstract view of an address space is \<open>pte_of\<close>, the entry that the
  two-level walk finds for an address (zero where no page table exists).
\<close>

section \<open>Operations\<close>

definition pgdir_walk :: "u32 \<Rightarrow> u32 \<Rightarrow> bool \<Rightarrow> kstate \<Rightarrow> (u32 option \<times> kstate) option" where
  "pgdir_walk pgdir va create s =
     (let dic_entry_ptr = pgdir + 4 * PDX va;
          entry = (\<lambda>s. do {
            page_base \<leftarrow> KADDR s (PTE_ADDR (ld s dic_entry_ptr));
            Some (Some (page_base + 4 * PTX va), s)})
      in if ld s dic_entry_ptr AND PTE_P = 0 then
           (if create then do {
              (new_page, s) \<leftarrow> page_alloc 1 s;
              (case new_page of
                 None \<Rightarrow> Some (None, s)
               | Some np \<Rightarrow>
                   entry (st dic_entry_ptr (page2pa np OR PTE_P OR PTE_W OR PTE_U)
                     (set_page np ((pages s np)\<lparr>pp_ref := pp_ref (pages s np) + 1\<rparr>) s)))}
            else Some (None, s))
         else entry s)"

partial_function (option) boot_map_loop ::
  "u32 \<Rightarrow> u32 \<Rightarrow> u32 \<Rightarrow> u32 \<Rightarrow> u32 \<Rightarrow> u32 \<Rightarrow> kstate \<Rightarrow> kstate option" where
  "boot_map_loop pgdir va sz pa perm i s =
     (if i < sz then do {
        r \<leftarrow> pgdir_walk pgdir va True s;
        (case fst r of
           None \<Rightarrow> None
         | Some entry \<Rightarrow>
             boot_map_loop pgdir (va + PGSIZE) sz (pa + PGSIZE) perm (i + PGSIZE)
               (st entry (pa OR perm OR PTE_P) (snd r)))}
      else Some s)"

definition boot_map_region :: "u32 \<Rightarrow> u32 \<Rightarrow> u32 \<Rightarrow> u32 \<Rightarrow> u32 \<Rightarrow> kstate \<Rightarrow> kstate option" where
  "boot_map_region pgdir va sz pa perm s = boot_map_loop pgdir va sz pa perm 0 s"

definition tlb_invalidate :: "u32 \<Rightarrow> u32 \<Rightarrow> kstate \<Rightarrow> kstate" where
  "tlb_invalidate pgdir va s =
     (case curenv s of
        None \<Rightarrow> s\<lparr>invlpg_log := va # invlpg_log s\<rparr>
      | Some e \<Rightarrow> if env_pgdir (envs s e) = pgdir
                  then s\<lparr>invlpg_log := va # invlpg_log s\<rparr> else s)"

text \<open>On success the pair of the page and the address of its entry (\<^verbatim>\<open>*pte_store\<close>).\<close>

definition page_lookup :: "u32 \<Rightarrow> u32 \<Rightarrow> kstate \<Rightarrow> (nat \<times> u32) option option" where
  "page_lookup pgdir va s = do {
     (entry, _) \<leftarrow> pgdir_walk pgdir va False s;
     (case entry of
        None \<Rightarrow> Some None
      | Some entry \<Rightarrow>
          if ld s entry AND PTE_P = 0 then Some None
          else do {
            res \<leftarrow> pa2page s (PTE_ADDR (ld s entry));
            Some (Some (res, entry))})}"

definition page_remove :: "u32 \<Rightarrow> u32 \<Rightarrow> kstate \<Rightarrow> kstate option" where
  "page_remove pgdir va s = do {
     r \<leftarrow> page_lookup pgdir va s;
     (case r of
        None \<Rightarrow> Some s
      | Some (page, pte) \<Rightarrow> do {
          s \<leftarrow> page_decref page s;
          Some (st pte 0 (tlb_invalidate pgdir va s))})}"

definition page_insert :: "u32 \<Rightarrow> nat \<Rightarrow> u32 \<Rightarrow> u32 \<Rightarrow> kstate \<Rightarrow> (u32 \<times> kstate) option" where
  "page_insert pgdir pp va perm s = do {
     (entry, s) \<leftarrow> pgdir_walk pgdir va True s;
     (case entry of
        None \<Rightarrow> Some (- E_NO_MEM, s)
      | Some entry \<Rightarrow> do {
          let s = set_page pp ((pages s pp)\<lparr>pp_ref := pp_ref (pages s pp) + 1\<rparr>) s;
          s \<leftarrow> (if ld s entry AND PTE_P \<noteq> 0
               then page_remove pgdir va (tlb_invalidate pgdir va s) else Some s);
          Some (0, st entry (page2pa pp OR perm OR PTE_P) s)})}"

definition mmio_map_region :: "u32 \<Rightarrow> u32 \<Rightarrow> kstate \<Rightarrow> (u32 \<times> kstate) option" where
  "mmio_map_region pa0 sz0 s =
     (let pa = ROUNDDOWN pa0 PGSIZE;
          sz = ROUNDUP (pa0 + sz0) PGSIZE - pa
      in if mmio_base s + sz \<ge> MMIOLIM then None
         else do {
           s \<leftarrow> boot_map_region (kern_pgdir s) (mmio_base s) sz pa (PTE_PCD OR PTE_PWT OR PTE_W) s;
           let s = s\<lparr>mmio_base := mmio_base s + sz\<rparr>;
           Some (mmio_base s - sz, s)})"

partial_function (option) user_mem_check_loop ::
  "u32 \<Rightarrow> u32 \<Rightarrow> u32 \<Rightarrow> u32 \<Rightarrow> u32 \<Rightarrow> kstate \<Rightarrow> (u32 \<times> kstate) option" where
  "user_mem_check_loop pgdir va stop perm start s =
     (if start < stop then do {
        r \<leftarrow> pgdir_walk pgdir start False s;
        (if (case fst r of None \<Rightarrow> True
             | Some cur \<Rightarrow> start \<ge> ULIM \<or> ld s cur AND perm \<noteq> perm)
         then Some (- E_FAULT,
           s\<lparr>user_mem_check_addr := (if start = ROUNDDOWN va PGSIZE then va else start)\<rparr>)
         else user_mem_check_loop pgdir va stop perm (start + PGSIZE) s)}
      else Some (0, s))"

definition user_mem_check :: "nat \<Rightarrow> u32 \<Rightarrow> u32 \<Rightarrow> u32 \<Rightarrow> kstate \<Rightarrow> (u32 \<times> kstate) option" where
  "user_mem_check env va len perm s =
     user_mem_check_loop (env_pgdir (envs s env)) va (ROUNDUP (va + len) PGSIZE) perm
       (ROUNDDOWN va PGSIZE) s"

definition check_va2pa :: "u32 \<Rightarrow> u32 \<Rightarrow> kstate \<Rightarrow> u32 option" where
  "check_va2pa pgdir va s =
     (let pde = ld s (pgdir + 4 * PDX va) in
      if pde AND PTE_P = 0 then Some (NOT 0)
      else do {
        p \<leftarrow> KADDR s (PTE_ADDR pde);
        (if ld s (p + 4 * PTX va) AND PTE_P = 0 then Some (NOT 0)
         else Some (PTE_ADDR (ld s (p + 4 * PTX va))))})"

section \<open>The abstract address space\<close>

definition pde_of :: "kstate \<Rightarrow> u32 \<Rightarrow> u32 \<Rightarrow> u32" where
  "pde_of s pgdir i = phys s (pgdir - KERNBASE + 4 * i)"

definition pte_of :: "kstate \<Rightarrow> u32 \<Rightarrow> u32 \<Rightarrow> u32" where
  "pte_of s pgdir va =
     (let pde = pde_of s pgdir (PDX va)
      in if pde AND PTE_P = 0 then 0 else phys s (PTE_ADDR pde + 4 * PTX va))"

text \<open>Directory slots other than the self-map at \<^verbatim>\<open>UVPT\<close>.\<close>

definition tree_slot :: "u32 \<Rightarrow> bool" where
  "tree_slot i \<longleftrightarrow> i < 1024 \<and> i \<noteq> PDX UVPT"

definition has_pt :: "kstate \<Rightarrow> u32 \<Rightarrow> u32 \<Rightarrow> bool" where
  "has_pt s pgdir i \<longleftrightarrow> tree_slot i \<and> pde_of s pgdir i AND PTE_P \<noteq> 0"

text \<open>
  A page that may hold page tables or data: in range and off the free list. A directory is
  well formed when it and its page tables are such pages, all different.
\<close>

definition frame_ok :: "kstate \<Rightarrow> u32 \<Rightarrow> bool" where
  "frame_ok s a \<longleftrightarrow> PGNUM a < npages s \<and> unat (PGNUM a) \<notin> set (free_pages s)"

definition pgdir_ok :: "kstate \<Rightarrow> u32 \<Rightarrow> bool" where
  "pgdir_ok s pgdir \<longleftrightarrow>
     PGOFF pgdir = 0 \<and> frame_ok s (pgdir - KERNBASE) \<and>
     (\<forall>i. has_pt s pgdir i \<longrightarrow>
        frame_ok s (pde_of s pgdir i) \<and> PTE_ADDR (pde_of s pgdir i) \<noteq> pgdir - KERNBASE \<and>
        (\<forall>j. has_pt s pgdir j \<longrightarrow> PTE_ADDR (pde_of s pgdir i) = PTE_ADDR (pde_of s pgdir j) \<longrightarrow> i = j))"

text \<open>A page that is neither the directory nor one of its page tables.\<close>

definition data_page :: "kstate \<Rightarrow> u32 \<Rightarrow> nat \<Rightarrow> bool" where
  "data_page s pgdir pp \<longleftrightarrow>
     pp < unat (npages s) \<and> pp \<notin> set (free_pages s) \<and> pp_link (pages s pp) = None \<and>
     page2pa pp \<noteq> pgdir - KERNBASE \<and>
     (\<forall>i. has_pt s pgdir i \<longrightarrow> PTE_ADDR (pde_of s pgdir i) \<noteq> page2pa pp)"


definition pte_ptr :: "kstate \<Rightarrow> u32 \<Rightarrow> u32 \<Rightarrow> u32" where
  "pte_ptr s pgdir va = PTE_ADDR (pde_of s pgdir (PDX va)) + KERNBASE + 4 * PTX va"

text \<open>The operations of this theory change no other field than these four.\<close>

definition vm_frame :: "kstate \<Rightarrow> kstate \<Rightarrow> bool" where
  "vm_frame s s' \<longleftrightarrow>
     s' = s\<lparr>pages := pages s', page_free_list := page_free_list s', phys := phys s',
            invlpg_log := invlpg_log s'\<rparr>"

section \<open>What may change\<close>

lemma vm_frame_fields:
  assumes "vm_frame s s'"
  shows "npages s' = npages s" "npages_basemem s' = npages_basemem s" "kern_pgdir s' = kern_pgdir s"
    "envs s' = envs s" "env_free_list s' = env_free_list s" "cpus s' = cpus s"
    "cpunum_reg s' = cpunum_reg s" "cr3 s' = cr3 s" "kernel_lock s' = kernel_lock s"
    "curenv s' = curenv s" "mmio_base s' = mmio_base s" "nextfree s' = nextfree s"
    "cons s' = cons s" "user_mem_check_addr s' = user_mem_check_addr s"
proof -
  from assms obtain ps fl m l where
    s': "s' = s\<lparr>pages := ps, page_free_list := fl, phys := m, invlpg_log := l\<rparr>"
    unfolding vm_frame_def by blast
  show "npages s' = npages s" "npages_basemem s' = npages_basemem s" "kern_pgdir s' = kern_pgdir s"
    "envs s' = envs s" "env_free_list s' = env_free_list s" "cpus s' = cpus s"
    "cpunum_reg s' = cpunum_reg s" "cr3 s' = cr3 s" "kernel_lock s' = kernel_lock s"
    "curenv s' = curenv s" "mmio_base s' = mmio_base s" "nextfree s' = nextfree s"
    "cons s' = cons s" "user_mem_check_addr s' = user_mem_check_addr s"
    by (simp_all add: s' curenv_def)
qed

lemma vm_frame_iff:
  "vm_frame s s' \<longleftrightarrow> (\<exists>ps fl m l. s' = s\<lparr>pages := ps, page_free_list := fl, phys := m, invlpg_log := l\<rparr>)"
  unfolding vm_frame_def by auto

lemma vm_frame_refl [intro, simp]: "vm_frame s s"
  by (simp add: vm_frame_def)

lemma vm_frame_trans [trans]:
  assumes "vm_frame s s'" and "vm_frame s' s''"
  shows "vm_frame s s''"
proof -
  from assms(1) obtain ps fl m l where
    s': "s' = s\<lparr>pages := ps, page_free_list := fl, phys := m, invlpg_log := l\<rparr>"
    unfolding vm_frame_iff by blast
  from assms(2) obtain ps' fl' m' l' where
    "s'' = s'\<lparr>pages := ps', page_free_list := fl', phys := m', invlpg_log := l'\<rparr>"
    unfolding vm_frame_iff by blast
  then have "s'' = s\<lparr>pages := ps', page_free_list := fl', phys := m', invlpg_log := l'\<rparr>"
    by (simp add: s')
  then show ?thesis unfolding vm_frame_iff by blast
qed

lemma vm_frame_st [intro, simp]: "vm_frame s (st a v s)"
  by (simp add: vm_frame_def st_def)

lemma vm_frame_set_page [intro, simp]: "vm_frame s (set_page i p s)"
  by (simp add: vm_frame_def set_page_def)

lemma vm_frame_tlb [intro, simp]: "vm_frame s (tlb_invalidate pgdir va s)"
  by (simp add: vm_frame_def tlb_invalidate_def split: option.split)

lemma vm_frame_decref: "page_decref pp s = Some s' \<Longrightarrow> vm_frame s s'"
  by (drule page_decref_state) (auto simp: vm_frame_def)

lemma vm_frame_alloc: "page_alloc flags s = Some (r, s') \<Longrightarrow> vm_frame s s'"
  by (drule page_alloc_state) (auto simp: vm_frame_def)

lemma vm_frame_free: "page_free pp s = Some s' \<Longrightarrow> vm_frame s s'"
  by (drule page_free_state) (auto simp: vm_frame_def)

section \<open>Reading entries\<close>

lemma ld_pde: "ld s (pgdir + 4 * i) = pde_of s pgdir i"
  by (simp add: ld_def pde_of_def diff_add_eq)

lemma pte_ptr_phys: "pte_ptr s pgdir va - KERNBASE = PTE_ADDR (pde_of s pgdir (PDX va)) + 4 * PTX va"
  by (simp add: pte_ptr_def)

lemma ld_pte: "has_pt s pgdir (PDX va) \<Longrightarrow> ld s (pte_ptr s pgdir va) = pte_of s pgdir va"
  by (simp add: ld_def pte_ptr_phys pte_of_def has_pt_def)

lemma pte_of_no_pt: "tree_slot (PDX va) \<Longrightarrow> \<not> has_pt s pgdir (PDX va) \<Longrightarrow> pte_of s pgdir va = 0"
  by (simp add: pte_of_def has_pt_def)

lemma has_pt_slot [simp]: "has_pt s pgdir i \<Longrightarrow> tree_slot i" "has_pt s pgdir i \<Longrightarrow> i < 1024"
  by (simp_all add: has_pt_def tree_slot_def)

lemma pgdir_okD:
  assumes "pgdir_ok s pgdir"
  shows "PGOFF pgdir = 0" and "frame_ok s (pgdir - KERNBASE)"
    and "has_pt s pgdir i \<Longrightarrow> frame_ok s (pde_of s pgdir i)"
    and "has_pt s pgdir i \<Longrightarrow> PTE_ADDR (pde_of s pgdir i) \<noteq> pgdir - KERNBASE"
    and "has_pt s pgdir i \<Longrightarrow> has_pt s pgdir j \<Longrightarrow>
      PTE_ADDR (pde_of s pgdir i) = PTE_ADDR (pde_of s pgdir j) \<longleftrightarrow> i = j"
  using assms unfolding pgdir_ok_def by blast+

lemma pgdir_walk_present:
  assumes "pgdir_ok s pgdir" and "has_pt s pgdir (PDX va)"
  shows "pgdir_walk pgdir va create s = Some (Some (pte_ptr s pgdir va), s)"
proof -
  from pgdir_okD(3) [OF assms] have "KADDR s (PTE_ADDR (pde_of s pgdir (PDX va)))
      = Some (PTE_ADDR (pde_of s pgdir (PDX va)) + KERNBASE)"
    by (simp add: KADDR_Some_iff frame_ok_def)
  with assms(2) show ?thesis
    by (simp add: pgdir_walk_def ld_pde has_pt_def pte_ptr_def)
qed

lemma pgdir_walk_absent:
  "tree_slot (PDX va) \<Longrightarrow> \<not> has_pt s pgdir (PDX va) \<Longrightarrow> pgdir_walk pgdir va False s = Some (None, s)"
  by (simp add: pgdir_walk_def ld_pde has_pt_def)

text \<open>What a well-formed directory depends on.\<close>

lemma pgdir_view_cong:
  assumes "\<And>i. i < 1024 \<Longrightarrow> phys s' (pgdir - KERNBASE + 4 * i) = phys s (pgdir - KERNBASE + 4 * i)"
  shows "i < 1024 \<Longrightarrow> pde_of s' pgdir i = pde_of s pgdir i" and "has_pt s' pgdir i = has_pt s pgdir i"
  using assms by (auto simp: pde_of_def has_pt_def tree_slot_def)

lemma pgdir_ok_transfer:
  assumes ok: "pgdir_ok s pgdir"
    and p: "\<And>i. i < 1024 \<Longrightarrow> phys s' (pgdir - KERNBASE + 4 * i) = phys s (pgdir - KERNBASE + 4 * i)"
    and n: "npages s' = npages s"
    and f: "\<And>a. frame_ok s a \<Longrightarrow> PTE_ADDR a = pgdir - KERNBASE \<or>
        (\<exists>i. has_pt s pgdir i \<and> PTE_ADDR a = PTE_ADDR (pde_of s pgdir i)) \<Longrightarrow> frame_ok s' a"
  shows "pgdir_ok s' pgdir"
proof -
  note v = pgdir_view_cong [OF p]
  have al: "PTE_ADDR (pgdir - KERNBASE) = pgdir - KERNBASE"
    using pgdir_okD(1) [OF ok] by simp
  have "frame_ok s' (pgdir - KERNBASE)" using f [OF pgdir_okD(2) [OF ok]] al by blast
  moreover have "frame_ok s' (pde_of s pgdir i)" if "has_pt s pgdir i" for i
    using f [OF pgdir_okD(3) [OF ok that]] that by blast
  ultimately show ?thesis
    using ok v by (auto simp: pgdir_ok_def)
qed

section \<open>Writing an entry\<close>

lemma pte_ptr_not_pde:
  assumes "pgdir_ok s pgdir" and "has_pt s pgdir (PDX va)" and "i < 1024"
  shows "pgdir - KERNBASE + 4 * i \<noteq> pte_ptr s pgdir va - KERNBASE"
  unfolding pte_ptr_phys
  using assms pgdir_okD(4) [OF assms(1,2)] pgdir_okD(1) [OF assms(1)] by simp

lemma st_pte_pde:
  assumes "pgdir_ok s pgdir" and "has_pt s pgdir (PDX va)" and "i < 1024"
  shows "phys (st (pte_ptr s pgdir va) v s) (pgdir - KERNBASE + 4 * i) = phys s (pgdir - KERNBASE + 4 * i)"
  using pte_ptr_not_pde [OF assms] by (simp add: phys_st)

lemma free_pages_st [frame_simps]:
  "free_pages (st a v s) = free_pages s" "pages_ok (st a v s) = pages_ok s"
  "npages (st a v s) = npages s" "frame_ok (st a v s) b = frame_ok s b" "pages (st a v s) = pages s"
  by (simp_all add: free_pages_def pages_ok_def frame_ok_def st_def)

lemma st_pte:
  fixes v :: u32
  assumes ok: "pgdir_ok s pgdir" and pt: "has_pt s pgdir (PDX va)"
  defines "s' \<equiv> st (pte_ptr s pgdir va) v s"
  shows "pgdir_ok s' pgdir" and "has_pt s' pgdir i = has_pt s pgdir i"
    and "i < 1024 \<Longrightarrow> pde_of s' pgdir i = pde_of s pgdir i"
    and "tree_slot (PDX va') \<Longrightarrow>
      pte_of s' pgdir va' = (if PTE_ADDR va' = PTE_ADDR va then v else pte_of s pgdir va')"
proof -
  note p = st_pte_pde [OF ok pt, of _ v, folded s'_def]
  note view = pgdir_view_cong [OF p]
  show "has_pt s' pgdir i = has_pt s pgdir i" by (rule view(2)) simp_all
  show pde: "i < 1024 \<Longrightarrow> pde_of s' pgdir i = pde_of s pgdir i" for i by (rule view(1)) simp_all
  show "pgdir_ok s' pgdir"
    by (rule pgdir_ok_transfer [OF ok p]) (simp_all add: s'_def frame_simps)
  show "pte_of s' pgdir va' = (if PTE_ADDR va' = PTE_ADDR va then v else pte_of s pgdir va')"
    if t: "tree_slot (PDX va')"
  proof (cases "has_pt s pgdir (PDX va')")
    case False
    with pt have "PDX va' \<noteq> PDX va" by auto
    with False t show ?thesis
      by (simp add: same_page_iff pte_of_def pde has_pt_def)
  next
    case True
    from True have "pte_of s' pgdir va' = phys s' (PTE_ADDR (pde_of s pgdir (PDX va')) + 4 * PTX va')"
      by (simp add: pte_of_def pde has_pt_def)
    also have "\<dots> = (if PTE_ADDR va' = PTE_ADDR va then v
        else phys s (PTE_ADDR (pde_of s pgdir (PDX va')) + 4 * PTX va'))"
      using pgdir_okD(5) [OF ok True pt]
      by (simp add: s'_def phys_st pte_ptr_phys same_page_iff)
    also have "phys s (PTE_ADDR (pde_of s pgdir (PDX va')) + 4 * PTX va') = pte_of s pgdir va'"
      using True by (simp add: pte_of_def has_pt_def)
    finally show ?thesis .
  qed
qed


section \<open>Creating a page table\<close>

abbreviation (input) new_pde :: "nat \<Rightarrow> u32" where
  "new_pde n \<equiv> page2pa n OR 7"

lemma new_pde_bits: "PTE_ADDR (new_pde n) = page2pa n" "new_pde n AND PTE_P \<noteq> 0"
proof -
  show "PTE_ADDR (new_pde n) = page2pa n" by (rule PTE_ADDR_entry) simp_all
  have "7 AND PTE_P = PTE_P" by simp
  then have "new_pde n AND PTE_P = page2pa n AND PTE_P OR PTE_P" by (simp add: bit.conj_disj_distrib2)
  also have "\<dots> = PTE_P" by (rule bit_word_eqI) (auto simp: bit_simps)
  finally have "new_pde n AND PTE_P = PTE_P" .
  then show "new_pde n AND PTE_P \<noteq> 0" by simp
qed

lemma new_pde_flags: "new_pde n AND 7 = 7"
  by (rule bit_word_eqI) (auto simp: bit_simps)

definition pt_created :: "u32 \<Rightarrow> u32 \<Rightarrow> nat \<Rightarrow> kstate \<Rightarrow> kstate" where
  "pt_created pgdir va n s =
     s\<lparr>page_free_list := pp_link (pages s n),
       pages := (pages s)(n := (pages s n)\<lparr>pp_link := None, pp_ref := 1\<rparr>),
       phys := (\<lambda>a. if PTE_ADDR a = page2pa n then 0 else phys s a)
                 (pgdir - KERNBASE + 4 * PDX va := new_pde n)\<rparr>"

lemma pgdir_walk_no_memory:
  assumes "pages_ok s" and "tree_slot (PDX va)" and "\<not> has_pt s pgdir (PDX va)" and "free_pages s = []"
  shows "pgdir_walk pgdir va True s = Some (None, s)"
  using assms by (simp add: pgdir_walk_def ld_pde has_pt_def page_alloc_empty)

lemma frame_ok_page2pa:
  "n < unat (npages s) \<Longrightarrow> unat (npages s) \<le> 1048576 \<Longrightarrow>
   frame_ok s (page2pa n) \<longleftrightarrow> n \<notin> set (free_pages s)"
  by (simp add: frame_ok_def PGNUM_page2pa word_less_nat_alt unat_of_nat)

lemma frame_ok_PTE_ADDR [simp]: "frame_ok s (PTE_ADDR a) = frame_ok s a"
  by (simp add: frame_ok_def)

lemma frame_not_free:
  assumes "pages_ok s" and "frame_ok s a" and "n \<in> set (free_pages s)"
  shows "PTE_ADDR a \<noteq> page2pa n"
proof
  assume "PTE_ADDR a = page2pa n"
  then have "frame_ok s (page2pa n)" using assms(2) by (metis frame_ok_PTE_ADDR)
  with assms show False using frame_ok_page2pa [of n s] pages_okD(2,4) [OF assms(1)] by blast
qed

lemma pgdir_walk_new:
  assumes ok: "pages_ok s" and pd: "pgdir_ok s pgdir" and t: "tree_slot (PDX va)"
    and no: "\<not> has_pt s pgdir (PDX va)" and f: "free_pages s = n # xs"
  defines "s' \<equiv> pt_created pgdir va n s"
  shows "pgdir_walk pgdir va True s = Some (Some (pte_ptr s' pgdir va), s')"
    and "pages_ok s'" and "free_pages s' = xs"
proof -
  from page_alloc_hd [OF ok f, of 1] obtain s1 where s1: "page_alloc 1 s = Some (Some n, s1)"
    and s1_eq: "s1 = s\<lparr>page_free_list := pp_link (pages s n),
        pages := (pages s)(n := (pages s n)\<lparr>pp_link := None\<rparr>),
        phys := (\<lambda>a. if PTE_ADDR a = page2pa n then 0 else phys s a)\<rparr>" by simp
  note take = page_alloc_takes [OF ok f s1]
  have ref0: "pp_ref (pages s n) = 0" using pages_okD(3) [OF ok] f by simp
  have s': "s' = st (pgdir + 4 * PDX va) (new_pde n)
      (set_page n ((pages s1 n)\<lparr>pp_ref := pp_ref (pages s1 n) + 1\<rparr>) s1)"
    using ref0 by (simp add: s'_def pt_created_def s1_eq st_def set_page_def diff_add_eq)
  have nin: "n \<notin> set (free_pages s1)" using take(3,5) by simp
  from set_page_pages_ok [OF take(2) nin] take(3)
  show ok': "pages_ok s'" and "free_pages s' = xs" by (simp_all add: s' frame_simps)
  have pde: "ld s' (pgdir + 4 * PDX va) = new_pde n" by (simp add: s' ld_def st_def)
  have "PGNUM (page2pa n) < npages s'"
    using take(6) pages_okD(4) [OF ok]
    by (simp add: PGNUM_page2pa s'_def pt_created_def word_less_nat_alt unat_of_nat)
  then have ka: "KADDR s' (page2pa n) = Some (page2pa n + KERNBASE)"
    by (simp add: KADDR_Some_iff)
  show "pgdir_walk pgdir va True s = Some (Some (pte_ptr s' pgdir va), s')"
    using no t ka pde
    by (simp add: pgdir_walk_def s1 has_pt_def new_pde_bits(1) pte_ptr_def Let_def flip: s' ld_pde)
qed

lemma pt_created_view:
  assumes ok: "pages_ok s" and pd: "pgdir_ok s pgdir" and t: "tree_slot (PDX va)"
    and no: "\<not> has_pt s pgdir (PDX va)" and f: "free_pages s = n # xs"
  defines "s' \<equiv> pt_created pgdir va n s"
  shows "i < 1024 \<Longrightarrow> pde_of s' pgdir i = (if i = PDX va then new_pde n else pde_of s pgdir i)"
    and "has_pt s' pgdir i \<longleftrightarrow> has_pt s pgdir i \<or> i = PDX va"
    and "pgdir_ok s' pgdir"
    and "tree_slot (PDX va') \<Longrightarrow> pte_of s' pgdir va' = pte_of s pgdir va'"
proof -
  have al: "PGOFF (pgdir - KERNBASE) = 0" using pgdir_okD(1) [OF pd] by simp
  have n: "n \<in> set (free_pages s)" using f by simp
  have not_pd: "pgdir - KERNBASE \<noteq> page2pa n"
    using frame_not_free [OF ok pgdir_okD(2) [OF pd] n] al by simp
  have not_pt: "PTE_ADDR (pde_of s pgdir i) \<noteq> page2pa n" if "has_pt s pgdir i" for i
    using frame_not_free [OF ok pgdir_okD(3) [OF pd that] n] .
  show pde: "pde_of s' pgdir i = (if i = PDX va then new_pde n else pde_of s pgdir i)" if "i < 1024" for i
    using that al not_pd by (simp add: pde_of_def s'_def pt_created_def)
  show pt: "has_pt s' pgdir i \<longleftrightarrow> has_pt s pgdir i \<or> i = PDX va" for i
    using t pde [of i] new_pde_bits(2) [of n]
    by (cases "i = PDX va") (auto simp: has_pt_def tree_slot_def)
  have lt: "n < unat (npages s)" "unat (npages s) \<le> 1048576"
    using pages_okD(2,4) [OF ok] n by blast+
  have s'n: "npages s' = npages s" by (simp add: s'_def pt_created_def)
  note walk = pgdir_walk_new [OF ok pd t no f, folded s'_def]
  have dist: "n \<notin> set xs" using page_store.free_distinct [OF ok] f by simp
  have fr: "frame_ok s' a" if "frame_ok s a" for a
    using that walk(3) f s'n by (auto simp: frame_ok_def)
  have frn: "frame_ok s' (new_pde n)"
    using frame_ok_page2pa [of n s'] lt dist walk(3) s'n new_pde_bits(1) [of n]
    by (metis frame_ok_PTE_ADDR)
  show "pgdir_ok s' pgdir"
    unfolding pgdir_ok_def
    using not_pt [THEN not_sym] pgdir_okD(1) [OF pd] fr [OF pgdir_okD(2) [OF pd]] fr [OF pgdir_okD(3) [OF pd]] frn
      pgdir_okD(4,5) [OF pd] not_pd not_pt new_pde_bits(1) [of n] no
    by (auto simp: pt pde)
  show "pte_of s' pgdir va' = pte_of s pgdir va'" if t': "tree_slot (PDX va')"
  proof (cases "PDX va' = PDX va")
    case True
    have "phys s' (page2pa n + 4 * PTX va') = 0"
      using al not_pd by (simp add: s'_def pt_created_def)
    then have "pte_of s' pgdir va' = 0"
      using True new_pde_bits by (simp add: pte_of_def pde)
    with True t no show ?thesis using pte_of_no_pt by simp
  next
    case False
    show ?thesis
    proof (cases "has_pt s pgdir (PDX va')")
      case True
      with not_pt [OF True] pgdir_okD(4) [OF pd True] False al
      have "phys s' (PTE_ADDR (pde_of s pgdir (PDX va')) + 4 * PTX va')
          = phys s (PTE_ADDR (pde_of s pgdir (PDX va')) + 4 * PTX va')"
        by (simp add: s'_def pt_created_def)
      with False show ?thesis by (simp add: pte_of_def pde Let_def)
    next
      case no': False
      with False t' pt show ?thesis using pte_of_no_pt by metis
    qed
  qed
qed


section \<open>Looking up\<close>

lemma view_phys:
  assumes "phys s' = phys s"
  shows "pde_of s' = pde_of s" and "pte_of s' = pte_of s" and "has_pt s' = has_pt s"
    and "pte_ptr s' = pte_ptr s"
  using assms by (simp_all add: pde_of_def pte_of_def has_pt_def pte_ptr_def fun_eq_iff Let_def)

lemma page_lookup_eq:
  assumes "pgdir_ok s pgdir" and "tree_slot (PDX va)"
  shows "page_lookup pgdir va s =
     (if pte_of s pgdir va AND PTE_P = 0 then Some None
      else if PGNUM (pte_of s pgdir va) \<ge> npages s then None
      else Some (Some (unat (PGNUM (pte_of s pgdir va)), pte_ptr s pgdir va)))"
proof (cases "has_pt s pgdir (PDX va)")
  case True
  then show ?thesis
    using pgdir_walk_present [OF assms(1) True]
    by (simp add: page_lookup_def ld_pte pa2page_def)
next
  case False
  then show ?thesis
    using assms(2) by (simp add: page_lookup_def pgdir_walk_absent pte_of_no_pt)
qed

text \<open>The page an entry maps, as an index.\<close>

abbreviation (input) pte_page :: "u32 \<Rightarrow> nat" where
  "pte_page e \<equiv> unat (PGNUM e)"

lemma tlb_fields [frame_simps]:
  "phys (tlb_invalidate pgdir va s) = phys s" "pages (tlb_invalidate pgdir va s) = pages s"
  "npages (tlb_invalidate pgdir va s) = npages s"
  "page_free_list (tlb_invalidate pgdir va s) = page_free_list s"
  "free_pages (tlb_invalidate pgdir va s) = free_pages s"
  "pages_ok (tlb_invalidate pgdir va s) = pages_ok s"
  by (simp_all add: tlb_invalidate_def free_pages_def pages_ok_def split: option.split)

lemma pgdir_ok_same:
  assumes "phys s' = phys s" and "npages s' = npages s" and "set (free_pages s') \<subseteq> set (free_pages s)"
    and "pgdir_ok s pgdir"
  shows "pgdir_ok s' pgdir"
  by (rule pgdir_ok_transfer [OF assms(4)]) (use assms in \<open>auto simp: frame_ok_def\<close>)

lemma frame_ok_data:
  assumes ok: "pages_ok s" and pg: "data_page s pgdir pp"
  shows "frame_ok s (page2pa pp)" and "unat (PGNUM (page2pa pp)) = pp"
proof -
  from pg pages_okD(4) [OF ok] have "pp < 1048576" "pp < unat (npages s)" "pp \<notin> set (free_pages s)"
    by (auto simp: data_page_def)
  then show "unat (PGNUM (page2pa pp)) = pp" "frame_ok s (page2pa pp)"
    by (simp_all add: PGNUM_page2pa unat_of_nat frame_ok_def word_less_nat_alt)
qed

lemma data_page_distinct:
  assumes ok: "pages_ok s" and pg: "data_page s pgdir pp"
    and a: "PTE_ADDR a = pgdir - KERNBASE \<or> (\<exists>i. has_pt s pgdir i \<and> PTE_ADDR a = PTE_ADDR (pde_of s pgdir i))"
  shows "unat (PGNUM a) \<noteq> pp"
proof
  assume "unat (PGNUM a) = pp"
  then have "PTE_ADDR a = page2pa pp" by (metis page2pa_PGNUM)
  with a pg show False by (auto simp: data_page_def)
qed

lemma page_decref_view:
  assumes ok: "pages_ok s" and pd: "pgdir_ok s pgdir" and pg: "data_page s pgdir pp"
  obtains s' where "page_decref pp s = Some s'" "pages_ok s'" "pgdir_ok s' pgdir" "phys s' = phys s"
    "npages s' = npages s" "set (free_pages s') \<subseteq> insert pp (set (free_pages s))"
    "set (free_pages s) \<subseteq> set (free_pages s')"
proof -
  from pg have lt: "pp < unat (npages s)" and nin: "pp \<notin> set (free_pages s)"
    and lk: "pp_link (pages s pp) = None" by (auto simp: data_page_def)
  from page_decref_ok [OF ok lt nin lk] obtain s' where
    s': "page_decref pp s = Some s'" "pages_ok s'" and sub: "set (free_pages s') \<subseteq> insert pp (set (free_pages s))"
    and sup: "set (free_pages s) \<subseteq> set (free_pages s')" by blast
  from page_decref_state [OF s'(1)] have fr: "phys s' = phys s" "npages s' = npages s" by auto
  have "pgdir_ok s' pgdir"
  proof (rule pgdir_ok_transfer [OF pd])
    fix a assume "frame_ok s a" and "PTE_ADDR a = pgdir - KERNBASE \<or>
        (\<exists>i. has_pt s pgdir i \<and> PTE_ADDR a = PTE_ADDR (pde_of s pgdir i))"
    with data_page_distinct [OF ok pg] sub fr show "frame_ok s' a"
      by (auto simp: frame_ok_def)
  qed (use fr in simp_all)
  with s' fr sub sup that show ?thesis by blast
qed

section \<open>Unmapping\<close>

lemma page_remove_unmapped:
  assumes "pgdir_ok s pgdir" and "tree_slot (PDX va)" and "pte_of s pgdir va AND PTE_P = 0"
  shows "page_remove pgdir va s = Some s"
  using assms by (simp add: page_remove_def page_lookup_eq)

lemma page_remove_mapped:
  assumes ok: "pages_ok s" and pd: "pgdir_ok s pgdir" and t: "tree_slot (PDX va)"
    and m: "pte_of s pgdir va AND PTE_P \<noteq> 0"
    and pg: "data_page s pgdir (pte_page (pte_of s pgdir va))"
  obtains s1 s' where "page_decref (pte_page (pte_of s pgdir va)) s = Some s1"
    "page_remove pgdir va s = Some s'"
    "s' = st (pte_ptr s pgdir va) 0 (tlb_invalidate pgdir va s1)"
    "pages_ok s'" "pgdir_ok s' pgdir" "has_pt s' pgdir = has_pt s pgdir"
    "set (free_pages s') \<subseteq> insert (pte_page (pte_of s pgdir va)) (set (free_pages s))"
    "\<And>i. i < 1024 \<Longrightarrow> pde_of s' pgdir i = pde_of s pgdir i"
    "\<And>va'. tree_slot (PDX va') \<Longrightarrow>
       pte_of s' pgdir va' = (if PTE_ADDR va' = PTE_ADDR va then 0 else pte_of s pgdir va')"
    "set (free_pages s) \<subseteq> set (free_pages s')"
proof -
  let ?pp = "pte_page (pte_of s pgdir va)"
  from page_decref_view [OF ok pd pg] obtain s1 where
    s1: "page_decref ?pp s = Some s1" "pages_ok s1" "pgdir_ok s1 pgdir" "phys s1 = phys s"
    "npages s1 = npages s" "set (free_pages s1) \<subseteq> insert ?pp (set (free_pages s))"
    "set (free_pages s) \<subseteq> set (free_pages s1)" by blast
  define s2 where "s2 = tlb_invalidate pgdir va s1"
  have ph: "phys s2 = phys s" using s1(4) by (simp add: s2_def frame_simps)
  note v = view_phys [OF ph]
  have pt: "has_pt s pgdir (PDX va)" using m t pte_of_no_pt by fastforce
  have pd2: "pgdir_ok s2 pgdir"
    by (rule pgdir_ok_same [OF _ _ _ s1(3)]) (use s1 in \<open>simp_all add: s2_def frame_simps\<close>)
  have lt: "PGNUM (pte_of s pgdir va) < npages s"
    using pg by (simp add: data_page_def word_less_nat_alt)
  define s' where "s' = st (pte_ptr s pgdir va) 0 s2"
  have s'2: "s' = st (pte_ptr s2 pgdir va) 0 s2" by (simp add: s'_def v)
  have pt2: "has_pt s2 pgdir (PDX va)" using pt by (simp add: v)
  note w = st_pte [where v = 0, OF pd2 pt2, folded s'2]
  show ?thesis
  proof (rule that)
    show "page_remove pgdir va s = Some s'"
      using m lt s1(1) by (simp add: page_remove_def page_lookup_eq [OF pd t] s'_def s2_def)
    show "has_pt s' pgdir = has_pt s pgdir" using w(2) v(3) by (simp add: fun_eq_iff)
  qed (use s1 w v in \<open>simp_all add: s'_def s2_def frame_simps\<close>)
qed


section \<open>Mapping\<close>

text \<open>Walking with \<^verbatim>\<open>create\<close> set: out of memory and unchanged, or an entry to write to.\<close>

lemma pgdir_walk_create:
  assumes ok: "pages_ok s" and pd: "pgdir_ok s pgdir" and t: "tree_slot (PDX va)"
  obtains
    (no_mem) "\<not> has_pt s pgdir (PDX va)" "free_pages s = []"
      "pgdir_walk pgdir va True s = Some (None, s)"
  | (entry) s1 where "pgdir_walk pgdir va True s = Some (Some (pte_ptr s1 pgdir va), s1)"
      "pages_ok s1" "pgdir_ok s1 pgdir" "has_pt s1 pgdir (PDX va)"
      "\<And>va'. tree_slot (PDX va') \<Longrightarrow> pte_of s1 pgdir va' = pte_of s pgdir va'"
      "set (free_pages s1) \<subseteq> set (free_pages s)"
      "\<And>i. i \<notin> set (free_pages s) \<Longrightarrow> pages s1 i = pages s i"
      "\<And>i. data_page s pgdir i \<Longrightarrow> data_page s1 pgdir i"
      "vm_frame s s1"
      "has_pt s pgdir (PDX va) \<Longrightarrow> s1 = s"
      "\<And>i. has_pt s1 pgdir i \<longleftrightarrow> has_pt s pgdir i \<or> i = PDX va"
      "free_pages s1 = (if has_pt s pgdir (PDX va) then free_pages s else tl (free_pages s))"
      "\<And>a. PTE_ADDR a \<noteq> pgdir - KERNBASE \<Longrightarrow> PTE_ADDR a \<notin> page2pa ` set (free_pages s) \<Longrightarrow> phys s1 a = phys s a"
      "\<And>i. has_pt s pgdir i \<Longrightarrow> pde_of s1 pgdir i = pde_of s pgdir i"
      "\<not> has_pt s pgdir (PDX va) \<Longrightarrow> PTE_ADDR (pde_of s1 pgdir (PDX va)) \<in> page2pa ` set (free_pages s)"
      "\<And>i. i < 1024 \<Longrightarrow> i \<noteq> PDX va \<Longrightarrow> pde_of s1 pgdir i = pde_of s pgdir i"
      "\<not> has_pt s pgdir (PDX va) \<Longrightarrow> pde_of s1 pgdir (PDX va) AND 7 = 7"
proof (cases "has_pt s pgdir (PDX va)")
  case True
  with True ok pd pgdir_walk_present [OF pd True] show ?thesis by (intro entry [of s]) auto
next
  case no: False
  show ?thesis
  proof (cases "free_pages s")
    case Nil
    with pgdir_walk_no_memory [OF ok t no Nil] no show ?thesis by (intro no_mem)
  next
    case (Cons n xs)
    let ?s1 = "pt_created pgdir va n s"
    note w = pgdir_walk_new [OF ok pd t no Cons]
    note v = pt_created_view [OF ok pd t no Cons]
    have n: "n < 1048576" using pages_okD(2) [OF ok, of n] pages_okD(4) [OF ok] Cons by auto
    have dp: "data_page ?s1 pgdir i" if d: "data_page s pgdir i" for i
    proof -
      have i: "i \<noteq> n" "i < 1048576" using d Cons pages_okD(4) [OF ok] by (auto simp: data_page_def)
      then have "page2pa n \<noteq> page2pa i" using n by (simp add: page2pa_inj)
      with d i(1) Cons w(3) v(1,2) show ?thesis
        by (auto simp: data_page_def pt_created_def new_pde_bits(1))
    qed
    have fr: "vm_frame s ?s1" by (simp add: vm_frame_def pt_created_def)
    have ph: "phys ?s1 a = phys s a" if "PTE_ADDR a \<noteq> pgdir - KERNBASE" "PTE_ADDR a \<notin> page2pa ` set (free_pages s)" for a
      using that Cons pgdir_okD(1) [OF pd] by (auto simp: pt_created_def)
    have pd1: "pde_of ?s1 pgdir i = pde_of s pgdir i" if "has_pt s pgdir i" for i
      using v(1) [of i] that no by auto
    have pd2: "PTE_ADDR (pde_of ?s1 pgdir (PDX va)) \<in> page2pa ` set (free_pages s)"
      using v(1) [of "PDX va"] Cons by (simp add: new_pde_bits(1))
    have pd3: "pde_of ?s1 pgdir (PDX va) AND 7 = 7"
      using v(1) [OF PDX_less, of va] new_pde_flags by metis
    show ?thesis
      by (rule entry [of ?s1])
        (use w v dp fr Cons no ph pd1 pd2 pd3 in \<open>auto simp: pt_created_def [of _ _ n s]\<close>)
  qed
qed

lemma data_page_cong:
  assumes "phys s' = phys s" "npages s' = npages s" "free_pages s' = free_pages s"
    "pp_link (pages s' i) = pp_link (pages s i)"
  shows "data_page s' pgdir i = data_page s pgdir i"
  using assms view_phys [OF assms(1)] by (simp add: data_page_def)

lemma page_insert_no_mem:
  assumes "pgdir_walk pgdir va True s = Some (None, s)"
  shows "page_insert pgdir pp va perm s = Some (- E_NO_MEM, s)"
  using assms by (simp add: page_insert_def)

text \<open>
  The effect of a successful insertion into a state whose page table exists: one entry is
  replaced, the reference counts of the new and of the formerly mapped page move by one, and
  nothing else of the address space changes.
\<close>

definition insert_post :: "u32 \<Rightarrow> nat \<Rightarrow> u32 \<Rightarrow> u32 \<Rightarrow> kstate \<Rightarrow> kstate \<Rightarrow> bool" where
  "insert_post pgdir pp va perm s s' \<longleftrightarrow>
     pages_ok s' \<and> pgdir_ok s' pgdir \<and>
     (\<forall>va'. tree_slot (PDX va') \<longrightarrow> pte_of s' pgdir va' =
        (if PTE_ADDR va' = PTE_ADDR va then page2pa pp OR perm OR PTE_P else pte_of s pgdir va')) \<and>
     (\<forall>i. pp_ref (pages s' i) = pp_ref (pages s i) + (if i = pp then 1 else 0) -
        (if pte_of s pgdir va AND PTE_P \<noteq> 0 \<and> i = pte_page (pte_of s pgdir va) then 1 else 0)) \<and>
     pp \<notin> set (free_pages s') \<and>
     vm_frame s s' \<and>
     (\<forall>a. a \<noteq> pte_ptr s pgdir va - KERNBASE \<longrightarrow> phys s' a = phys s a) \<and>
     set (free_pages s') \<subseteq> set (free_pages s) \<union>
       (if pte_of s pgdir va AND PTE_P \<noteq> 0 then {pte_page (pte_of s pgdir va)} else {}) \<and>
     (\<forall>i. i \<notin> set (free_pages s') \<longrightarrow> pp_link (pages s' i) = pp_link (pages s i)) \<and>
     set (free_pages s) \<subseteq> set (free_pages s')"

definition bump_ref :: "nat \<Rightarrow> kstate \<Rightarrow> kstate" where
  "bump_ref pp s = set_page pp ((pages s pp)\<lparr>pp_ref := pp_ref (pages s pp) + 1\<rparr>) s"

lemma vm_frame_bump: "vm_frame s (bump_ref pp s)"
  by (simp add: bump_ref_def)

lemma bump_ref_view:
  assumes ok: "pages_ok s" and pd: "pgdir_ok s pgdir" and pp: "data_page s pgdir pp"
  shows "pages_ok (bump_ref pp s)" "pgdir_ok (bump_ref pp s) pgdir" "phys (bump_ref pp s) = phys s"
    "free_pages (bump_ref pp s) = free_pages s" "npages (bump_ref pp s) = npages s"
    "data_page (bump_ref pp s) pgdir i = data_page s pgdir i"
    "pp_ref (pages (bump_ref pp s) i) = pp_ref (pages s i) + (if i = pp then 1 else 0)"
proof -
  have nin: "pp \<notin> set (free_pages s)" using pp by (simp add: data_page_def)
  show f: "pages_ok (bump_ref pp s)" "free_pages (bump_ref pp s) = free_pages s"
    unfolding bump_ref_def using set_page_pages_ok [OF ok nin] by blast+
  show g: "phys (bump_ref pp s) = phys s" "npages (bump_ref pp s) = npages s"
    "pp_ref (pages (bump_ref pp s) i) = pp_ref (pages s i) + (if i = pp then 1 else 0)"
    by (simp_all add: bump_ref_def frame_simps)
  show "pgdir_ok (bump_ref pp s) pgdir" by (rule pgdir_ok_same [OF g(1,2) _ pd]) (simp add: f)
  show "data_page (bump_ref pp s) pgdir i = data_page s pgdir i"
    by (rule data_page_cong [OF g(1,2) f(2)]) (simp add: bump_ref_def set_page_def)
qed

lemma page_insert_fresh:
  assumes w: "pgdir_walk pgdir va True s = Some (Some (pte_ptr s1 pgdir va), s1)"
    and ok: "pages_ok s1" and pd: "pgdir_ok s1 pgdir" and pt: "has_pt s1 pgdir (PDX va)"
    and pp: "data_page s1 pgdir pp" and no: "pte_of s1 pgdir va AND PTE_P = 0"
  shows "\<exists>s'. page_insert pgdir pp va perm s = Some (0, s') \<and> insert_post pgdir pp va perm s1 s'"
proof -
  note b = bump_ref_view [OF ok pd pp]
  note v = view_phys [OF b(3)]
  let ?s' = "st (pte_ptr (bump_ref pp s1) pgdir va) (page2pa pp OR perm OR PTE_P) (bump_ref pp s1)"
  have pt2: "has_pt (bump_ref pp s1) pgdir (PDX va)" using pt by (simp add: v)
  note e = st_pte [where v = "page2pa pp OR perm OR PTE_P", OF b(2) pt2]
  have "page_insert pgdir pp va perm s = Some (0, ?s')"
    using no ld_pte [OF pt2] by (simp add: page_insert_def w Let_def v flip: bump_ref_def)
  moreover have "vm_frame s1 ?s'" by (rule vm_frame_trans [OF vm_frame_bump vm_frame_st])
  moreover have "pp_ref (pages ?s' i) = pp_ref (pages s1 i) + (if i = pp then 1 else 0)" for i
    by (simp add: st_def bump_ref_def set_page_def)
  moreover have "pp \<notin> set (free_pages s1)" using pp by (simp add: data_page_def)
  moreover have "phys ?s' a = phys s1 a" if "a \<noteq> pte_ptr s1 pgdir va - KERNBASE" for a
    using that b(3) v by (simp add: phys_st)
  moreover have "pp_link (pages ?s' i) = pp_link (pages s1 i)" for i
    by (simp add: st_def bump_ref_def set_page_def)
  ultimately show ?thesis
    using no e b v unfolding insert_post_def by (intro exI [of _ ?s']) (auto simp: frame_simps)
qed

lemma page_remove_state:
  assumes "page_decref pp s = Some s1" and "s' = st a 0 (tlb_invalidate pgdir va s1)"
  shows "vm_frame s s'"
    and "pp_ref (pages s' i) = pp_ref (pages s i) - (if i = pp then 1 else 0)"
proof -
  from page_decref_state [OF assms(1)]
  have "pp_ref (pages s1 i) = (if i = pp then pp_ref (pages s i) - 1 else pp_ref (pages s i))" by auto
  then show "pp_ref (pages s' i) = pp_ref (pages s i) - (if i = pp then 1 else 0)"
    by (simp add: assms(2) st_def tlb_fields)
  have "vm_frame s (tlb_invalidate pgdir va s1)"
    using vm_frame_decref [OF assms(1)] by (rule vm_frame_trans) simp
  then show "vm_frame s s'" unfolding assms(2) by (rule vm_frame_trans) simp
qed

lemma page_insert_replace:
  assumes w: "pgdir_walk pgdir va True s = Some (Some (pte_ptr s1 pgdir va), s1)"
    and ok: "pages_ok s1" and pd: "pgdir_ok s1 pgdir" and pt: "has_pt s1 pgdir (PDX va)"
    and pp: "data_page s1 pgdir pp" and yes: "pte_of s1 pgdir va AND PTE_P \<noteq> 0"
    and old: "data_page s1 pgdir (pte_page (pte_of s1 pgdir va))"
      "pp_ref (pages s1 (pte_page (pte_of s1 pgdir va))) \<noteq> 0"
  shows "\<exists>s'. page_insert pgdir pp va perm s = Some (0, s') \<and> insert_post pgdir pp va perm s1 s'"
proof -
  let ?old = "pte_page (pte_of s1 pgdir va)" and ?e = "page2pa pp OR perm OR PTE_P"
  note b = bump_ref_view [OF ok pd pp]
  define s3 where "s3 = tlb_invalidate pgdir va (bump_ref pp s1)"
  have ph: "phys s3 = phys s1" "free_pages s3 = free_pages s1" "npages s3 = npages s1"
    "pages s3 = pages (bump_ref pp s1)" and ok3: "pages_ok s3"
    using b by (simp_all add: s3_def frame_simps)
  note v = view_phys [OF ph(1)]
  have pd3: "pgdir_ok s3 pgdir" by (rule pgdir_ok_same [OF ph(1,3) _ pd]) (simp add: ph)
  have "data_page s3 pgdir ?old"
    using old(1) data_page_cong [OF ph(1,3,2), of ?old] by (simp add: ph(4) bump_ref_def frame_simps)
  with v(2) have od: "data_page s3 pgdir (pte_page (pte_of s3 pgdir va))" by simp
  from page_remove_mapped [OF ok3 pd3 _ _ od] pt yes v obtain s4 s5 where
    d: "page_decref ?old s3 = Some s4" and r: "page_remove pgdir va s3 = Some s5"
    and s5: "s5 = st (pte_ptr s3 pgdir va) 0 (tlb_invalidate pgdir va s4)"
    and ok5: "pages_ok s5" "pgdir_ok s5 pgdir" "has_pt s5 pgdir = has_pt s3 pgdir"
    and free5: "set (free_pages s5) \<subseteq> insert ?old (set (free_pages s3))"
    and pde5: "\<And>i. i < 1024 \<Longrightarrow> pde_of s5 pgdir i = pde_of s3 pgdir i"
    and pte5: "\<And>va'. tree_slot (PDX va') \<Longrightarrow>
      pte_of s5 pgdir va' = (if PTE_ADDR va' = PTE_ADDR va then 0 else pte_of s3 pgdir va')"
    and sup5: "set (free_pages s3) \<subseteq> set (free_pages s5)"
    by (metis (no_types, lifting) has_pt_slot(1))
  note rs = page_remove_state [OF d s5]
  have pt5: "has_pt s5 pgdir (PDX va)" using pt ok5(3) v by simp
  have ptr: "pte_ptr s5 pgdir va = pte_ptr s1 pgdir va" using pde5 v by (simp add: pte_ptr_def)
  let ?s' = "st (pte_ptr s5 pgdir va) ?e s5"
  note e = st_pte [where v = ?e, OF ok5(2) pt5]
  have ins: "page_insert pgdir pp va perm s = Some (0, ?s')"
    using yes ld_pte [OF pt] r b(3)
    by (simp add: page_insert_def w Let_def ptr ld_def flip: bump_ref_def s3_def)
  have refs: "pp_ref (pages ?s' i) = pp_ref (pages s1 i) + (if i = pp then 1 else 0) -
      (if i = ?old then 1 else 0)" for i
    using rs(2) [of i] b(7) [of i] by (simp add: st_def ph(4))
  have "pp \<notin> set (free_pages ?s')"
  proof
    assume a: "pp \<in> set (free_pages ?s')"
    then have "pp = ?old" using free5 pp ph(2) by (auto simp: frame_simps data_page_def)
    moreover have "pp_ref (pages ?s' pp) = 0" using a ok5(1) pages_okD(3) [of ?s' pp] by (simp add: frame_simps)
    ultimately show False using refs [of pp] old(2) by simp
  qed
  moreover have "vm_frame s1 s3" unfolding s3_def by (rule vm_frame_trans [OF vm_frame_bump vm_frame_tlb])
  then have "vm_frame s1 ?s'" using rs(1) by (meson vm_frame_st vm_frame_trans)
  moreover have "phys ?s' a = phys s1 a" if "a \<noteq> pte_ptr s1 pgdir va - KERNBASE" for a
  proof -
    have "phys s5 = (phys s1)(pte_ptr s1 pgdir va - KERNBASE := 0)"
      using page_decref_state [OF d] ph(1) v(4) by (auto simp: s5 phys_st tlb_fields)
    with that show ?thesis unfolding ptr by (simp add: phys_st)
  qed
  moreover have "pp_link (pages ?s' i) = pp_link (pages s1 i)" if i: "i \<notin> set (free_pages ?s')" for i
  proof -
    have "free_pages s5 = free_pages s4" "pages_ok s5 = pages_ok s4"
      by (simp_all add: s5 frame_simps)
    moreover have "pages s5 = pages s4" by (simp add: s5 st_def tlb_fields)
    ultimately show ?thesis
      using page_decref_links [OF d, of i] i ok5(1)
      by (simp add: frame_simps ph(4) bump_ref_def split: if_splits)
  qed
  moreover have "set (free_pages ?s') \<subseteq> set (free_pages s1) \<union> {?old}" "set (free_pages s1) \<subseteq> set (free_pages ?s')"
    using free5 sup5 ph(2) by (auto simp: frame_simps)
  ultimately show ?thesis
    using ins e ok5 refs yes pte5 v unfolding insert_post_def
    by (intro exI [of _ ?s']) (auto simp: frame_simps)
qed


lemma insert_post_step:
  assumes "insert_post pgdir pp va perm s1 s'" and "vm_frame s s1" and "tree_slot (PDX va)"
    and "\<And>va'. tree_slot (PDX va') \<Longrightarrow> pte_of s1 pgdir va' = pte_of s pgdir va'"
    and "\<And>i. i \<notin> set (free_pages s) \<Longrightarrow> pages s1 i = pages s i"
  shows "pages_ok s' \<and> pgdir_ok s' pgdir \<and> vm_frame s s' \<and> pp \<notin> set (free_pages s') \<and>
    (\<forall>va'. tree_slot (PDX va') \<longrightarrow> pte_of s' pgdir va' =
      (if PTE_ADDR va' = PTE_ADDR va then page2pa pp OR perm OR PTE_P else pte_of s pgdir va')) \<and>
    (\<forall>i. i \<notin> set (free_pages s) \<longrightarrow> pp_ref (pages s' i) =
      pp_ref (pages s i) + (if i = pp then 1 else 0) -
      (if pte_of s pgdir va AND PTE_P \<noteq> 0 \<and> i = pte_page (pte_of s pgdir va) then 1 else 0))"
  using assms vm_frame_trans [OF assms(2)] unfolding insert_post_def by auto

text \<open>The two ways an insertion can go: no memory for a page table, or success.\<close>

lemma page_insert_cases:
  assumes ok: "pages_ok s" and pd: "pgdir_ok s pgdir" and t: "tree_slot (PDX va)"
    and pp: "data_page s pgdir pp"
    and old: "pte_of s pgdir va AND PTE_P \<noteq> 0 \<longrightarrow> data_page s pgdir (pte_page (pte_of s pgdir va)) \<and>
      pp_ref (pages s (pte_page (pte_of s pgdir va))) \<noteq> 0"
  obtains
    (no_mem) "\<not> has_pt s pgdir (PDX va)" "free_pages s = []"
      "page_insert pgdir pp va perm s = Some (- E_NO_MEM, s)"
  | (inserted) s1 s' where "has_pt s pgdir (PDX va) \<or> free_pages s \<noteq> []"
      "page_insert pgdir pp va perm s = Some (0, s')" "insert_post pgdir pp va perm s1 s'"
      "pages_ok s1" "pgdir_ok s1 pgdir" "has_pt s1 pgdir (PDX va)" "vm_frame s s1"
      "\<And>va'. tree_slot (PDX va') \<Longrightarrow> pte_of s1 pgdir va' = pte_of s pgdir va'"
      "set (free_pages s1) \<subseteq> set (free_pages s)"
      "\<And>i. i \<notin> set (free_pages s) \<Longrightarrow> pages s1 i = pages s i"
      "\<And>i. has_pt s1 pgdir i \<longleftrightarrow> has_pt s pgdir i \<or> i = PDX va"
      "\<And>a. PTE_ADDR a \<noteq> pgdir - KERNBASE \<Longrightarrow> PTE_ADDR a \<notin> page2pa ` set (free_pages s) \<Longrightarrow> phys s1 a = phys s a"
      "\<And>i. has_pt s pgdir i \<Longrightarrow> pde_of s1 pgdir i = pde_of s pgdir i"
      "\<not> has_pt s pgdir (PDX va) \<Longrightarrow> PTE_ADDR (pde_of s1 pgdir (PDX va)) \<in> page2pa ` set (free_pages s)"
      "\<And>i. i < 1024 \<Longrightarrow> i \<noteq> PDX va \<Longrightarrow> pde_of s1 pgdir i = pde_of s pgdir i"
      "free_pages s1 = (if has_pt s pgdir (PDX va) then free_pages s else tl (free_pages s))"
      "\<not> has_pt s pgdir (PDX va) \<Longrightarrow> pde_of s1 pgdir (PDX va) AND 7 = 7"
  using ok pd t
proof (cases rule: pgdir_walk_create)
  case no: no_mem
  then show ?thesis by (intro no_mem) (simp_all add: page_insert_no_mem)
next
  case (entry s1)
  have pp1: "data_page s1 pgdir pp" using entry(8) [OF pp] .
  have "\<exists>s'. page_insert pgdir pp va perm s = Some (0, s') \<and> insert_post pgdir pp va perm s1 s'"
  proof (cases "pte_of s1 pgdir va AND PTE_P = 0")
    case True
    with entry pp1 show ?thesis by (intro page_insert_fresh) auto
  next
    case False
    with entry(5) [OF t] old have o: "data_page s pgdir (pte_page (pte_of s1 pgdir va))"
      "pp_ref (pages s (pte_page (pte_of s1 pgdir va))) \<noteq> 0" by auto
    with entry(8) [OF o(1)] entry(7) have "pp_ref (pages s1 (pte_page (pte_of s1 pgdir va))) \<noteq> 0"
      by (simp add: data_page_def)
    with entry pp1 False entry(8) [OF o(1)] show ?thesis by (intro page_insert_replace) auto
  qed
  then obtain s' where s': "page_insert pgdir pp va perm s = Some (0, s')"
    "insert_post pgdir pp va perm s1 s'" by blast
  have "has_pt s pgdir (PDX va) \<or> free_pages s \<noteq> []"
    using entry(1) pgdir_walk_no_memory [OF ok t] by auto
  with s' entry show ?thesis by (intro inserted [of s' s1])
qed

lemma page_insert_spec:
  assumes ok: "pages_ok s" and pd: "pgdir_ok s pgdir" and t: "tree_slot (PDX va)"
    and pp: "data_page s pgdir pp"
    and old: "pte_of s pgdir va AND PTE_P \<noteq> 0 \<longrightarrow> data_page s pgdir (pte_page (pte_of s pgdir va)) \<and>
      pp_ref (pages s (pte_page (pte_of s pgdir va))) \<noteq> 0"
  shows "if \<not> has_pt s pgdir (PDX va) \<and> free_pages s = []
    then page_insert pgdir pp va perm s = Some (- E_NO_MEM, s)
    else \<exists>s'. page_insert pgdir pp va perm s = Some (0, s') \<and>
      pages_ok s' \<and> pgdir_ok s' pgdir \<and> vm_frame s s' \<and> pp \<notin> set (free_pages s') \<and>
      (\<forall>va'. tree_slot (PDX va') \<longrightarrow> pte_of s' pgdir va' =
        (if PTE_ADDR va' = PTE_ADDR va then page2pa pp OR perm OR PTE_P else pte_of s pgdir va')) \<and>
      (\<forall>i. i \<notin> set (free_pages s) \<longrightarrow> pp_ref (pages s' i) =
        pp_ref (pages s i) + (if i = pp then 1 else 0) -
        (if pte_of s pgdir va AND PTE_P \<noteq> 0 \<and> i = pte_page (pte_of s pgdir va) then 1 else 0))"
  using ok pd t pp old
proof (cases rule: page_insert_cases [where perm = perm])
  case no_mem
  then show ?thesis by simp
next
  case (inserted s1 s')
  from insert_post_step [OF inserted(3,7) t inserted(8,10)] inserted(1,2) show ?thesis by auto
qed

end
