(* ===== verification/Regions.thy ===== *)
theory Regions
  imports Pgdir
begin

text \<open>
  The loops of \<^verbatim>\<open>kern/pmap.c\<close> over ranges of pages: \<^verbatim>\<open>boot_map_region\<close>, the MMIO window, the
  check of user pointers. Each loop is shown to end, with the number of rounds bounded by the
  number of pages in the range, and to have exactly its intended effect on the abstract address
  space.
\<close>

section \<open>Static mappings\<close>

text \<open>One round of the mapping loop: walk, then write the entry.\<close>

lemma map_one:
  assumes ok: "pages_ok s" and pd: "pgdir_ok s pgdir" and t: "tree_slot (PDX va)"
    and mem: "has_pt s pgdir (PDX va) \<or> free_pages s \<noteq> []"
  obtains e s1 s2 where "pgdir_walk pgdir va True s = Some (Some e, s1)" "s2 = st e v s1"
    "pages_ok s2" "pgdir_ok s2 pgdir" "vm_frame s s2"
    "\<And>va'. tree_slot (PDX va') \<Longrightarrow>
      pte_of s2 pgdir va' = (if PTE_ADDR va' = PTE_ADDR va then v else pte_of s pgdir va')"
    "\<And>i. i \<notin> set (free_pages s) \<Longrightarrow> pages s2 i = pages s i"
    "\<And>i. has_pt s2 pgdir i \<longleftrightarrow> has_pt s pgdir i \<or> i = PDX va"
    "free_pages s2 = (if has_pt s pgdir (PDX va) then free_pages s else tl (free_pages s))"
  using ok pd t
proof (cases rule: pgdir_walk_create)
  case no_mem
  with mem show ?thesis by simp
next
  case (entry s1)
  note w = st_pte [where v = v, OF entry(3,4)]
  have "pages (st (pte_ptr s1 pgdir va) v s1) = pages s1" by (simp add: st_def)
  with entry w vm_frame_trans [OF entry(9) vm_frame_st] show ?thesis
    by (intro that [OF entry(1) refl]) (auto simp: frame_simps)
qed

definition missing_pts :: "kstate \<Rightarrow> u32 \<Rightarrow> u32 \<Rightarrow> nat \<Rightarrow> u32 set" where
  "missing_pts s pgdir va n = (\<lambda>k. PDX (va + of_nat k * PGSIZE)) ` {..<n} - {i. has_pt s pgdir i}"

lemma missing_pts_Suc:
  "missing_pts s pgdir va (Suc n) =
     (if has_pt s pgdir (PDX va) then {} else {PDX va}) \<union> missing_pts s pgdir (va + PGSIZE) n"
proof -
  have "{..<Suc n} = insert 0 (Suc ` {..<n})" by (simp add: lessThan_Suc_eq_insert_0)
  then have "(\<lambda>k. PDX (va + of_nat k * PGSIZE)) ` {..<Suc n} =
      insert (PDX va) ((\<lambda>k. PDX (va + PGSIZE + of_nat k * PGSIZE)) ` {..<n})"
    by (simp add: image_image algebra_simps)
  then show ?thesis by (auto simp: missing_pts_def)
qed

lemma finite_missing [simp]: "finite (missing_pts s pgdir va n)"
  by (simp add: missing_pts_def)

lemma page_offsets_distinct:
  assumes "PGOFF va = 0" and "j < 1048576" and "k < 1048576" and "j \<noteq> k"
  shows "PTE_ADDR (va + of_nat j * PGSIZE) \<noteq> PTE_ADDR (va + of_nat k * PGSIZE)"
proof -
  have al: "PGOFF (of_nat i * PGSIZE) = 0" for i :: nat
  proof -
    have "of_nat i * PGSIZE = page2pa i" by (simp add: page2pa_def push_bit_eq_mult)
    then show ?thesis by simp
  qed
  then have "PTE_ADDR (va + of_nat i * PGSIZE) = va + of_nat i * PGSIZE" for i :: nat
    using assms(1) by simp
  moreover have "of_nat j * PGSIZE \<noteq> of_nat k * PGSIZE"
    using page2pa_inj [of j k] assms by (simp add: page2pa_def push_bit_eq_mult)
  ultimately show ?thesis by simp
qed


lemma PGOFF_next: "PGOFF va = 0 \<Longrightarrow> PGOFF (va + PGSIZE) = 0"
  by (simp add: add.commute [of va]) (simp add: PGOFF_def)

text \<open>What a region mapping of \<open>n\<close> pages achieves.\<close>

definition region_post :: "u32 \<Rightarrow> u32 \<Rightarrow> nat \<Rightarrow> u32 \<Rightarrow> u32 \<Rightarrow> kstate \<Rightarrow> kstate \<Rightarrow> bool" where
  "region_post pgdir va n pa perm s s' \<longleftrightarrow>
     pages_ok s' \<and> pgdir_ok s' pgdir \<and> vm_frame s s' \<and>
     (\<forall>k<n. pte_of s' pgdir (va + of_nat k * PGSIZE) = (pa + of_nat k * PGSIZE) OR perm OR PTE_P) \<and>
     (\<forall>va'. tree_slot (PDX va') \<longrightarrow> (\<forall>k<n. PTE_ADDR va' \<noteq> PTE_ADDR (va + of_nat k * PGSIZE)) \<longrightarrow>
        pte_of s' pgdir va' = pte_of s pgdir va') \<and>
     set (free_pages s') \<subseteq> set (free_pages s) \<and>
     (\<forall>i. i \<notin> set (free_pages s) \<longrightarrow> pages s' i = pages s i)"

lemma region_post_step:
  assumes r: "region_post pgdir (va + PGSIZE) n (pa + PGSIZE) perm s2 s'"
    and n: "Suc n \<le> 1048576" and al: "PGOFF va = 0" and t: "tree_slot (PDX va)"
    and fr: "vm_frame s s2" and sub: "set (free_pages s2) \<subseteq> set (free_pages s)"
    and one: "\<And>va'. tree_slot (PDX va') \<Longrightarrow> pte_of s2 pgdir va' =
      (if PTE_ADDR va' = PTE_ADDR va then pa OR perm OR PTE_P else pte_of s pgdir va')"
    and pg: "\<And>i. i \<notin> set (free_pages s) \<Longrightarrow> pages s2 i = pages s i"
  shows "region_post pgdir va (Suc n) pa perm s s'"
proof -
  have shift: "va + PGSIZE + of_nat k * PGSIZE = va + of_nat (Suc k) * PGSIZE"
    "pa + PGSIZE + of_nat k * PGSIZE = pa + of_nat (Suc k) * PGSIZE" for k :: nat
    by (simp_all add: algebra_simps)
  note r' = r [unfolded region_post_def shift]
  have keep: "pte_of s' pgdir va' = pte_of s2 pgdir va'"
    if "tree_slot (PDX va')" "\<And>k. k < n \<Longrightarrow> PTE_ADDR va' \<noteq> PTE_ADDR (va + of_nat (Suc k) * PGSIZE)" for va'
    using r' that by simp
  have first: "pte_of s' pgdir va = pa OR perm OR PTE_P"
  proof -
    have "pte_of s' pgdir va = pte_of s2 pgdir va"
    proof (rule keep [OF t])
      fix k assume "k < n"
      then show "PTE_ADDR va \<noteq> PTE_ADDR (va + of_nat (Suc k) * PGSIZE)"
        using page_offsets_distinct [OF al, of 0 "Suc k"] n by simp
    qed
    then show ?thesis using one [OF t] by simp
  qed
  have rest: "pte_of s' pgdir va' = pte_of s pgdir va'"
    if "tree_slot (PDX va')" "\<forall>k<Suc n. PTE_ADDR va' \<noteq> PTE_ADDR (va + of_nat k * PGSIZE)" for va'
  proof -
    have "pte_of s' pgdir va' = pte_of s2 pgdir va'"
      by (rule keep [OF that(1)]) (use that(2) in \<open>simp del: of_nat_Suc\<close>)
    moreover have "PTE_ADDR va' \<noteq> PTE_ADDR va" using that(2) [rule_format, of 0] by simp
    ultimately show ?thesis using one [OF that(1)] by simp
  qed
  have "pte_of s' pgdir (va + of_nat k * PGSIZE) = (pa + of_nat k * PGSIZE) OR perm OR PTE_P"
    if "k < Suc n" for k
    using that first r' by (cases k) (simp_all del: of_nat_Suc)
  moreover have "vm_frame s s'" using fr r' vm_frame_trans by blast
  moreover have "set (free_pages s') \<subseteq> set (free_pages s)" using sub r' by auto
  moreover have "pages s' i = pages s i" if "i \<notin> set (free_pages s)" for i
    using pg [OF that] r' sub that by auto
  ultimately show ?thesis using rest r' unfolding region_post_def by simp
qed

lemma boot_map_loop_total:
  assumes "pages_ok s" and "pgdir_ok s pgdir" and "PGOFF va = 0" and "n \<le> 1048576"
    and "\<forall>k<n. tree_slot (PDX (va + of_nat k * PGSIZE))"
    and "card (missing_pts s pgdir va n) \<le> length (free_pages s)"
    and "unat sz \<le> unat i + 4096 * n" and "unat i + 4096 * n < unat sz + 4096"
    and "unat sz + 4096 \<le> 4294967296"
  shows "\<exists>s'. boot_map_loop pgdir va sz pa perm i s = Some s' \<and> region_post pgdir va n pa perm s s'"
  using assms
proof (induction n arbitrary: va pa i s)
  case 0
  then have "\<not> i < sz" by (simp add: word_less_nat_alt)
  with 0 show ?case by (simp add: boot_map_loop.simps region_post_def)
next
  case (Suc n)
  have t: "tree_slot (PDX va)" using Suc.prems(5) [rule_format, of 0] by simp
  have card1: "card (missing_pts s pgdir va (Suc n)) \<le> length (free_pages s)" by (rule Suc.prems(6))
  have mem: "has_pt s pgdir (PDX va) \<or> free_pages s \<noteq> []"
    using card1 by (cases "has_pt s pgdir (PDX va)") (auto simp: missing_pts_Suc card_gt_0_iff)
  from map_one [where v = "pa OR perm OR PTE_P", OF Suc.prems(1,2) t mem] obtain e s1 s2 where
    walk: "pgdir_walk pgdir va True s = Some (Some e, s1)" and s2: "s2 = st e (pa OR perm OR PTE_P) s1"
    and ok2: "pages_ok s2" "pgdir_ok s2 pgdir" "vm_frame s s2"
    and one: "\<And>va'. tree_slot (PDX va') \<Longrightarrow> pte_of s2 pgdir va' =
      (if PTE_ADDR va' = PTE_ADDR va then pa OR perm OR PTE_P else pte_of s pgdir va')"
    and pg: "\<And>i. i \<notin> set (free_pages s) \<Longrightarrow> pages s2 i = pages s i"
    and hp: "\<And>i. has_pt s2 pgdir i \<longleftrightarrow> has_pt s pgdir i \<or> i = PDX va"
    and fp: "free_pages s2 = (if has_pt s pgdir (PDX va) then free_pages s else tl (free_pages s))"
    by blast
  have i: "i < sz" "unat (i + PGSIZE) = unat i + 4096"
    using Suc.prems(7,8,9) by (simp_all add: word_less_nat_alt unat_word_ariths)
  have al: "PGOFF (va + PGSIZE) = 0" using Suc.prems(3) by (rule PGOFF_next)
  have sub: "missing_pts s2 pgdir (va + PGSIZE) n = missing_pts s pgdir (va + PGSIZE) n - {PDX va}"
    using hp by (auto simp: missing_pts_def)
  have card2: "card (missing_pts s2 pgdir (va + PGSIZE) n) \<le> length (free_pages s2)"
  proof (cases "has_pt s pgdir (PDX va)")
    case True
    then have "card (missing_pts s pgdir (va + PGSIZE) n) \<le> length (free_pages s2)"
      using card1 by (simp add: fp missing_pts_Suc)
    then show ?thesis unfolding sub by (rule order_trans [OF card_Diff1_le])
  next
    case False
    then show ?thesis using card1 by (simp add: sub fp missing_pts_Suc card.insert_remove)
  qed
  have slots: "\<forall>k<n. tree_slot (PDX (va + PGSIZE + of_nat k * PGSIZE))"
  proof (intro allI impI)
    fix k assume "k < n"
    then show "tree_slot (PDX (va + PGSIZE + of_nat k * PGSIZE))"
      using Suc.prems(5) [rule_format, of "Suc k"] by (simp add: algebra_simps)
  qed
  from Suc.IH [OF ok2(1,2) al _ slots card2, of "i + PGSIZE" "pa + PGSIZE"] i Suc.prems(4,7,8,9)
  obtain s' where "boot_map_loop pgdir (va + PGSIZE) sz (pa + PGSIZE) perm (i + PGSIZE) s2 = Some s'"
    and post: "region_post pgdir (va + PGSIZE) n (pa + PGSIZE) perm s2 s'" by auto
  then have "boot_map_loop pgdir va sz pa perm i s = Some s'"
    using i(1) walk s2 by (subst boot_map_loop.simps) simp
  moreover have "region_post pgdir va (Suc n) pa perm s s'"
    by (rule region_post_step [OF post Suc.prems(4,3) t ok2(3) _ one pg])
      (cases "free_pages s", simp_all add: fp, blast)
  ultimately show ?case by blast
qed

text \<open>The whole region, when its size is a multiple of the page size.\<close>

lemma boot_map_region_total:
  assumes "pages_ok s" and "pgdir_ok s pgdir" and "PGOFF va = 0" and "n < 1048576"
    and "\<forall>k<n. tree_slot (PDX (va + of_nat k * PGSIZE))"
    and "card (missing_pts s pgdir va n) \<le> length (free_pages s)"
  shows "\<exists>s'. boot_map_region pgdir va (of_nat n * PGSIZE) pa perm s = Some s' \<and>
    region_post pgdir va n pa perm s s'"
proof -
  have "unat (of_nat n * PGSIZE) = 4096 * n"
    using unat_page2pa [of n] assms(4) by (simp add: page2pa_def push_bit_eq_mult)
  then show ?thesis
    unfolding boot_map_region_def
    using assms by (intro boot_map_loop_total) auto
qed

section \<open>Rounding to pages\<close>

lemma ROUNDDOWN_page: "ROUNDDOWN a PGSIZE = PTE_ADDR a"
proof (rule word_eq_unatI)
  have "a mod PGSIZE \<le> a" by (simp add: word_le_nat_alt unat_mod)
  then show "unat (ROUNDDOWN a PGSIZE) = unat (PTE_ADDR a)"
    by (simp add: ROUNDDOWN_def unat_PTE_ADDR unat_sub unat_mod)
qed

lemma unat_ROUNDUP_page:
  assumes "unat a + 4095 < 4294967296"
  shows "unat (ROUNDUP a PGSIZE) = 4096 * ((unat a + 4095) div 4096)"
proof -
  have "a + PGSIZE - 1 = 4095 + a" by (simp add: algebra_simps)
  moreover have "unat (4095 + a) = unat a + 4095" using assms by (simp add: unat_word_ariths)
  ultimately show ?thesis by (simp add: ROUNDUP_def ROUNDDOWN_page unat_PTE_ADDR minus_mod_eq_mult_div)
qed

section \<open>The check of user pointers\<close>

definition dir_in_range :: "kstate \<Rightarrow> u32 \<Rightarrow> bool" where
  "dir_in_range s pgdir \<longleftrightarrow>
     (\<forall>i<1024. pde_of s pgdir i AND PTE_P \<noteq> 0 \<longrightarrow> PGNUM (pde_of s pgdir i) < npages s)"

lemma or_absorb_iff: "(w :: u32) AND (p OR 1) = p OR 1 \<longleftrightarrow> w AND p = p \<and> w AND 1 \<noteq> 0"
proof
  assume eq: "w AND (p OR 1) = p OR 1"
  have b: "bit w n" if "bit (p OR 1) n" for n
    using arg_cong [OF eq, of "\<lambda>x. bit x n"] that by (simp add: bit_and_iff)
  have "w AND p = p" by (rule bit_word_eqI) (use b in \<open>auto simp: bit_simps\<close>)
  moreover have "odd w" using b [of 0] by (simp add: bit_0 even_or_iff)
  then have "w AND 1 \<noteq> 0" by (simp add: and_one_eq odd_iff_mod_2_eq_one)
  ultimately show "w AND p = p \<and> w AND 1 \<noteq> 0" by simp
next
  assume h: "w AND p = p \<and> w AND 1 \<noteq> 0"
  then have "w AND 1 = 1" by (cases "even w") (simp_all add: and_one_eq even_iff_mod_2_eq_zero odd_iff_mod_2_eq_one)
  with h show "w AND (p OR 1) = p OR 1" by (simp add: bit.conj_disj_distrib)
qed

text \<open>
  What the code tests of one address. The comment above \<^verbatim>\<open>user_mem_check\<close> asks for \<^verbatim>\<open>perm | PTE_P\<close>, as in
  \<open>may_access\<close>; the code looks at the bits of \<open>perm\<close> only.
\<close>

definition user_ok :: "kstate \<Rightarrow> u32 \<Rightarrow> u32 \<Rightarrow> u32 \<Rightarrow> bool" where
  "user_ok s pgdir perm va \<longleftrightarrow>
     pde_of s pgdir (PDX va) AND PTE_P \<noteq> 0 \<and> va < ULIM \<and> pte_of s pgdir va AND perm = perm"

definition may_access :: "kstate \<Rightarrow> u32 \<Rightarrow> u32 \<Rightarrow> u32 \<Rightarrow> bool" where
  "may_access s pgdir perm va \<longleftrightarrow> va < ULIM \<and> pde_of s pgdir (PDX va) AND PTE_P \<noteq> 0 \<and>
     pte_of s pgdir va AND (perm OR PTE_P) = perm OR PTE_P"

lemma user_ok_may_access:
  assumes "perm AND PTE_P \<noteq> 0 \<or> perm \<noteq> 0 \<and> (pte_of s pgdir a AND PTE_P = 0 \<longrightarrow> pte_of s pgdir a = 0)"
  shows "user_ok s pgdir perm a \<longleftrightarrow> may_access s pgdir perm a"
proof -
  let ?w = "pte_of s pgdir a"
  have split: "?w AND (perm OR PTE_P) = perm OR PTE_P \<longleftrightarrow> ?w AND perm = perm \<and> ?w AND PTE_P \<noteq> 0"
    using or_absorb_iff [of ?w perm] by simp
  have "?w AND PTE_P \<noteq> 0" if w: "?w AND perm = perm" and p: "perm AND PTE_P \<noteq> 0"
  proof
    assume "?w AND PTE_P = 0"
    then have "(?w AND PTE_P) AND perm = 0" by simp
    moreover have "(?w AND PTE_P) AND perm = (?w AND perm) AND PTE_P" by (simp only: ac_simps)
    ultimately show False using w p by simp
  qed
  with assms split show ?thesis unfolding user_ok_def may_access_def by auto
qed

lemma pgdir_walk_lookup:
  assumes "dir_in_range s pgdir"
  shows "pgdir_walk pgdir va False s =
    Some (if pde_of s pgdir (PDX va) AND PTE_P = 0 then None else Some (pte_ptr s pgdir va), s)"
proof -
  have "KADDR s (PTE_ADDR (pde_of s pgdir (PDX va))) = Some (PTE_ADDR (pde_of s pgdir (PDX va)) + KERNBASE)"
    if "pde_of s pgdir (PDX va) AND PTE_P \<noteq> 0"
    using assms that by (simp add: dir_in_range_def KADDR_Some_iff)
  then show ?thesis by (simp add: pgdir_walk_def ld_pde pte_ptr_def)
qed

lemma user_mem_check_loop_step:
  assumes "dir_in_range s pgdir"
  shows "user_mem_check_loop pgdir va stop perm start s =
    (if start < stop then
       (if user_ok s pgdir perm start
        then user_mem_check_loop pgdir va stop perm (start + PGSIZE) s
        else Some (- E_FAULT,
          s\<lparr>user_mem_check_addr := (if start = PTE_ADDR va then va else start)\<rparr>))
     else Some (0, s))"
proof -
  have "ld s (pte_ptr s pgdir start) = pte_of s pgdir start"
    if "pde_of s pgdir (PDX start) AND PTE_P \<noteq> 0"
    using that by (simp add: ld_def pte_ptr_phys pte_of_def)
  then show ?thesis
    by (subst user_mem_check_loop.simps)
      (auto simp: pgdir_walk_lookup [OF assms] user_ok_def ROUNDDOWN_page)
qed

text \<open>The loop looks at the pages of the range in order and stops at the first bad one.\<close>

lemma user_mem_check_loop_total:
  assumes "dir_in_range s pgdir" and "unat stop = unat start + 4096 * n"
  shows "user_mem_check_loop pgdir va stop perm start s =
    (case find (\<lambda>a. \<not> user_ok s pgdir perm a) (map (\<lambda>k. start + of_nat k * PGSIZE) [0..<n]) of
       None \<Rightarrow> Some (0, s)
     | Some a \<Rightarrow> Some (- E_FAULT, s\<lparr>user_mem_check_addr := (if a = PTE_ADDR va then va else a)\<rparr>))"
  using assms(2)
proof (induction n arbitrary: start)
  case 0
  then have "\<not> start < stop" by (simp add: word_less_nat_alt)
  with user_mem_check_loop_step [OF assms(1), of va stop perm start] show ?case by simp
next
  case (Suc n)
  have "unat stop < 4294967296" by simp
  with Suc.prems have next_page: "unat (start + PGSIZE) = unat start + 4096" "start < stop"
    by (simp_all add: unat_word_ariths word_less_nat_alt)
  have "map (\<lambda>k. start + of_nat k * PGSIZE) [0..<Suc n] =
      start # map (\<lambda>k. start + PGSIZE + of_nat k * PGSIZE) [0..<n]"
    by (simp add: upt_conv_Cons map_Suc_upt [symmetric] algebra_simps comp_def del: upt_Suc)
  with user_mem_check_loop_step [OF assms(1), of va stop perm start] next_page Suc.prems
    Suc.IH [of "start + PGSIZE"]
  show ?case by simp
qed

text \<open>Bytes and pages of a range that does not wrap around.\<close>

lemma user_ok_page:
  assumes "PTE_ADDR a = PTE_ADDR b"
  shows "user_ok s pgdir perm a = user_ok s pgdir perm b"
proof -
  have lim: "c < ULIM \<longleftrightarrow> PTE_ADDR c < ULIM" for c
    by (simp add: word_less_nat_alt unat_PTE_ADDR minus_mod_eq_mult_div) linarith
  have "PDX a = PDX b" "PTX a = PTX b" using assms by (simp_all add: same_page_iff)
  moreover have "a < ULIM \<longleftrightarrow> b < ULIM" using lim [of a] lim [of b] assms by simp
  ultimately show ?thesis by (simp add: user_ok_def pte_of_def Let_def)
qed

definition range_pages :: "u32 \<Rightarrow> u32 \<Rightarrow> nat" where
  "range_pages va len = (unat va + unat len + 4095) div 4096 - unat va div 4096"

definition page_first :: "u32 \<Rightarrow> nat \<Rightarrow> u32" where
  "page_first va k = (if k = 0 then va else PTE_ADDR va + of_nat k * PGSIZE)"

lemma unat_page_k:
  assumes "unat va div 4096 + k < 1048576"
  shows "unat (PTE_ADDR va + of_nat k * PGSIZE) = 4096 * (unat va div 4096 + k)"
proof -
  have "unat (of_nat k * PGSIZE) = 4096 * k"
    using unat_page2pa [of k] assms by (simp add: page2pa_def push_bit_eq_mult)
  moreover have "unat (PTE_ADDR va) = 4096 * (unat va div 4096)"
    by (simp add: unat_PTE_ADDR minus_mod_eq_mult_div)
  ultimately show ?thesis using assms by (simp add: unat_word_ariths(1))
qed

lemma unat_range_page:
  assumes "unat va + unat len + 4095 < 4294967296" and "k < range_pages va len"
  shows "unat (PTE_ADDR va + of_nat k * PGSIZE) = 4096 * (unat va div 4096 + k)"
proof (rule unat_page_k)
  have "unat va div 4096 + k < (unat va + unat len + 4095) div 4096"
    using assms(2) by (simp add: range_pages_def)
  also have "\<dots> \<le> 1048576" using assms(1) by linarith
  finally show "unat va div 4096 + k < 1048576" .
qed

lemma range_page_first:
  assumes "unat va + unat len + 4095 < 4294967296" and "0 < len" and "k < range_pages va len"
  shows "unat va \<le> unat (page_first va k)" and "unat (page_first va k) < unat va + unat len"
    and "PTE_ADDR (page_first va k) = PTE_ADDR va + of_nat k * PGSIZE"
proof -
  have k: "unat va div 4096 + k < (unat va + unat len + 4095) div 4096"
    using assms(3) by (simp add: range_pages_def)
  have u: "unat (PTE_ADDR va + of_nat k * PGSIZE) = 4096 * (unat va div 4096 + k)"
    using assms(1,3) by (rule unat_range_page)
  have len: "0 < unat len" using assms(2) by (simp add: word_less_nat_alt)
  show "unat va \<le> unat (page_first va k)" "unat (page_first va k) < unat va + unat len"
    using k u len by (simp_all add: page_first_def) linarith+
  show "PTE_ADDR (page_first va k) = PTE_ADDR va + of_nat k * PGSIZE"
  proof (cases k)
    case (Suc j)
    then have "page_first va k = PTE_ADDR va + of_nat k * PGSIZE" by (simp add: page_first_def)
    with u show ?thesis by (intro word_eq_unatI) (simp add: unat_PTE_ADDR)
  qed (simp add: page_first_def)
qed

lemma range_byte_page:
  assumes "unat va + unat len + 4095 < 4294967296" and "unat va \<le> unat a" and "unat a < unat va + unat len"
  obtains k where "k < range_pages va len" "PTE_ADDR a = PTE_ADDR va + of_nat k * PGSIZE"
    "unat (page_first va k) \<le> unat a"
proof -
  define k where "k = unat a div 4096 - unat va div 4096"
  have le: "unat va div 4096 \<le> unat a div 4096" using assms(2) by (rule div_le_mono)
  then have sum: "unat va div 4096 + k = unat a div 4096" by (simp add: k_def)
  have u: "unat (PTE_ADDR va + of_nat k * PGSIZE) = 4096 * (unat a div 4096)"
    using unat_page_k [of va k] sum assms(1,3) by (simp add: less_mult_imp_div_less)
  show ?thesis
  proof (rule that)
    show "k < range_pages va len" using sum assms unfolding range_pages_def by linarith
    show "PTE_ADDR a = PTE_ADDR va + of_nat k * PGSIZE"
      using u by (intro word_eq_unatI) (simp add: unat_PTE_ADDR minus_mod_eq_mult_div)
    show "unat (page_first va k) \<le> unat a" using u assms(2) by (simp add: page_first_def)
  qed
qed

lemma user_mem_check_find:
  assumes "dir_in_range s (env_pgdir (envs s e))" and "unat va + unat len + 4095 < 4294967296"
  shows "user_mem_check e va len perm s =
    (case find (\<lambda>k. \<not> user_ok s (env_pgdir (envs s e)) perm (PTE_ADDR va + of_nat k * PGSIZE))
       [0..<range_pages va len] of
       None \<Rightarrow> Some (0, s)
     | Some k \<Rightarrow> Some (- E_FAULT, s\<lparr>user_mem_check_addr := page_first va k\<rparr>))"
proof -
  let ?bad = "\<lambda>a. \<not> user_ok s (env_pgdir (envs s e)) perm a" and ?pg = "\<lambda>k. PTE_ADDR va + of_nat k * PGSIZE"
  have "unat (va + len) = unat va + unat len" using assms(2) by (simp add: unat_word_ariths)
  then have stop: "unat (ROUNDUP (va + len) PGSIZE) = unat (PTE_ADDR va) + 4096 * range_pages va len"
    using assms(2) by (simp add: unat_ROUNDUP_page unat_PTE_ADDR minus_mod_eq_mult_div range_pages_def
        div_le_mono diff_mult_distrib2)
  have k0: "k = 0" if "k < range_pages va len" "?pg k = PTE_ADDR va" for k
  proof -
    have "unat (?pg k) = 4096 * (unat va div 4096 + k)"
      by (rule unat_range_page [OF assms(2) that(1)])
    with that(2) show ?thesis by (simp add: unat_PTE_ADDR minus_mod_eq_mult_div)
  qed
  have addr: "(if ?pg k = PTE_ADDR va then va else ?pg k) = page_first va k"
    if "k < range_pages va len" for k
    using k0 [OF that] by (auto simp: page_first_def)
  have fmap: "find ?bad (map ?pg ks) = map_option ?pg (find (\<lambda>k. ?bad (?pg k)) ks)" for ks
    by (induction ks) auto
  note loop = user_mem_check_loop_total [OF assms(1) stop, of va perm, unfolded fmap]
  show ?thesis
  proof (cases "find (\<lambda>k. ?bad (?pg k)) [0..<range_pages va len]")
    case None
    then show ?thesis using loop unfolding user_mem_check_def ROUNDDOWN_page by simp
  next
    case (Some k)
    then have "k < range_pages va len" by (auto simp: find_Some_iff)
    from Some addr [OF this] show ?thesis
      using loop unfolding user_mem_check_def ROUNDDOWN_page
      by (simp only: option.map option.case)
  qed
qed

lemma user_mem_check_bytes:
  fixes perm :: u32
  assumes dir: "dir_in_range s (env_pgdir (envs s e))"
    and nowrap: "unat va + unat len + 4095 < 4294967296" and len: "0 < len"
  defines "ok \<equiv> user_ok s (env_pgdir (envs s e)) perm"
  shows "user_mem_check e va len perm s = Some (0, s) \<and>
      (\<forall>a. unat va \<le> unat a \<and> unat a < unat va + unat len \<longrightarrow> ok a) \<or>
    (\<exists>b. user_mem_check e va len perm s = Some (- E_FAULT, s\<lparr>user_mem_check_addr := b\<rparr>) \<and>
      unat va \<le> unat b \<and> unat b < unat va + unat len \<and> \<not> ok b \<and>
      (\<forall>a. unat va \<le> unat a \<and> unat a < unat b \<longrightarrow> ok a))"
proof -
  let ?pg = "\<lambda>k. PTE_ADDR va + of_nat k * PGSIZE"
  note first = range_page_first [OF nowrap len]
  have page: "ok a = ok (?pg k)" if "PTE_ADDR a = ?pg k" for a k
    unfolding ok_def by (rule user_ok_page) (metis that PTE_ADDR_idem)
  show ?thesis
  proof (cases "find (\<lambda>k. \<not> ok (?pg k)) [0..<range_pages va len]")
    case None
    then have all: "ok (?pg k)" if "k < range_pages va len" for k
      using that by (auto simp: find_None_iff)
    have "ok a" if "unat va \<le> unat a" "unat a < unat va + unat len" for a
      using nowrap that by (rule range_byte_page) (use page all in blast)
    with None user_mem_check_find [OF dir nowrap, of perm] show ?thesis by (simp add: ok_def)
  next
    case (Some k)
    then have k: "k < range_pages va len" "\<not> ok (?pg k)" "\<And>j. j < k \<Longrightarrow> ok (?pg j)"
      by (auto simp: find_Some_iff)
    have "ok a" if a: "unat va \<le> unat a" "unat a < unat (page_first va k)" for a
    proof -
      have "unat a < unat va + unat len" using a(2) first(2) [OF k(1)] by simp
      with nowrap a(1) obtain j where j: "j < range_pages va len" "PTE_ADDR a = ?pg j"
        "unat (page_first va j) \<le> unat a" by (rule range_byte_page)
      have "j < k"
      proof (rule ccontr)
        assume "\<not> j < k"
        have "unat (?pg i) = 4096 * (unat va div 4096 + i)" if "i < range_pages va len" for i
          by (rule unat_range_page [OF nowrap that])
        with j k(1) \<open>\<not> j < k\<close> a show False by (auto simp: page_first_def split: if_splits)
      qed
      with k(3) page j(2) show ?thesis by blast
    qed
    moreover have "\<not> ok (page_first va k)" using k(2) page first(3) [OF k(1)] by blast
    ultimately show ?thesis
      using Some user_mem_check_find [OF dir nowrap, of perm] first(1,2) [OF k(1)]
      by (intro disjI2 exI [of _ "page_first va k"]) (simp add: ok_def)
  qed
qed

section \<open>The MMIO window\<close>

lemma region_bytes:
  assumes "unat pa + unat sz + 4095 < 4294967296"
  shows "ROUNDUP (pa + sz) PGSIZE - ROUNDDOWN pa PGSIZE = of_nat (range_pages pa sz) * PGSIZE"
proof (rule word_eq_unatI)
  have "unat (pa + sz) = unat pa + unat sz" using assms by (simp add: unat_word_ariths)
  then have up: "unat (ROUNDUP (pa + sz) PGSIZE) = 4096 * ((unat pa + unat sz + 4095) div 4096)"
    using assms by (simp add: unat_ROUNDUP_page)
  have down: "unat (ROUNDDOWN pa PGSIZE) = 4096 * (unat pa div 4096)"
    by (simp add: ROUNDDOWN_page unat_PTE_ADDR minus_mod_eq_mult_div)
  have "ROUNDDOWN pa PGSIZE \<le> ROUNDUP (pa + sz) PGSIZE"
    by (simp add: word_le_nat_alt up down div_le_mono)
  then have "unat (ROUNDUP (pa + sz) PGSIZE - ROUNDDOWN pa PGSIZE) = 4096 * range_pages pa sz"
    by (simp add: unat_sub up down range_pages_def diff_mult_distrib2)
  moreover have "range_pages pa sz < 1048576" using assms unfolding range_pages_def by linarith
  then have "unat (of_nat (range_pages pa sz) * PGSIZE) = 4096 * range_pages pa sz"
    using unat_page2pa [of "range_pages pa sz"] by (simp add: page2pa_def push_bit_eq_mult)
  ultimately show "unat (ROUNDUP (pa + sz) PGSIZE - ROUNDDOWN pa PGSIZE) =
      unat (of_nat (range_pages pa sz) * PGSIZE)" by simp
qed

lemma mmio_map_region_total:
  assumes ok: "pages_ok s" and pd: "pgdir_ok s (kern_pgdir s)" and al: "PGOFF (mmio_base s) = 0"
    and nowrap: "unat pa + unat sz + 4095 < 4294967296"
    and fits: "MMIOBASE \<le> mmio_base s" "unat (mmio_base s) + 4096 * range_pages pa sz < unat MMIOLIM"
    and mem: "card (missing_pts s (kern_pgdir s) (mmio_base s) (range_pages pa sz)) \<le> length (free_pages s)"
  shows "\<exists>s'. mmio_map_region pa sz s =
      Some (mmio_base s, s'\<lparr>mmio_base := mmio_base s + of_nat (range_pages pa sz) * PGSIZE\<rparr>) \<and>
    region_post (kern_pgdir s) (mmio_base s) (range_pages pa sz) (PTE_ADDR pa)
      (PTE_PCD OR PTE_PWT OR PTE_W) s s'"
proof -
  let ?n = "range_pages pa sz"
  have n: "?n < 1024" using fits by (simp add: word_le_nat_alt)
  have u: "unat (mmio_base s + of_nat k * PGSIZE) = unat (mmio_base s) + 4096 * k" if "k \<le> ?n" for k
  proof -
    have "unat (of_nat k * PGSIZE) = 4096 * k"
      using unat_page2pa [of k] n that by (simp add: page2pa_def push_bit_eq_mult)
    then show ?thesis using that fits by (simp add: unat_word_ariths(1))
  qed
  have "tree_slot (PDX (mmio_base s + of_nat k * PGSIZE))" if "k < ?n" for k
  proof -
    have "958 \<le> (unat (mmio_base s) + 4096 * k) div 4194304"
      using fits(1) by (simp add: word_le_nat_alt)
    then have "unat (PDX (mmio_base s + of_nat k * PGSIZE)) \<noteq> unat (PDX UVPT)"
      using that by (simp add: unat_PDX u)
    then show ?thesis by (auto simp: tree_slot_def)
  qed
  with boot_map_region_total [OF ok pd al _ _ mem, of "PTE_ADDR pa" "PTE_PCD OR PTE_PWT OR PTE_W"] n
  obtain s' where s': "boot_map_region (kern_pgdir s) (mmio_base s) (of_nat ?n * PGSIZE) (PTE_ADDR pa)
      (PTE_PCD OR PTE_PWT OR PTE_W) s = Some s'"
    and post: "region_post (kern_pgdir s) (mmio_base s) ?n (PTE_ADDR pa) (PTE_PCD OR PTE_PWT OR PTE_W) s s'"
    by auto
  have base: "mmio_base s' = mmio_base s"
    using post vm_frame_fields(11) by (auto simp: region_post_def)
  have "\<not> mmio_base s + of_nat ?n * PGSIZE \<ge> MMIOLIM"
    using u [of ?n] fits(2) by (simp add: word_le_nat_alt)
  with s' base post show ?thesis
    by (intro exI [of _ s'])
      (simp add: mmio_map_region_def Let_def region_bytes [OF nowrap, unfolded ROUNDDOWN_page [of pa]]
        ROUNDDOWN_page [of pa])
qed

end
