(* ===== verification/Vmem.thy ===== *)
theory Vmem
  imports Regions
begin

text \<open>
  Memory as the running CPU sees it: translation of a linear address through the directory
  in \<^verbatim>\<open>cr3\<close>, with the write-protect bit of \<^verbatim>\<open>cr0\<close> set as \<^verbatim>\<open>mem_init\<close> leaves it, byte and word
  accesses through it, and the library routines \<^verbatim>\<open>memmove\<close> and \<^verbatim>\<open>memset\<close> on such addresses.
  An access that faults inside the kernel is a panic (\<^term>\<open>None\<close>). Translations are not cached.
\<close>

section \<open>Translation\<close>

definition mmu :: "bool \<Rightarrow> u32 \<Rightarrow> kstate \<Rightarrow> u32 option" where
  "mmu write va s =
     (let pde = phys s (PTE_ADDR (cr3 s (cpunum_reg s)) + 4 * PDX va);
          pte = phys s (PTE_ADDR pde + 4 * PTX va)
      in if pde AND PTE_P = 0 \<or> pte AND PTE_P = 0 then None
         else if write \<and> (pde AND PTE_W = 0 \<or> pte AND PTE_W = 0) then None
         else Some (PTE_ADDR pte OR PGOFF va))"

definition vld8 :: "u32 \<Rightarrow> kstate \<Rightarrow> u8 option" where
  "vld8 va s = do { pa \<leftarrow> mmu False va s; Some (ld8 (phys s) pa) }"

definition vst8 :: "u32 \<Rightarrow> u8 \<Rightarrow> kstate \<Rightarrow> kstate option" where
  "vst8 va b s = do { pa \<leftarrow> mmu True va s; Some (s\<lparr>phys := st8 pa b (phys s)\<rparr>) }"

text \<open>Little-endian accesses of wider values, at any alignment.\<close>

definition vld32 :: "u32 \<Rightarrow> kstate \<Rightarrow> u32 option" where
  "vld32 va s = do {
     b0 \<leftarrow> vld8 va s; b1 \<leftarrow> vld8 (va + 1) s; b2 \<leftarrow> vld8 (va + 2) s; b3 \<leftarrow> vld8 (va + 3) s;
     Some (ucast b0 OR push_bit 8 (ucast b1) OR push_bit 16 (ucast b2) OR push_bit 24 (ucast b3))}"

definition vld16 :: "u32 \<Rightarrow> kstate \<Rightarrow> u32 option" where
  "vld16 va s = do {
     b0 \<leftarrow> vld8 va s; b1 \<leftarrow> vld8 (va + 1) s;
     Some (ucast b0 OR push_bit 8 (ucast b1))}"

definition vst32 :: "u32 \<Rightarrow> u32 \<Rightarrow> kstate \<Rightarrow> kstate option" where
  "vst32 va w s =
     foldM (\<lambda>k s. vst8 (va + of_nat k) (ucast (drop_bit (8 * k) w)) s) [0, 1, 2, 3] s"

section \<open>memmove and memset\<close>

primrec copy_up :: "nat \<Rightarrow> u32 \<Rightarrow> u32 \<Rightarrow> kstate \<Rightarrow> kstate option" where
  "copy_up 0 d src s = Some s"
| "copy_up (Suc n) d src s = do {
     b \<leftarrow> vld8 src s;
     s \<leftarrow> vst8 d b s;
     copy_up n (d + 1) (src + 1) s}"

primrec copy_down :: "nat \<Rightarrow> u32 \<Rightarrow> u32 \<Rightarrow> kstate \<Rightarrow> kstate option" where
  "copy_down 0 d src s = Some s"
| "copy_down (Suc n) d src s = do {
     b \<leftarrow> vld8 (src - 1) s;
     s \<leftarrow> vst8 (d - 1) b s;
     copy_down n (d - 1) (src - 1) s}"

definition memmove :: "u32 \<Rightarrow> u32 \<Rightarrow> u32 \<Rightarrow> kstate \<Rightarrow> kstate option" where
  "memmove dst src n s =
     (if src < dst \<and> src + n > dst then copy_down (unat n) (dst + n) (src + n) s
      else copy_up (unat n) dst src s)"

definition memset :: "u32 \<Rightarrow> u8 \<Rightarrow> u32 \<Rightarrow> kstate \<Rightarrow> kstate option" where
  "memset v c n s = foldM (\<lambda>k s. vst8 (v + of_nat k) c s) [0..<unat n] s"

section \<open>Frame\<close>

lemma vst8_state: "vst8 va b s = Some s' \<Longrightarrow> \<exists>m. s' = s\<lparr>phys := m\<rparr>"
  by (auto simp: vst8_def bind_eq_Some_conv)

lemma foldM_frame:
  assumes "\<And>x s s'. f x s = Some s' \<Longrightarrow> \<exists>m. s' = s\<lparr>phys := m\<rparr>" and "foldM f xs s = Some s'"
  shows "\<exists>m. s' = (s :: kstate)\<lparr>phys := m\<rparr>"
  using assms(2)
proof (induction xs arbitrary: s)
  case Nil
  then have "s' = s\<lparr>phys := phys s\<rparr>" by simp
  then show ?case by blast
next
  case (Cons x xs)
  then obtain s1 where s1: "f x s = Some s1" "foldM f xs s1 = Some s'" by (auto simp: bind_eq_Some_conv)
  from assms(1) [OF s1(1)] Cons.IH [OF s1(2)] show ?case by auto
qed

lemma vst32_state: "vst32 va w s = Some s' \<Longrightarrow> \<exists>m. s' = s\<lparr>phys := m\<rparr>"
  unfolding vst32_def by (erule foldM_frame [rotated]) (auto dest: vst8_state)

lemma memset_state: "memset v c n s = Some s' \<Longrightarrow> \<exists>m. s' = s\<lparr>phys := m\<rparr>"
  unfolding memset_def by (erule foldM_frame [rotated]) (auto dest: vst8_state)

lemma copy_up_state: "copy_up n d src s = Some s' \<Longrightarrow> \<exists>m. s' = s\<lparr>phys := m\<rparr>"
proof (induction n arbitrary: d src s)
  case 0
  then have "s' = s\<lparr>phys := phys s\<rparr>" by simp
  then show ?case by blast
next
  case (Suc n)
  then obtain b s1 where s1: "vst8 d b s = Some s1" "copy_up n (d + 1) (src + 1) s1 = Some s'"
    by (auto simp: bind_eq_Some_conv)
  from vst8_state [OF s1(1)] Suc.IH [OF s1(2)] show ?case by auto
qed

lemma copy_down_state: "copy_down n d src s = Some s' \<Longrightarrow> \<exists>m. s' = s\<lparr>phys := m\<rparr>"
proof (induction n arbitrary: d src s)
  case 0
  then have "s' = s\<lparr>phys := phys s\<rparr>" by simp
  then show ?case by blast
next
  case (Suc n)
  then obtain b s1 where s1: "vst8 (d - 1) b s = Some s1" "copy_down n (d - 1) (src - 1) s1 = Some s'"
    by (auto simp: bind_eq_Some_conv)
  from vst8_state [OF s1(1)] Suc.IH [OF s1(2)] show ?case by auto
qed

lemma memmove_state: "memmove dst src n s = Some s' \<Longrightarrow> \<exists>m. s' = s\<lparr>phys := m\<rparr>"
  by (auto simp: memmove_def dest: copy_up_state copy_down_state split: if_splits)

end
