(* ===== verification/Locks.thy ===== *)
theory Locks
  imports Kstate
begin

text \<open>
  Spin locks of \<^verbatim>\<open>kern/spinlock.c\<close> in two views. The first is the effect of the lock calls on
  the kernel state as the handlers of one CPU see it: taking a lock that another CPU holds
  leaves the CPU spinning, taking or releasing it in the wrong state panics. The second is a
  step relation of many CPUs, one atomic access per step, in which mutual exclusion is an
  invariant of every interleaving.

  The theory also fixes how a kernel path can end: it returns to its caller, or it leaves for
  user mode, for the halt loop, for the monitor's endless loop, or it spins on the lock.
\<close>

section \<open>How a kernel path ends\<close>

datatype kexit = ToUser nat | Halted | InMonitor | Spinning | Stopped

datatype 'a kout = Returns 'a kstate | Leaves kexit kstate

primrec kthen :: "'a kout \<Rightarrow> ('a \<Rightarrow> kstate \<Rightarrow> 'b kout option) \<Rightarrow> 'b kout option" where
  "kthen (Returns x s) f = f x s"
| "kthen (Leaves x s) f = Some (Leaves x s)"

definition kbind :: "'a kout option \<Rightarrow> ('a \<Rightarrow> kstate \<Rightarrow> 'b kout option) \<Rightarrow> 'b kout option" where
  "kbind m f = (case m of None \<Rightarrow> None | Some r \<Rightarrow> kthen r f)"

lemma kbind_simps [simp]:
  "kbind None f = None"
  "kbind (Some (Returns x s)) f = f x s"
  "kbind (Some (Leaves e s)) f = Some (Leaves e s)"
  by (simp_all add: kbind_def)

lemma kbind_eq_Returns:
  "kbind m f = Some (Returns y s') \<longleftrightarrow> (\<exists>x s. m = Some (Returns x s) \<and> f x s = Some (Returns y s'))"
  by (cases m; simp; cases "the m") auto

section \<open>Lock calls\<close>

definition holding :: "spinlock \<Rightarrow> nat \<Rightarrow> bool" where
  "holding lk cpu \<longleftrightarrow> locked lk \<noteq> 0 \<and> lk_cpu lk = Some cpu"

definition spin_initlock :: "spinlock \<Rightarrow> spinlock" where
  "spin_initlock lk = lk\<lparr>locked := 0, lk_cpu := None\<rparr>"

definition lock_kernel :: "kstate \<Rightarrow> unit kout option" where
  "lock_kernel s =
     (if holding (kernel_lock s) (cpunum_reg s) then None
      else if locked (kernel_lock s) \<noteq> 0 then
        Some (Leaves Spinning (s\<lparr>kernel_lock := (kernel_lock s)\<lparr>locked := 1\<rparr>\<rparr>))
      else Some (Returns () (s\<lparr>kernel_lock := \<lparr>locked = 1, lk_cpu = Some (cpunum_reg s)\<rparr>\<rparr>)))"

definition unlock_kernel :: "kstate \<Rightarrow> kstate option" where
  "unlock_kernel s =
     (if \<not> holding (kernel_lock s) (cpunum_reg s) then None
      else Some (s\<lparr>kernel_lock := \<lparr>locked = 0, lk_cpu = None\<rparr>\<rparr>))"

lemma lock_unlock:
  "lock_kernel s = Some (Returns u s') \<Longrightarrow>
   \<exists>s''. unlock_kernel s' = Some s'' \<and> s'' = s\<lparr>kernel_lock := \<lparr>locked = 0, lk_cpu = None\<rparr>\<rparr>"
  by (auto simp: lock_kernel_def unlock_kernel_def holding_def split: if_splits)

section \<open>Interleaved CPUs\<close>

text \<open>
  Where a CPU is: outside; at the exchange loop of \<^verbatim>\<open>spin_lock\<close>; past the exchange but not
  yet recorded as holder; in the critical section; in \<^verbatim>\<open>spin_unlock\<close> after the holder was
  cleared; or in a panic of one of the two debugging checks.
\<close>

datatype lpc = Outside | Trying | Acquired | Critical | Releasing | Panicked

record lstate =
  lk :: spinlock
  lpc_of :: "nat \<Rightarrow> lpc"

definition goto :: "nat \<Rightarrow> lpc \<Rightarrow> lstate \<Rightarrow> lstate" where
  "goto c p s = s\<lparr>lpc_of := (lpc_of s)(c := p)\<rparr>"

inductive lstep :: "lstate \<Rightarrow> lstate \<Rightarrow> bool" where
  lock_call: "lpc_of s c = Outside \<Longrightarrow> \<not> holding (lk s) c \<Longrightarrow> lstep s (goto c Trying s)"
| lock_panic: "lpc_of s c = Outside \<Longrightarrow> holding (lk s) c \<Longrightarrow> lstep s (goto c Panicked s)"
| xchg_busy: "lpc_of s c = Trying \<Longrightarrow> locked (lk s) \<noteq> 0 \<Longrightarrow> lstep s (s\<lparr>lk := (lk s)\<lparr>locked := 1\<rparr>\<rparr>)"
| xchg_free: "lpc_of s c = Trying \<Longrightarrow> locked (lk s) = 0 \<Longrightarrow>
    lstep s (goto c Acquired (s\<lparr>lk := (lk s)\<lparr>locked := 1\<rparr>\<rparr>))"
| record_cpu: "lpc_of s c = Acquired \<Longrightarrow> lstep s (goto c Critical (s\<lparr>lk := (lk s)\<lparr>lk_cpu := Some c\<rparr>\<rparr>))"
| unlock_panic: "lpc_of s c = Critical \<Longrightarrow> \<not> holding (lk s) c \<Longrightarrow> lstep s (goto c Panicked s)"
| clear_cpu: "lpc_of s c = Critical \<Longrightarrow> holding (lk s) c \<Longrightarrow>
    lstep s (goto c Releasing (s\<lparr>lk := (lk s)\<lparr>lk_cpu := None\<rparr>\<rparr>))"
| xchg_release: "lpc_of s c = Releasing \<Longrightarrow>
    lstep s (goto c Outside (s\<lparr>lk := (lk s)\<lparr>locked := 0\<rparr>\<rparr>))"

inductive_cases lstepE: "lstep s s'"

inductive lreach :: "lstate \<Rightarrow> bool" where
  init: "lreach \<lparr>lk = \<lparr>locked = 0, lk_cpu = None\<rparr>, lpc_of = (\<lambda>_. Outside)\<rparr>"
| step: "lreach s \<Longrightarrow> lstep s s' \<Longrightarrow> lreach s'"

definition owns :: "lpc \<Rightarrow> bool" where
  "owns p \<longleftrightarrow> p = Acquired \<or> p = Critical \<or> p = Releasing"

definition owner :: "lstate \<Rightarrow> nat \<Rightarrow> bool" where
  "owner s c \<longleftrightarrow> owns (lpc_of s c) \<and> (\<forall>d. d \<noteq> c \<longrightarrow> \<not> owns (lpc_of s d)) \<and>
     lk_cpu (lk s) = (if lpc_of s c = Critical then Some c else None)"

definition lock_inv :: "lstate \<Rightarrow> bool" where
  "lock_inv s \<longleftrightarrow>
     (\<forall>c. lpc_of s c \<noteq> Panicked) \<and>
     (if locked (lk s) = 0 then lk_cpu (lk s) = None \<and> (\<forall>c. \<not> owns (lpc_of s c))
      else \<exists>c. owner s c)"

lemma owns_simps [simp]:
  "owns Acquired" "owns Critical" "owns Releasing" "\<not> owns Outside" "\<not> owns Trying" "\<not> owns Panicked"
  by (simp_all add: owns_def)

text \<open>A CPU past the exchange is the owner.\<close>

lemma lock_inv_owner:
  assumes "lock_inv s" and "owns (lpc_of s c)"
  shows "locked (lk s) \<noteq> 0" and "owner s c"
proof -
  show l: "locked (lk s) \<noteq> 0" using assms by (auto simp: lock_inv_def)
  from assms(1) l obtain d where d: "owner s d" by (auto simp: lock_inv_def)
  with assms(2) have "c = d" by (auto simp: owner_def)
  with d show "owner s c" by simp
qed

lemma lock_inv_moves:
  assumes "lock_inv s" and "\<not> owns (lpc_of s c)" and "\<not> owns p" and "p \<noteq> Panicked"
  shows "lock_inv (goto c p s)"
proof (cases "locked (lk s) = 0")
  case True
  with assms show ?thesis by (simp add: lock_inv_def goto_def)
next
  case False
  with assms(1) obtain d where d: "owner s d" by (auto simp: lock_inv_def)
  with assms(2) have "c \<noteq> d" by (auto simp: owner_def)
  with d assms(3) have "owner (goto c p s) d" by (auto simp: owner_def goto_def)
  with assms False show ?thesis by (auto simp: lock_inv_def goto_def)
qed

lemma lock_inv_step:
  assumes inv: "lock_inv s" and st: "lstep s s'"
  shows "lock_inv s'"
  using st
proof cases
  case (lock_call c)
  with inv show ?thesis by (simp add: lock_inv_moves)
next
  case (lock_panic c)
  with inv show ?thesis by (auto simp: lock_inv_def holding_def owner_def split: if_splits)
next
  case (xchg_busy c)
  with inv show ?thesis by (auto simp: lock_inv_def owner_def)
next
  case (xchg_free c)
  with inv have "owner s' c" by (simp add: lock_inv_def owner_def goto_def)
  with inv xchg_free show ?thesis by (auto simp: lock_inv_def goto_def)
next
  case (record_cpu c)
  with lock_inv_owner [OF inv, of c] have "owner s' c" "locked (lk s) \<noteq> 0"
    by (simp_all add: owner_def goto_def)
  with inv record_cpu show ?thesis by (auto simp: lock_inv_def goto_def)
next
  case (unlock_panic c)
  with lock_inv_owner [OF inv, of c] show ?thesis by (auto simp: holding_def owner_def)
next
  case (clear_cpu c)
  with lock_inv_owner [OF inv, of c] have "owner s' c" "locked (lk s) \<noteq> 0"
    by (simp_all add: owner_def goto_def)
  with inv clear_cpu show ?thesis by (auto simp: lock_inv_def goto_def)
next
  case (xchg_release c)
  with lock_inv_owner [OF inv, of c] inv show ?thesis by (auto simp: lock_inv_def goto_def owner_def)
qed

lemma lock_inv_reach: "lreach s \<Longrightarrow> lock_inv s"
proof (induction rule: lreach.induct)
  case init
  show ?case by (simp add: lock_inv_def)
next
  case (step s s')
  then show ?case by (blast intro: lock_inv_step)
qed

lemma lock_inv_exclusive:
  "lock_inv s \<Longrightarrow> owns (lpc_of s c) \<Longrightarrow> owns (lpc_of s d) \<Longrightarrow> c = d"
  using lock_inv_owner(2) by (auto simp: owner_def)

end
