(* ===== verification/Envs.thy ===== *)
theory Envs
  imports Vmem Locks
begin

text \<open>
  Environments of \<^verbatim>\<open>kern/env.c\<close>: naming, the free list, creation of an address space,
  allocation, loading of a program, destruction and the switch to user mode. A
  \<^verbatim>\<open>struct Env *\<close> result is an index; an error return is on the left of a sum. Diagnostics
  printed with \<^verbatim>\<open>cprintf\<close> are left out.
\<close>

section \<open>Naming\<close>

abbreviation (input) ENVGENSHIFT :: nat where "ENVGENSHIFT \<equiv> 12"

definition ENVX :: "u32 \<Rightarrow> nat" where
  "ENVX envid = unat (envid AND 1023)"

text \<open>
  The environment stored through \<^verbatim>\<open>env_store\<close> may be the null \<^verbatim>\<open>curenv\<close> when \<open>envid\<close> is zero.
\<close>

definition envid2env :: "u32 \<Rightarrow> bool \<Rightarrow> kstate \<Rightarrow> (u32 + nat option) option" where
  "envid2env envid checkperm s =
     (if envid = 0 then Some (Inr (curenv s))
      else let e = ENVX envid in
        if env_status (envs s e) = ENV_FREE \<or> env_id (envs s e) \<noteq> envid then Some (Inl (- E_BAD_ENV))
        else if checkperm \<and> curenv s \<noteq> Some e then
          (case curenv s of
             None \<Rightarrow> None
           | Some c \<Rightarrow>
               if env_parent_id (envs s e) \<noteq> env_id (envs s c) then Some (Inl (- E_BAD_ENV))
               else Some (Inr (Some e)))
        else Some (Inr (Some e)))"

section \<open>The table\<close>

definition env_init_step :: "nat \<Rightarrow> kstate \<Rightarrow> kstate" where
  "env_init_step i s =
     (upd_env i (\<lambda>e. e\<lparr>env_id := 0, env_status := ENV_FREE, env_link := env_free_list s\<rparr>) s)
       \<lparr>env_free_list := Some i\<rparr>"

text \<open>The per-CPU part only loads segment registers.\<close>

definition env_init :: "kstate \<Rightarrow> kstate" where
  "env_init s = fold env_init_step (rev [0..<NENV]) (s\<lparr>env_free_list := None\<rparr>)"

section \<open>Allocation\<close>

definition env_setup_vm :: "nat \<Rightarrow> kstate \<Rightarrow> (u32 \<times> kstate) option" where
  "env_setup_vm e s = do {
     (p, s) \<leftarrow> page_alloc ALLOC_ZERO s;
     (case p of
        None \<Rightarrow> Some (- E_NO_MEM, s)
      | Some p \<Rightarrow> do {
          pgdir \<leftarrow> page2kva s p;
          let s = bump_ref p (upd_env e (\<lambda>v. v\<lparr>env_pgdir := pgdir\<rparr>) s);
          let s = fold (\<lambda>i. st (pgdir + 4 * of_nat i) 0) [0..<unat (PDX UTOP)] s;
          let s = fold (\<lambda>i s. st (pgdir + 4 * of_nat i) (ld s (kern_pgdir s + 4 * of_nat i)) s)
                    [unat (PDX UTOP)..<NPDENTRIES] s;
          pa \<leftarrow> PADDR pgdir;
          Some (0, st (pgdir + 4 * PDX UVPT) (pa OR PTE_P OR PTE_U) s)})}"

definition env_generation :: "u32 \<Rightarrow> u32" where
  "env_generation envid =
     (let generation = (envid + push_bit ENVGENSHIFT 1) AND NOT 1023
      in if sint generation \<le> 0 then push_bit ENVGENSHIFT 1 else generation)"

definition tf_user :: Trapframe where
  "tf_user = tf_zero\<lparr>tf_ds := GD_UD OR 3, tf_es := GD_UD OR 3, tf_ss := GD_UD OR 3,
     tf_esp := USTACKTOP, tf_cs := GD_UT OR 3, tf_eflags := FL_IF\<rparr>"

definition env_alloc :: "u32 \<Rightarrow> kstate \<Rightarrow> ((u32 + nat) \<times> kstate) option" where
  "env_alloc parent_id s =
     (case env_free_list s of
        None \<Rightarrow> Some (Inl (- E_NO_FREE_ENV), s)
      | Some e \<Rightarrow> do {
          (r, s) \<leftarrow> env_setup_vm e s;
          (if sint r < 0 then Some (Inl r, s)
           else
             let s = upd_env e (\<lambda>v. v\<lparr>
                   env_id := env_generation (env_id v) OR of_nat e,
                   env_parent_id := parent_id,
                   env_type := ENV_TYPE_USER,
                   env_status := ENV_RUNNABLE,
                   env_runs := 0,
                   env_tf := tf_user,
                   env_pgfault_upcall := 0,
                   env_ipc_recving := False\<rparr>) s
             in Some (Inr e, s\<lparr>env_free_list := env_link (envs s e)\<rparr>))})"

section \<open>Loading a program\<close>

partial_function (option) region_alloc_loop :: "nat \<Rightarrow> u32 \<Rightarrow> u32 \<Rightarrow> kstate \<Rightarrow> kstate option" where
  "region_alloc_loop e i stop s =
     (if i < stop then do {
        r \<leftarrow> page_alloc 0 s;
        (case fst r of
           None \<Rightarrow> None
         | Some p \<Rightarrow> do {
             q \<leftarrow> page_insert (env_pgdir (envs (snd r) e)) p i (PTE_W OR PTE_U) (snd r);
             (if fst q \<noteq> 0 then None else region_alloc_loop e (i + PGSIZE) stop (snd q))})}
      else Some s)"

definition region_alloc :: "nat \<Rightarrow> u32 \<Rightarrow> u32 \<Rightarrow> kstate \<Rightarrow> kstate option" where
  "region_alloc e va len s = region_alloc_loop e (ROUNDDOWN va PGSIZE) (ROUNDUP (va + len) PGSIZE) s"

abbreviation (input) ELF_MAGIC :: u32 where "ELF_MAGIC \<equiv> 0x464C457F"
abbreviation (input) ELF_PROG_LOAD :: u32 where "ELF_PROG_LOAD \<equiv> 1"

text \<open>One program header at address \<open>ph\<close>.\<close>

definition load_segment :: "nat \<Rightarrow> u32 \<Rightarrow> u32 \<Rightarrow> kstate \<Rightarrow> kstate option" where
  "load_segment e binary ph s = do {
     p_type \<leftarrow> vld32 ph s;
     (if p_type = ELF_PROG_LOAD then do {
        p_offset \<leftarrow> vld32 (ph + 4) s;
        p_va \<leftarrow> vld32 (ph + 8) s;
        p_filesz \<leftarrow> vld32 (ph + 16) s;
        p_memsz \<leftarrow> vld32 (ph + 20) s;
        (if p_memsz < p_filesz then None
         else do {
           s \<leftarrow> region_alloc e p_va p_memsz s;
           s \<leftarrow> memmove p_va (binary + p_offset) p_filesz s;
           memset (p_va + p_filesz) 0 (p_memsz - p_filesz) s})}
      else Some s)}"

partial_function (option) load_segments :: "nat \<Rightarrow> u32 \<Rightarrow> u32 \<Rightarrow> u32 \<Rightarrow> kstate \<Rightarrow> kstate option" where
  "load_segments e binary ph eph s =
     (if ph < eph then do {
        s \<leftarrow> load_segment e binary ph s;
        load_segments e binary (ph + 32) eph s}
      else Some s)"

definition load_icode :: "nat \<Rightarrow> u32 \<Rightarrow> kstate \<Rightarrow> kstate option" where
  "load_icode e binary s = do {
     e_magic \<leftarrow> vld32 binary s;
     (if e_magic \<noteq> ELF_MAGIC then None
      else do {
        e_entry \<leftarrow> vld32 (binary + 24) s;
        (if e_entry = 0 then None
         else do {
           let s = upd_env e (\<lambda>v. v\<lparr>env_tf := (env_tf v)\<lparr>tf_eip := e_entry\<rparr>\<rparr>) s;
           cr \<leftarrow> PADDR (env_pgdir (envs s e));
           let s = lcr3 cr s;
           e_phoff \<leftarrow> vld32 (binary + 28) s;
           e_phnum \<leftarrow> vld16 (binary + 44) s;
           let ph = binary + e_phoff;
           s \<leftarrow> load_segments e binary ph (ph + 32 * e_phnum) s;
           region_alloc e (USTACKTOP - PGSIZE) PGSIZE s})})}"

definition env_create :: "u32 \<Rightarrow> u32 \<Rightarrow> kstate \<Rightarrow> kstate option" where
  "env_create binary type s = do {
     (r, s) \<leftarrow> env_alloc 0 s;
     (case r of
        Inl _ \<Rightarrow> None
      | Inr e \<Rightarrow> do {
          s \<leftarrow> load_icode e binary s;
          Some (upd_env e (\<lambda>v. v\<lparr>env_type := type\<rparr>) s)})}"

section \<open>Destruction\<close>

definition env_free_pte :: "nat \<Rightarrow> nat \<Rightarrow> u32 \<Rightarrow> nat \<Rightarrow> kstate \<Rightarrow> kstate option" where
  "env_free_pte e pdeno pt pteno s =
     (if ld s (pt + 4 * of_nat pteno) AND PTE_P \<noteq> 0
      then page_remove (env_pgdir (envs s e)) (PGADDR (of_nat pdeno) (of_nat pteno) 0) s
      else Some s)"

definition env_free_pde :: "nat \<Rightarrow> nat \<Rightarrow> kstate \<Rightarrow> kstate option" where
  "env_free_pde e pdeno s =
     (let pde = env_pgdir (envs s e) + 4 * of_nat pdeno in
      if ld s pde AND PTE_P = 0 then Some s
      else do {
        let pa = PTE_ADDR (ld s pde);
        pt \<leftarrow> KADDR s pa;
        s \<leftarrow> foldM (env_free_pte e pdeno pt) [0..<NPTENTRIES] s;
        let s = st pde 0 s;
        pp \<leftarrow> pa2page s pa;
        page_decref pp s})"

definition env_free :: "nat \<Rightarrow> kstate \<Rightarrow> kstate option" where
  "env_free e s = do {
     s \<leftarrow> (if curenv s = Some e then do { cr \<leftarrow> PADDR (kern_pgdir s); Some (lcr3 cr s) } else Some s);
     s \<leftarrow> foldM (env_free_pde e) [0..<unat (PDX UTOP)] s;
     pa \<leftarrow> PADDR (env_pgdir (envs s e));
     let s = upd_env e (\<lambda>v. v\<lparr>env_pgdir := 0\<rparr>) s;
     pp \<leftarrow> pa2page s pa;
     s \<leftarrow> page_decref pp s;
     Some ((upd_env e (\<lambda>v. v\<lparr>env_status := ENV_FREE, env_link := env_free_list s\<rparr>) s)
             \<lparr>env_free_list := Some e\<rparr>)}"

section \<open>Switching to user mode\<close>

text \<open>Restoring the registers leaves the kernel; the frame is the one saved in \<^verbatim>\<open>curenv\<close>.\<close>

definition env_pop_tf :: "kstate \<Rightarrow> 'a kout option" where
  "env_pop_tf s =
     (case curenv s of
        None \<Rightarrow> None
      | Some c \<Rightarrow> Some (Leaves (ToUser c) (upd_env c (\<lambda>v. v\<lparr>env_cpunum := cpunum_reg s\<rparr>) s)))"

definition env_run :: "nat \<Rightarrow> kstate \<Rightarrow> 'a kout option" where
  "env_run e s =
     (let s = (case curenv s of
                 None \<Rightarrow> s
               | Some c \<Rightarrow> if env_status (envs s c) = ENV_RUNNING
                           then upd_env c (\<lambda>v. v\<lparr>env_status := ENV_RUNNABLE\<rparr>) s else s);
          s = set_curenv (Some e) s;
          s = upd_env e (\<lambda>v. v\<lparr>env_status := ENV_RUNNING, env_runs := env_runs v + 1\<rparr>) s
      in do {
        cr \<leftarrow> PADDR (env_pgdir (envs s e));
        s \<leftarrow> unlock_kernel (lcr3 cr s);
        env_pop_tf s})"

end
