(* ===== verification/Spaces.thy ===== *)
theory Spaces
  imports Regions
begin

text \<open>
  Several address spaces at once. A set of page directories is well formed when their private
  page tables are disjoint, every page mapped below \<^verbatim>\<open>UTOP\<close> is a data page for all of them, and
  every reference count is at least the number of user mappings of its page. Mapping and
  unmapping in one space keep this invariant and leave every other space alone.
\<close>

section \<open>Definitions\<close>

text \<open>The frames a directory consists of; the private ones serve addresses below \<^verbatim>\<open>UTOP\<close>.\<close>

definition frames :: "kstate \<Rightarrow> u32 \<Rightarrow> u32 set" where
  "frames s d = insert (d - KERNBASE) ((\<lambda>i. PTE_ADDR (pde_of s d i)) ` {i. has_pt s d i})"

definition own_frames :: "kstate \<Rightarrow> u32 \<Rightarrow> u32 set" where
  "own_frames s d =
     insert (d - KERNBASE) ((\<lambda>i. PTE_ADDR (pde_of s d i)) ` {i. has_pt s d i \<and> i < PDX UTOP})"

definition free_frames :: "kstate \<Rightarrow> u32 set" where
  "free_frames s = page2pa ` set (free_pages s)"

text \<open>The user pages of a space that map a given physical page.\<close>

definition mapped :: "kstate \<Rightarrow> u32 \<Rightarrow> nat \<Rightarrow> u32 set" where
  "mapped s d i = {v. PGOFF v = 0 \<and> v < UTOP \<and> pte_of s d v AND PTE_P \<noteq> 0 \<and>
     pte_page (pte_of s d v) = i}"

definition shared_data :: "kstate \<Rightarrow> u32 set \<Rightarrow> nat \<Rightarrow> bool" where
  "shared_data s D i \<longleftrightarrow> (\<forall>d\<in>D. data_page s d i)"

definition spaces_ok :: "kstate \<Rightarrow> u32 set \<Rightarrow> bool" where
  "spaces_ok s D \<longleftrightarrow>
     pages_ok s \<and> finite D \<and> (\<forall>d\<in>D. pgdir_ok s d) \<and>
     (\<forall>d\<in>D. \<forall>d'\<in>D. d \<noteq> d' \<longrightarrow> own_frames s d \<inter> frames s d' = {}) \<and>
     (\<forall>d\<in>D. \<forall>v. v < UTOP \<longrightarrow> pte_of s d v AND PTE_P \<noteq> 0 \<longrightarrow> shared_data s D (pte_page (pte_of s d v))) \<and>
     (\<forall>i. (\<Sum>d\<in>D. card (mapped s d i)) \<le> unat (pp_ref (pages s i)))"

section \<open>Footprints\<close>

lemma user_slot: "v < UTOP \<Longrightarrow> tree_slot (PDX v)" "v < UTOP \<Longrightarrow> PDX v < PDX UTOP"
proof -
  assume "v < UTOP"
  then have "unat (PDX v) < 955" by (simp add: word_less_nat_alt unat_PDX)
  then have lt: "PDX v < 955" by (simp add: word_less_nat_alt)
  have "PDX UTOP = 955" "PDX UVPT = 957" by (simp_all add: word_unat_eq_iff unat_PDX)
  with lt show "tree_slot (PDX v)" "PDX v < PDX UTOP" by (auto simp: tree_slot_def)
qed

lemma frames_simps [simp]: "d - KERNBASE \<in> frames s d" "d - KERNBASE \<in> own_frames s d"
  "has_pt s d i \<Longrightarrow> PTE_ADDR (pde_of s d i) \<in> frames s d"
  by (simp_all add: frames_def own_frames_def)

lemma own_frames_sub: "own_frames s d \<subseteq> frames s d"
  by (auto simp: frames_def own_frames_def)

text \<open>A directory's view only depends on the content of its frames.\<close>

lemma view_footprint:
  assumes pd: "pgdir_ok s d" and ph: "\<And>a. PTE_ADDR a \<in> frames s d \<Longrightarrow> phys s' a = phys s a"
  shows "i < 1024 \<Longrightarrow> pde_of s' d i = pde_of s d i" and "has_pt s' d i = has_pt s d i"
    and "tree_slot (PDX v) \<Longrightarrow> pte_of s' d v = pte_of s d v"
    and "frames s' d = frames s d" and "own_frames s' d = own_frames s d"
proof -
  have al: "PGOFF (d - KERNBASE) = 0" using pgdir_okD(1) [OF pd] by simp
  have p: "phys s' (d - KERNBASE + 4 * i) = phys s (d - KERNBASE + 4 * i)" if "i < 1024" for i
    by (rule ph) (use al that in simp)
  note v = pgdir_view_cong [OF p]
  show pde: "i < 1024 \<Longrightarrow> pde_of s' d i = pde_of s d i" for i by (rule v(1))
  show pt: "has_pt s' d i = has_pt s d i" for i by (rule v(2))
  show "pte_of s' d v = pte_of s d v" if t: "tree_slot (PDX v)"
  proof (cases "has_pt s d (PDX v)")
    case True
    have "phys s' (PTE_ADDR (pde_of s d (PDX v)) + 4 * PTX v)
        = phys s (PTE_ADDR (pde_of s d (PDX v)) + 4 * PTX v)"
      by (rule ph) (use True in simp)
    then show ?thesis by (simp add: pte_of_def pde Let_def)
  next
    case False
    then show ?thesis using t pt pte_of_no_pt by metis
  qed
  show "frames s' d = frames s d" "own_frames s' d = own_frames s d"
    using pde pt by (auto simp: frames_def own_frames_def image_iff)
qed

lemma frames_not_free:
  assumes "pages_ok s" and "pgdir_ok s d" and "a \<in> frames s d"
  shows "a \<notin> free_frames s"
proof -
  have al: "PTE_ADDR (d - KERNBASE) = d - KERNBASE" using pgdir_okD(1) [OF assms(2)] by simp
  from assms(3) consider "a = d - KERNBASE" | i where "has_pt s d i" "a = PTE_ADDR (pde_of s d i)"
    by (auto simp: frames_def)
  then show ?thesis
  proof cases
    case 1
    with al frame_not_free [OF assms(1) pgdir_okD(2) [OF assms(2)]] show ?thesis
      by (auto simp: free_frames_def)
  next
    case (2 i)
    with frame_not_free [OF assms(1) pgdir_okD(3) [OF assms(2) 2(1)]] show ?thesis
      by (auto simp: free_frames_def)
  qed
qed

lemma frame_page: "a \<in> frames s d \<Longrightarrow> PGOFF d = 0 \<Longrightarrow> PTE_ADDR a = a"
  by (auto simp: frames_def)

lemma data_page_iff:
  "data_page s d i \<longleftrightarrow> i < unat (npages s) \<and> i \<notin> set (free_pages s) \<and> pp_link (pages s i) = None \<and>
     page2pa i \<notin> frames s d"
  by (auto simp: data_page_def frames_def image_iff dest: sym)

text \<open>The frames of free pages are those of no other page.\<close>

lemma page2pa_free_iff:
  assumes "pages_ok s" and "p < 1048576"
  shows "page2pa p \<in> free_frames s \<longleftrightarrow> p \<in> set (free_pages s)"
proof
  assume "page2pa p \<in> free_frames s"
  then obtain q where q: "q \<in> set (free_pages s)" "page2pa p = page2pa q" by (auto simp: free_frames_def)
  then have "q < 1048576" using pages_okD(2) [OF assms(1) q(1)] pages_okD(4) [OF assms(1)] by simp
  with q assms(2) page2pa_inj [of p q] show "p \<in> set (free_pages s)" by simp
qed (simp add: free_frames_def)

section \<open>A change to one space\<close>

text \<open>
  What an operation on directory \<open>d\<close> must guarantee for the invariant of all spaces: it writes
  only to private frames of \<open>d\<close> and to pages that were free, frees only data pages and private
  frames of \<open>d\<close>, and lets no count of another page fall behind the mappings of \<open>d\<close>.
\<close>

definition local_change :: "u32 \<Rightarrow> u32 set \<Rightarrow> kstate \<Rightarrow> kstate \<Rightarrow> bool" where
  "local_change d D s s' \<longleftrightarrow>
     pages_ok s' \<and> pgdir_ok s' d \<and> npages s' = npages s \<and>
     (\<forall>a. PTE_ADDR a \<notin> own_frames s d \<union> free_frames s \<longrightarrow> phys s' a = phys s a) \<and>
     own_frames s' d \<subseteq> own_frames s d \<union> free_frames s \<and>
     frames s' d \<subseteq> frames s d \<union> free_frames s \<and>
     (\<forall>i\<in>set (free_pages s'). i \<in> set (free_pages s) \<or> shared_data s D i \<or> page2pa i \<in> own_frames s d) \<and>
     (\<forall>i. i \<notin> set (free_pages s) \<longrightarrow> i \<notin> set (free_pages s') \<longrightarrow> pp_link (pages s' i) = pp_link (pages s i)) \<and>
     (\<forall>v. v < UTOP \<longrightarrow> pte_of s' d v AND PTE_P \<noteq> 0 \<longrightarrow> shared_data s D (pte_page (pte_of s' d v))) \<and>
     (\<forall>i. page2pa i \<notin> own_frames s d \<longrightarrow>
        unat (pp_ref (pages s i)) + card (mapped s' d i) \<le> unat (pp_ref (pages s' i)) + card (mapped s d i))"

lemma local_change_other:
  assumes inv: "spaces_ok s D" and lc: "local_change d D s s'" and d: "d \<in> D" "d' \<in> D" "d' \<noteq> d"
  shows "tree_slot (PDX v) \<Longrightarrow> pte_of s' d' v = pte_of s d' v" and "frames s' d' = frames s d'"
    and "own_frames s' d' = own_frames s d'" and "pgdir_ok s' d'" and "mapped s' d' i = mapped s d' i"
proof -
  have ok: "pages_ok s" "pgdir_ok s d'" using inv d by (auto simp: spaces_ok_def)
  have dis: "own_frames s d \<inter> frames s d' = {}" using inv d by (simp add: spaces_ok_def)
  then have ph: "phys s' a = phys s a" if "PTE_ADDR a \<in> frames s d'" for a
    using lc that frames_not_free [OF ok that] by (auto simp: local_change_def)
  note v = view_footprint [OF ok(2) ph]
  show pte: "tree_slot (PDX v) \<Longrightarrow> pte_of s' d' v = pte_of s d' v" for v by (rule v(3))
  show "frames s' d' = frames s d'" "own_frames s' d' = own_frames s d'" by (rule v(4), simp) (rule v(5), simp)
  show "mapped s' d' i = mapped s d' i" using pte user_slot(1) by (auto simp: mapped_def)
  show "pgdir_ok s' d'"
  proof (rule pgdir_ok_transfer [OF ok(2)])
    show "npages s' = npages s" using lc by (simp add: local_change_def)
    show "phys s' (d' - KERNBASE + 4 * i) = phys s (d' - KERNBASE + 4 * i)" if "i < 1024" for i
      by (rule ph) (use pgdir_okD(1) [OF ok(2)] that in simp)
    fix a assume fr: "frame_ok s a" and a: "PTE_ADDR a = d' - KERNBASE \<or>
        (\<exists>i. has_pt s d' i \<and> PTE_ADDR a = PTE_ADDR (pde_of s d' i))"
    have "unat (PGNUM a) \<notin> set (free_pages s')"
    proof
      assume "unat (PGNUM a) \<in> set (free_pages s')"
      with lc fr have "shared_data s D (unat (PGNUM a)) \<or> page2pa (unat (PGNUM a)) \<in> own_frames s d"
        by (auto simp: local_change_def frame_ok_def)
      moreover have "PTE_ADDR a \<in> frames s d'" using a by auto
      ultimately have "shared_data s D (unat (PGNUM a))" using dis by (auto simp: page2pa_PGNUM)
      with d(2) have "data_page s d' (unat (PGNUM a))" by (simp add: shared_data_def)
      with data_page_distinct [OF ok(1) this a] show False by simp
    qed
    with fr lc show "frame_ok s' a" by (simp add: frame_ok_def local_change_def)
  qed
qed

text \<open>The content of the pages that programs may map stays.\<close>

definition data_kept :: "u32 set \<Rightarrow> kstate \<Rightarrow> kstate \<Rightarrow> bool" where
  "data_kept D s s' \<longleftrightarrow>
     (\<forall>i a. shared_data s D i \<longrightarrow> PTE_ADDR a = page2pa i \<longrightarrow> phys s' a = phys s a)"

lemma shared_data_frame:
  assumes inv: "spaces_ok s D" and d: "d \<in> D" and sh: "shared_data s D i"
  shows "page2pa i \<notin> frames s d" and "page2pa i \<notin> free_frames s" and "i < 1048576"
proof -
  have ok: "pages_ok s" and dp: "data_page s d i" using inv d sh by (auto simp: spaces_ok_def shared_data_def)
  then show i: "i < 1048576" using pages_okD(4) [OF ok] by (simp add: data_page_def)
  show "page2pa i \<notin> frames s d" "page2pa i \<notin> free_frames s"
    using dp page2pa_free_iff [OF ok i] by (simp_all add: data_page_iff)
qed

lemma local_change_kept:
  assumes "spaces_ok s D" and "local_change d D s s'" and "d \<in> D"
  shows "data_kept D s s'"
  unfolding data_kept_def
proof (intro allI impI)
  fix i a assume i: "shared_data s D i" and a: "PTE_ADDR a = page2pa i"
  have "page2pa i \<notin> own_frames s d \<union> free_frames s"
    using shared_data_frame [OF assms(1,3) i] own_frames_sub by blast
  with assms(2) a show "phys s' a = phys s a" by (simp add: local_change_def)
qed

lemma data_kept_same: "phys s' = phys s \<Longrightarrow> data_kept D s s'"
  by (simp add: data_kept_def)

lemma local_change_counts:
  assumes inv: "spaces_ok s D" and lc: "local_change d D s s'" and d: "d \<in> D"
  shows "(\<Sum>d\<in>D. card (mapped s' d i)) \<le> unat (pp_ref (pages s' i))"
proof (cases "page2pa i \<in> own_frames s d")
  case True
  have "\<not> shared_data s D i"
    using True d own_frames_sub [of s d] by (auto simp: shared_data_def data_page_iff)
  moreover have "v \<in> mapped s e i \<longrightarrow> shared_data s D i" if "e \<in> D" for e v
    using inv that by (auto simp: mapped_def spaces_ok_def)
  moreover have "v \<in> mapped s' d i \<longrightarrow> shared_data s D i" for v
    using lc by (auto simp: mapped_def local_change_def)
  ultimately have "mapped s' e i = {}" if "e \<in> D" for e
    using local_change_other(5) [OF inv lc d that] that by (cases "e = d") blast+
  then show ?thesis by simp
next
  case False
  have fin: "finite D" using inv by (simp add: spaces_ok_def)
  have split: "(\<Sum>d\<in>D. f d) = f d + (\<Sum>d\<in>D - {d}. f d)" for f :: "u32 \<Rightarrow> nat"
    by (rule sum.remove [OF fin d])
  have same: "(\<Sum>d'\<in>D - {d}. card (mapped s' d' i)) = (\<Sum>d'\<in>D - {d}. card (mapped s d' i))"
    by (rule sum.cong) (use local_change_other(5) [OF inv lc d] in auto)
  have "(\<Sum>d\<in>D. card (mapped s d i)) \<le> unat (pp_ref (pages s i))"
    using inv by (simp add: spaces_ok_def)
  moreover have "unat (pp_ref (pages s i)) + card (mapped s' d i)
      \<le> unat (pp_ref (pages s' i)) + card (mapped s d i)"
    using lc False by (simp add: local_change_def)
  ultimately show ?thesis unfolding split same by linarith
qed

lemma mapped_not_free:
  assumes "pages_ok s" and "(\<Sum>d\<in>D. card (mapped s d i)) \<le> unat (pp_ref (pages s i))"
    and "finite D" and "d \<in> D" and "v < UTOP" and "pte_of s d v AND PTE_P \<noteq> 0"
    and "pte_page (pte_of s d v) = i"
  shows "i \<notin> set (free_pages s)"
proof -
  have "pte_of s d (PTE_ADDR v) = pte_of s d v"
    using same_page_iff [THEN iffD1, OF PTE_ADDR_idem, of v] by (simp add: pte_of_def Let_def)
  moreover have "PTE_ADDR v < UTOP"
    using assms(5) by (simp add: word_less_nat_alt unat_PTE_ADDR)
  ultimately have "PTE_ADDR v \<in> mapped s d i" using assms(6,7) by (simp add: mapped_def)
  then have "0 < card (mapped s d i)" by (auto simp: card_gt_0_iff)
  also have "\<dots> \<le> (\<Sum>d\<in>D. card (mapped s d i))" using assms(3,4) by (intro member_le_sum) auto
  finally have "pp_ref (pages s i) \<noteq> 0" using assms(2) by auto
  with pages_okD(3) [OF assms(1)] show ?thesis by blast
qed

lemma local_change_data:
  assumes inv: "spaces_ok s D" and lc: "local_change d D s s'" and d: "d \<in> D" and d': "d' \<in> D"
    and v: "v < UTOP" "pte_of s' d' v AND PTE_P \<noteq> 0"
  shows "shared_data s' D (pte_page (pte_of s' d' v))"
proof -
  define i where "i = pte_page (pte_of s' d' v)"
  have ok: "pages_ok s" "finite D" using inv by (auto simp: spaces_ok_def)
  have old: "shared_data s D i"
  proof (cases "d' = d")
    case True
    with lc v show ?thesis by (simp add: local_change_def i_def)
  next
    case False
    with local_change_other(1) [OF inv lc d d' False user_slot(1) [OF v(1)]] v inv d' show ?thesis
      by (auto simp: spaces_ok_def i_def)
  qed
  have nf: "i \<notin> set (free_pages s')"
    using mapped_not_free [OF _ local_change_counts [OF inv lc d] ok(2) d' v] lc
    by (simp add: local_change_def i_def)
  have "data_page s' e i" if e: "e \<in> D" for e
  proof -
    have de: "data_page s e i" using old e by (simp add: shared_data_def)
    have "page2pa i \<notin> free_frames s"
    proof
      assume "page2pa i \<in> free_frames s"
      then obtain j where j: "j \<in> set (free_pages s)" "page2pa i = page2pa j"
        by (auto simp: free_frames_def)
      have "i < 1048576" "j < 1048576"
        using de pages_okD(2,4) [OF ok(1)] j(1) by (auto simp: data_page_def dest: less_le_trans)
      with j de show False by (simp add: page2pa_inj data_page_def)
    qed
    moreover have "frames s' e \<subseteq> frames s e \<union> free_frames s"
      using lc local_change_other(2) [OF inv lc d e] by (cases "e = d") (auto simp: local_change_def)
    ultimately have "page2pa i \<notin> frames s' e" using de by (auto simp: data_page_iff)
    with de nf lc show ?thesis by (simp add: data_page_iff local_change_def)
  qed
  then show ?thesis by (simp add: shared_data_def i_def)
qed

text \<open>A local change keeps the invariant of all spaces.\<close>

lemma local_change_ok:
  assumes inv: "spaces_ok s D" and lc: "local_change d D s s'" and d: "d \<in> D"
  shows "spaces_ok s' D"
proof -
  have sub: "frames s' e \<subseteq> frames s e \<union> free_frames s" "own_frames s' e \<subseteq> own_frames s e \<union> free_frames s"
    if "e \<in> D" for e
    using lc local_change_other(2,3) [OF inv lc d that] by (cases "e = d"; auto simp: local_change_def)+
  have same: "frames s' e = frames s e" "own_frames s' e = own_frames s e" if "e \<in> D" "e \<noteq> d" for e
    using local_change_other(2,3) [OF inv lc d that] by auto
  have nf: "a \<notin> free_frames s" if "a \<in> frames s e" "e \<in> D" for a e
    using that inv by (intro frames_not_free) (auto simp: spaces_ok_def)
  have "own_frames s' e \<inter> frames s' e' = {}" if e: "e \<in> D" "e' \<in> D" "e \<noteq> e'" for e e'
  proof -
    have dis: "own_frames s e \<inter> frames s e' = {}" using inv e by (simp add: spaces_ok_def)
    show ?thesis
    proof (cases "e = d")
      case True
      with sub(2) [OF e(1)] same(1) [OF e(2)] dis nf e show ?thesis by blast
    next
      case False
      with sub(1) [OF e(2)] same(2) [OF e(1)] dis nf [OF _ e(1)] own_frames_sub [of s e] show ?thesis by blast
    qed
  qed
  moreover have "pgdir_ok s' e" if "e \<in> D" for e
    using lc local_change_other(4) [OF inv lc d that] by (cases "e = d") (auto simp: local_change_def)
  moreover have "pages_ok s'" "finite D" using lc inv by (auto simp: local_change_def spaces_ok_def)
  ultimately show ?thesis
    using local_change_counts [OF inv lc d] local_change_data [OF inv lc d] by (simp add: spaces_ok_def)
qed

section \<open>Mapping keeps the invariant\<close>

lemma mapped_upd:
  assumes pte: "\<And>v. tree_slot (PDX v) \<Longrightarrow>
      pte_of s' d v = (if PTE_ADDR v = PTE_ADDR va then e else pte_of s d v)"
    and va: "va < UTOP"
  shows "mapped s' d i = (if e AND PTE_P \<noteq> 0 \<and> pte_page e = i then insert (PTE_ADDR va) (mapped s d i)
      else mapped s d i - {PTE_ADDR va})"
proof -
  have b: "PTE_ADDR va < UTOP" using va by (simp add: word_less_nat_alt unat_PTE_ADDR)
  have "v \<in> mapped s' d i \<longleftrightarrow> PGOFF v = 0 \<and> v < UTOP \<and>
      (if v = PTE_ADDR va then e AND PTE_P \<noteq> 0 \<and> pte_page e = i
       else pte_of s d v AND PTE_P \<noteq> 0 \<and> pte_page (pte_of s d v) = i)" for v
    using pte [OF user_slot(1), of v] by (auto simp: mapped_def)
  with b show ?thesis by (auto simp: mapped_def)
qed

lemma mapped_at:
  "va < UTOP \<Longrightarrow> PTE_ADDR va \<in> mapped s d i \<longleftrightarrow> pte_of s d va AND PTE_P \<noteq> 0 \<and> pte_page (pte_of s d va) = i"
proof -
  assume "va < UTOP"
  then have "PTE_ADDR va < UTOP" by (simp add: word_less_nat_alt unat_PTE_ADDR)
  moreover have "pte_of s d (PTE_ADDR va) = pte_of s d va"
    using same_page_iff [THEN iffD1, OF PTE_ADDR_idem, of va] by (simp add: pte_of_def Let_def)
  ultimately show ?thesis by (simp add: mapped_def)
qed

lemma mapped_le_ref:
  assumes "spaces_ok s D" and "d \<in> D"
  shows "card (mapped s d i) \<le> unat (pp_ref (pages s i))"
proof -
  have "card (mapped s d i) \<le> (\<Sum>d\<in>D. card (mapped s d i))"
    using assms by (intro member_le_sum) (auto simp: spaces_ok_def)
  also have "\<dots> \<le> unat (pp_ref (pages s i))" using assms by (simp add: spaces_ok_def)
  finally show ?thesis .
qed

text \<open>Reference counts as 16-bit words, next to the cardinality they bound.\<close>

lemma unat_u16_less: "unat (r :: u16) < 65536"
  using unsigned_less [where 'a = nat, of r] by simp

lemma ref_decrement: "0 < unat (r :: u16) \<Longrightarrow> unat (r - 1) = unat r - 1"
  by (metis One_nat_def unat_minus_one unat_gt_0)

lemma ref_increment: "unat (r :: u16) < 65535 \<Longrightarrow> unat (r + 1) = unat r + 1"
  by (simp add: unat_word_ariths)

lemma counts_replace:
  fixes r :: u16
  assumes le: "card M \<le> unat r" and fin: "finite M" and no: "i = pp \<Longrightarrow> unat r < 65535"
    and r': "r' = r + (if i = pp then 1 else 0) - (if a \<in> M then 1 else 0)"
  shows "unat r + card (if i = pp then insert a M else M - {a}) \<le> unat r' + card M"
proof (cases "a \<in> M")
  case True
  then have c: "0 < card M" using fin by (auto simp: card_gt_0_iff)
  with le have "unat (r - 1) = unat r - 1" by (intro ref_decrement) simp
  with True fin c le r' show ?thesis by (cases "i = pp") (auto simp: insert_absorb)
next
  case False
  with fin r' no show ?thesis by (cases "i = pp") (simp_all add: ref_increment)
qed

lemma insert_frames:
  assumes post: "insert_post d pp va perm s1 s'" and pd: "pgdir_ok s1 d" and pt: "has_pt s1 d (PDX va)"
    and va: "PDX va < PDX UTOP"
    and hp: "\<And>i. has_pt s1 d i \<longleftrightarrow> has_pt s d i \<or> i = PDX va"
    and pde: "\<And>i. has_pt s d i \<Longrightarrow> pde_of s1 d i = pde_of s d i"
    and new: "\<not> has_pt s d (PDX va) \<Longrightarrow> PTE_ADDR (pde_of s1 d (PDX va)) \<in> free_frames s"
  shows "own_frames s' d \<subseteq> own_frames s d \<union> free_frames s" and "frames s' d \<subseteq> frames s d \<union> free_frames s"
    and "PTE_ADDR (pde_of s1 d (PDX va)) \<in> own_frames s d \<union> free_frames s"
proof -
  have p: "phys s' (d - KERNBASE + 4 * i) = phys s1 (d - KERNBASE + 4 * i)" if "i < 1024" for i
    using post pte_ptr_not_pde [OF pd pt that] by (simp add: insert_post_def)
  note v = pgdir_view_cong [OF p]
  have pt': "has_pt s' d i = has_pt s1 d i" for i by (rule v(2))
  have pde': "pde_of s' d i = pde_of s1 d i" if "has_pt s1 d i" for i
    using v(1) that has_pt_slot(2) by blast
  show in_own: "PTE_ADDR (pde_of s1 d (PDX va)) \<in> own_frames s d \<union> free_frames s"
  proof (cases "has_pt s d (PDX va)")
    case True
    with pde [OF True] va show ?thesis by (simp add: own_frames_def)
  next
    case False
    with new show ?thesis by simp
  qed
  have "PTE_ADDR (pde_of s' d i) \<in> own_frames s d \<union> free_frames s" if "has_pt s' d i" "i < PDX UTOP" for i
    using that in_own pde [of i] pde' [of i] hp [of i] pt' [of i] by (cases "i = PDX va") (auto simp: own_frames_def)
  then show "own_frames s' d \<subseteq> own_frames s d \<union> free_frames s" by (auto simp: own_frames_def [of s'])
  have "PTE_ADDR (pde_of s' d i) \<in> frames s d \<union> free_frames s" if "has_pt s' d i" for i
    using that in_own own_frames_sub [of s d] pde [of i] pde' [of i] hp [of i] pt' [of i]
    by (cases "i = PDX va") (auto simp: frames_def)
  then show "frames s' d \<subseteq> frames s d \<union> free_frames s" by (auto simp: frames_def [of s'])
qed

lemma entry_page:
  assumes "pp < 1048576" and "perm < 4096"
  shows "pte_page (page2pa pp OR perm OR PTE_P) = pp" and "(page2pa pp OR perm OR PTE_P) AND PTE_P \<noteq> 0"
proof -
  have "PTE_ADDR (page2pa pp OR perm OR PTE_P) = page2pa pp"
    using assms(2) by (simp add: PTE_ADDR_or)
  then have "PGNUM (page2pa pp OR perm OR PTE_P) = PGNUM (page2pa pp)" by (metis PGNUM_PTE_ADDR)
  then show "pte_page (page2pa pp OR perm OR PTE_P) = pp"
    using assms(1) by (simp add: PGNUM_page2pa unat_of_nat)
  show "(page2pa pp OR perm OR PTE_P) AND PTE_P \<noteq> 0"
    by (metis or.assoc present_or one_neq_zero)
qed

lemma insert_counts:
  assumes inv: "spaces_ok s D" and d: "d \<in> D" and va: "va < UTOP" and pp: "shared_data s D pp"
    and room: "unat (pp_ref (pages s pp)) < 65535" and perm: "perm < 4096"
    and pte: "\<And>v. tree_slot (PDX v) \<Longrightarrow> pte_of s' d v =
      (if PTE_ADDR v = PTE_ADDR va then page2pa pp OR perm OR PTE_P else pte_of s d v)"
    and refs: "\<And>i. i \<notin> set (free_pages s) \<Longrightarrow> pp_ref (pages s' i) = pp_ref (pages s i) +
      (if i = pp then 1 else 0) - (if pte_of s d va AND PTE_P \<noteq> 0 \<and> i = pte_page (pte_of s d va) then 1 else 0)"
  shows "unat (pp_ref (pages s i)) + card (mapped s' d i) \<le> unat (pp_ref (pages s' i)) + card (mapped s d i)"
proof -
  have ok: "pages_ok s" using inv by (simp add: spaces_ok_def)
  have dp: "data_page s d pp" using pp d by (simp add: shared_data_def)
  then have lt: "pp < 1048576" using pages_okD(4) [OF ok] by (simp add: data_page_def)
  have m: "mapped s' d i = (if i = pp then insert (PTE_ADDR va) (mapped s d i) else mapped s d i - {PTE_ADDR va})"
    using mapped_upd [OF pte va, of i] entry_page [OF lt perm] by auto
  note le = mapped_le_ref [OF inv d, of i]
  show ?thesis
  proof (cases "i \<in> set (free_pages s)")
    case True
    with pages_okD(3) [OF ok] have z: "pp_ref (pages s i) = 0" by blast
    with le have "mapped s d i = {}" by simp
    moreover have "i \<noteq> pp" using True dp by (auto simp: data_page_def)
    ultimately show ?thesis using m z by simp
  next
    case False
    have r: "pp_ref (pages s' i) = pp_ref (pages s i) + (if i = pp then 1 else 0) -
        (if PTE_ADDR va \<in> mapped s d i then 1 else 0)"
      using refs [OF False] mapped_at [OF va, of s d i] by auto
    show ?thesis unfolding m by (rule counts_replace [OF le _ _ r]) (use room in auto)
  qed
qed

text \<open>
  What an insertion takes: one free page if a page table is missing, and one reference to the page
  in exchange for the one to the page mapped there before. The other entries of the directory stay,
  and a new page table is writable and accessible to the program.
\<close>

definition insert_cost :: "u32 \<Rightarrow> u32 \<Rightarrow> nat \<Rightarrow> kstate \<Rightarrow> kstate \<Rightarrow> bool" where
  "insert_cost d va pp s s' \<longleftrightarrow>
     (\<forall>i. has_pt s' d i \<longleftrightarrow> has_pt s d i \<or> i = PDX va) \<and>
     (\<forall>i. i < 1024 \<longrightarrow> i \<noteq> PDX va \<longrightarrow> pde_of s' d i = pde_of s d i) \<and>
     (\<forall>i. has_pt s d i \<longrightarrow> pde_of s' d i = pde_of s d i) \<and>
     (\<forall>i. has_pt s' d i \<longrightarrow> \<not> has_pt s d i \<longrightarrow> pde_of s' d i AND 7 = 7) \<and>
     length (free_pages s) \<le> length (free_pages s') + (if has_pt s d (PDX va) then 0 else 1) \<and>
     (\<forall>i. i \<notin> set (free_pages s) \<longrightarrow> pp_ref (pages s' i) = pp_ref (pages s i) + (if i = pp then 1 else 0) -
        (if pte_of s d va AND PTE_P \<noteq> 0 \<and> i = pte_page (pte_of s d va) then 1 else 0))"

lemma insert_costI:
  assumes post: "insert_post d pp va perm s1 s'" and pd: "pgdir_ok s1 d" and ok1: "pages_ok s1" and pt: "has_pt s1 d (PDX va)"
    and hp: "\<And>i. has_pt s1 d i \<longleftrightarrow> has_pt s d i \<or> i = PDX va"
    and pde: "\<And>i. i < 1024 \<Longrightarrow> i \<noteq> PDX va \<Longrightarrow> pde_of s1 d i = pde_of s d i"
    and old: "\<And>i. has_pt s d i \<Longrightarrow> pde_of s1 d i = pde_of s d i"
    and new: "\<not> has_pt s d (PDX va) \<Longrightarrow> pde_of s1 d (PDX va) AND 7 = 7"
    and free: "free_pages s1 = (if has_pt s d (PDX va) then free_pages s else tl (free_pages s))"
    and refs: "\<forall>i. i \<notin> set (free_pages s) \<longrightarrow> pp_ref (pages s' i) = pp_ref (pages s i) + (if i = pp then 1 else 0) -
        (if pte_of s d va AND PTE_P \<noteq> 0 \<and> i = pte_page (pte_of s d va) then 1 else 0)"
  shows "insert_cost d va pp s s'"
proof -
  have "phys s' (d - KERNBASE + 4 * i) = phys s1 (d - KERNBASE + 4 * i)" if "i < 1024" for i
    using post pte_ptr_not_pde [OF pd pt that] by (simp add: insert_post_def)
  note v = pgdir_view_cong [OF this]
  have "set (free_pages s1) \<subseteq> set (free_pages s')" and ok': "pages_ok s'" using post by (simp_all add: insert_post_def)
  then have "card (set (free_pages s1)) \<le> card (set (free_pages s'))" by (intro card_mono) simp_all
  then have "length (free_pages s1) \<le> length (free_pages s')"
    using page_store.free_distinct [OF ok1] page_store.free_distinct [OF ok'] by (simp add: distinct_card)
  moreover have "pde_of s' d i = pde_of s d i" if "has_pt s d i" for i
    using old [OF that] v(1) has_pt_slot(2) [OF that] by simp
  moreover have "pde_of s' d (PDX va) AND 7 = 7" if "\<not> has_pt s d (PDX va)"
    using new [OF that] v(1) [of "PDX va"] by simp
  ultimately show ?thesis unfolding insert_cost_def
    by (intro conjI) (use v(1,2) hp pde free refs in auto)
qed

lemma insert_local_change:
  assumes inv: "spaces_ok s D" and d: "d \<in> D" and va: "va < UTOP" and pp: "shared_data s D pp"
    and room: "unat (pp_ref (pages s pp)) < 65535" and perm: "perm < 4096"
  obtains (no_mem) "\<not> has_pt s d (PDX va)" "free_pages s = []"
      "page_insert d pp va perm s = Some (- E_NO_MEM, s)"
    | (inserted) s' where "page_insert d pp va perm s = Some (0, s')" "local_change d D s s'"
      "has_pt s d (PDX va) \<or> free_pages s \<noteq> []" "vm_frame s s'"
      "\<And>v. tree_slot (PDX v) \<Longrightarrow> pte_of s' d v =
        (if PTE_ADDR v = PTE_ADDR va then page2pa pp OR perm OR PTE_P else pte_of s d v)"
      "insert_cost d va pp s s'"
proof -
  have ok: "pages_ok s" "pgdir_ok s d" and dp: "data_page s d pp"
    using inv d pp by (auto simp: spaces_ok_def shared_data_def)
  note t = user_slot [OF va]
  have old: "pte_of s d va AND PTE_P \<noteq> 0 \<longrightarrow> shared_data s D (pte_page (pte_of s d va))"
    using inv d va by (simp add: spaces_ok_def)
  have old_ref: "pp_ref (pages s (pte_page (pte_of s d va))) \<noteq> 0" if "pte_of s d va AND PTE_P \<noteq> 0"
  proof -
    have "PTE_ADDR va \<in> mapped s d (pte_page (pte_of s d va))" using that mapped_at [OF va] by simp
    then have "0 < card (mapped s d (pte_page (pte_of s d va)))" by (auto simp: card_gt_0_iff)
    with mapped_le_ref [OF inv d, of "pte_page (pte_of s d va)"] show ?thesis by auto
  qed
  have old': "pte_of s d va AND PTE_P \<noteq> 0 \<longrightarrow> data_page s d (pte_page (pte_of s d va)) \<and>
      pp_ref (pages s (pte_page (pte_of s d va))) \<noteq> 0"
    using old old_ref d by (simp add: shared_data_def)
  show ?thesis
  proof (rule page_insert_cases [where perm = perm, OF ok t(1) dp old'])
    assume "\<not> has_pt s d (PDX va)" "free_pages s = []" "page_insert d pp va perm s = Some (- E_NO_MEM, s)"
    then show ?thesis by (rule no_mem)
  next
    fix s1 s'
    assume mem: "has_pt s d (PDX va) \<or> free_pages s \<noteq> []"
      and res: "page_insert d pp va perm s = Some (0, s')" and post: "insert_post d pp va perm s1 s'"
      and ok1: "pages_ok s1" "pgdir_ok s1 d" "has_pt s1 d (PDX va)" "vm_frame s s1"
      and v1: "\<And>va'. tree_slot (PDX va') \<Longrightarrow> pte_of s1 d va' = pte_of s d va'"
      and f1: "set (free_pages s1) \<subseteq> set (free_pages s)"
      and pg1: "\<And>i. i \<notin> set (free_pages s) \<Longrightarrow> pages s1 i = pages s i"
      and hp: "\<And>i. has_pt s1 d i \<longleftrightarrow> has_pt s d i \<or> i = PDX va"
      and ph1: "\<And>a. PTE_ADDR a \<noteq> d - KERNBASE \<Longrightarrow> PTE_ADDR a \<notin> page2pa ` set (free_pages s) \<Longrightarrow> phys s1 a = phys s a"
      and pde: "\<And>i. has_pt s d i \<Longrightarrow> pde_of s1 d i = pde_of s d i"
      and new: "\<not> has_pt s d (PDX va) \<Longrightarrow> PTE_ADDR (pde_of s1 d (PDX va)) \<in> page2pa ` set (free_pages s)"
      and pde': "\<And>i. i < 1024 \<Longrightarrow> i \<noteq> PDX va \<Longrightarrow> pde_of s1 d i = pde_of s d i"
      and free1: "free_pages s1 = (if has_pt s d (PDX va) then free_pages s else tl (free_pages s))"
      and flags: "\<not> has_pt s d (PDX va) \<Longrightarrow> pde_of s1 d (PDX va) AND 7 = 7"
    note st = insert_post_step [OF post ok1(4) t(1) v1 pg1]
    note fr = insert_frames [OF post ok1(2,3) t(2) hp pde new [folded free_frames_def]]
    have phys: "phys s' a = phys s a" if a: "PTE_ADDR a \<notin> own_frames s d \<union> free_frames s" for a
    proof -
      have "PTE_ADDR (pte_ptr s1 d va - KERNBASE) = PTE_ADDR (pde_of s1 d (PDX va))"
        by (simp add: pte_ptr_phys)
      with fr(3) a have "a \<noteq> pte_ptr s1 d va - KERNBASE" by metis
      with post have "phys s' a = phys s1 a" by (simp add: insert_post_def)
      also have "\<dots> = phys s a" using a by (intro ph1) (auto simp: own_frames_def free_frames_def)
      finally show ?thesis .
    qed
    have lt: "pp < 1048576" using dp pages_okD(4) [OF ok(1)] by (simp add: data_page_def)
    have pte: "pte_of s' d v = (if PTE_ADDR v = PTE_ADDR va then page2pa pp OR perm OR PTE_P else pte_of s d v)"
      if "tree_slot (PDX v)" for v using st that by simp
    have data: "shared_data s D (pte_page (pte_of s' d v))" if v: "v < UTOP" "pte_of s' d v AND PTE_P \<noteq> 0" for v
      using pte [OF user_slot(1) [OF v(1)]] v entry_page [OF lt perm] pp inv d
      by (auto simp: spaces_ok_def split: if_splits)
    have links: "set (free_pages s') \<subseteq> set (free_pages s1) \<union>
        (if pte_of s1 d va AND PTE_P \<noteq> 0 then {pte_page (pte_of s1 d va)} else {})"
      "\<And>i. i \<notin> set (free_pages s') \<Longrightarrow> pp_link (pages s' i) = pp_link (pages s1 i)"
      using post by (simp_all add: insert_post_def)
    have fp: "i \<in> set (free_pages s) \<or> shared_data s D i \<or> page2pa i \<in> own_frames s d"
      if "i \<in> set (free_pages s')" for i
      using that links(1) f1 old v1 [OF t(1)] by (auto split: if_splits)
    have lk: "pp_link (pages s' i) = pp_link (pages s i)" if "i \<notin> set (free_pages s)" "i \<notin> set (free_pages s')" for i
      using that links(2) pg1 by simp
    have refs: "pp_ref (pages s' i) = pp_ref (pages s i) + (if i = pp then 1 else 0) -
        (if pte_of s d va AND PTE_P \<noteq> 0 \<and> i = pte_page (pte_of s d va) then 1 else 0)" if "i \<notin> set (free_pages s)" for i
      using st that by blast
    have cards: "unat (pp_ref (pages s i)) + card (mapped s' d i) \<le> unat (pp_ref (pages s' i)) + card (mapped s d i)" for i
      by (rule insert_counts [OF inv d va pp room perm pte refs])
    have "local_change d D s s'"
      unfolding local_change_def
      by (intro conjI allI ballI impI) (use st fr(1,2) phys data fp lk cards vm_frame_fields(1) [of s s'] in simp_all)
    moreover have "insert_cost d va pp s s'"
      by (rule insert_costI [OF post ok1(2,1,3) hp pde' pde flags free1]) (simp_all add: refs)
    ultimately show ?thesis using mem res st pte by (intro inserted) auto
  qed
qed

section \<open>Unmapping keeps the invariant\<close>

lemma remove_counts:
  assumes inv: "spaces_ok s D" and d: "d \<in> D" and va: "va < UTOP" and m: "pte_of s d va AND PTE_P \<noteq> 0"
    and pte: "\<And>v. tree_slot (PDX v) \<Longrightarrow>
      pte_of s' d v = (if PTE_ADDR v = PTE_ADDR va then 0 else pte_of s d v)"
    and refs: "pp_ref (pages s' i) = pp_ref (pages s i) - (if i = pte_page (pte_of s d va) then 1 else 0)"
  shows "unat (pp_ref (pages s i)) + card (mapped s' d i) \<le> unat (pp_ref (pages s' i)) + card (mapped s d i)"
proof -
  have m': "mapped s' d i = mapped s d i - {PTE_ADDR va}" using mapped_upd [OF pte va, of i] by simp
  have iff: "PTE_ADDR va \<in> mapped s d i \<longleftrightarrow> i = pte_page (pte_of s d va)"
    using mapped_at [OF va, of s d i] m by auto
  show ?thesis
  proof (cases "i = pte_page (pte_of s d va)")
    case True
    with iff have "0 < card (mapped s d i)" by (auto simp: card_gt_0_iff)
    with True m' iff refs mapped_le_ref [OF inv d, of i] show ?thesis by (simp add: ref_decrement)
  next
    case False
    with m' iff refs show ?thesis by simp
  qed
qed

lemma remove_local_change:
  assumes inv: "spaces_ok s D" and d: "d \<in> D" and va: "va < UTOP" and m: "pte_of s d va AND PTE_P \<noteq> 0"
  obtains s' where "page_remove d va s = Some s'" "local_change d D s s'" "vm_frame s s'"
    "\<And>v. tree_slot (PDX v) \<Longrightarrow> pte_of s' d v = (if PTE_ADDR v = PTE_ADDR va then 0 else pte_of s d v)"
    "\<And>i. pp_ref (pages s' i) = pp_ref (pages s i) - (if i = pte_page (pte_of s d va) then 1 else 0)"
    "has_pt s' d = has_pt s d" "\<And>i. i < 1024 \<Longrightarrow> pde_of s' d i = pde_of s d i"
    "set (free_pages s) \<subseteq> set (free_pages s')"
    "pp_ref (pages s (pte_page (pte_of s d va))) = 1 \<Longrightarrow> pte_page (pte_of s d va) \<in> set (free_pages s')"
proof -
  let ?old = "pte_page (pte_of s d va)"
  have ok: "pages_ok s" "pgdir_ok s d" and sh: "shared_data s D ?old"
    using inv d va m by (auto simp: spaces_ok_def)
  have dp: "data_page s d ?old" using sh d by (simp add: shared_data_def)
  note t = user_slot [OF va]
  have pt: "has_pt s d (PDX va)" using m t(1) pte_of_no_pt by fastforce
  obtain s1 s' where
    dec: "page_decref ?old s = Some s1" and res: "page_remove d va s = Some s'"
    and s': "s' = st (pte_ptr s d va) 0 (tlb_invalidate d va s1)"
    and ok': "pages_ok s'" "pgdir_ok s' d" and hp: "has_pt s' d = has_pt s d"
    and fp: "set (free_pages s') \<subseteq> insert ?old (set (free_pages s))"
    and pde: "\<And>i. i < 1024 \<Longrightarrow> pde_of s' d i = pde_of s d i"
    and pte: "\<And>va'. tree_slot (PDX va') \<Longrightarrow>
      pte_of s' d va' = (if PTE_ADDR va' = PTE_ADDR va then 0 else pte_of s d va')"
    and keep: "set (free_pages s) \<subseteq> set (free_pages s')" by (rule page_remove_mapped [OF ok t(1) m dp], rule that)
  note rs = page_remove_state [OF dec s']
  have fr: "own_frames s' d = own_frames s d" "frames s' d = frames s d"
    using hp pde has_pt_slot(2) by (auto simp: own_frames_def frames_def image_iff)
  have phys: "phys s' a = phys s a" if a: "PTE_ADDR a \<notin> own_frames s d \<union> free_frames s" for a
  proof -
    have "PTE_ADDR (pte_ptr s d va - KERNBASE) \<in> own_frames s d"
      using pt t(2) by (simp add: pte_ptr_phys own_frames_def)
    with a have "a \<noteq> pte_ptr s d va - KERNBASE" by auto
    with page_decref_state [OF dec] show ?thesis by (auto simp: s' phys_st tlb_fields)
  qed
  have same: "pages s' = pages s1" "free_pages s' = free_pages s1" "pages_ok s' = pages_ok s1"
    by (simp_all add: s' frame_simps)
  have links: "pp_link (pages s' i) = pp_link (pages s i)" if "i \<notin> set (free_pages s')" for i
    using page_decref_links [OF dec, of i] that ok'(1) same by simp
  have data: "shared_data s D (pte_page (pte_of s' d v))" if v: "v < UTOP" "pte_of s' d v AND PTE_P \<noteq> 0" for v
    using pte [OF user_slot(1) [OF v(1)]] v inv d by (auto simp: spaces_ok_def split: if_splits)
  have "local_change d D s s'"
    unfolding local_change_def
    using ok' fr phys data fp sh links remove_counts [OF inv d va m pte rs(2)] vm_frame_fields(1) [OF rs(1)]
    by auto
  moreover have "?old \<in> set (free_pages s')" if one: "pp_ref (pages s ?old) = 1"
  proof -
    have "?old < unat (npages s)" "?old \<notin> set (free_pages s)" "pp_link (pages s ?old) = None"
      using dp by (simp_all add: data_page_def)
    from page_decref_last [OF ok(1) this(1,2) one this(3)] dec same show ?thesis by auto
  qed
  ultimately show ?thesis using res rs pte hp pde keep by (intro that) auto
qed

section \<open>Sequences of operations\<close>

datatype vmop = Insert u32 nat u32 u32 | Remove u32 u32

primrec vm_target :: "vmop \<Rightarrow> u32" where
  "vm_target (Insert d pp va perm) = d"
| "vm_target (Remove d va) = d"

primrec vm_step :: "vmop \<Rightarrow> kstate \<Rightarrow> kstate option" where
  "vm_step (Insert d pp va perm) s = map_option snd (page_insert d pp va perm s)"
| "vm_step (Remove d va) s = page_remove d va s"

primrec vm_admissible :: "u32 set \<Rightarrow> vmop \<Rightarrow> kstate \<Rightarrow> bool" where
  "vm_admissible D (Insert d pp va perm) s \<longleftrightarrow>
     d \<in> D \<and> va < UTOP \<and> perm < 4096 \<and> shared_data s D pp \<and> unat (pp_ref (pages s pp)) < 65535"
| "vm_admissible D (Remove d va) s \<longleftrightarrow> d \<in> D \<and> va < UTOP"

text \<open>What a program sees of a space: the entries of its user pages.\<close>

definition user_view :: "u32 \<Rightarrow> kstate \<Rightarrow> u32 \<Rightarrow> u32" where
  "user_view d s v = (if v < UTOP then pte_of s d v else 0)"

lemma user_view_other:
  assumes "spaces_ok s D" and "local_change d D s s'" and "d \<in> D" and "d' \<in> D" and "d' \<noteq> d"
  shows "user_view d' s' = user_view d' s"
  using local_change_other(1) [OF assms user_slot(1)] by (auto simp: user_view_def)

text \<open>
  The other directories keep their page tables, and every directory the slot through which its
  program reads its own page tables.
\<close>

definition dirs_kept :: "u32 \<Rightarrow> u32 set \<Rightarrow> kstate \<Rightarrow> kstate \<Rightarrow> bool" where
  "dirs_kept d D s s' \<longleftrightarrow> (\<forall>d'\<in>D. pde_of s' d' (PDX UVPT) = pde_of s d' (PDX UVPT) \<and>
     (d' \<noteq> d \<longrightarrow> (\<forall>i. has_pt s' d' i = has_pt s d' i)))"

lemma local_change_dirs:
  assumes inv: "spaces_ok s D" and lc: "local_change d D s s'" and d: "d \<in> D"
    and cost: "insert_cost d va pp s s'" and va: "va < UTOP"
  shows "dirs_kept d D s s'"
proof -
  have u: "PDX UVPT < 1024" by (simp add: word_less_nat_alt unat_PDX)
  have other: "pde_of s' d' (PDX UVPT) = pde_of s d' (PDX UVPT)" "has_pt s' d' j = has_pt s d' j"
    if d': "d' \<in> D" "d' \<noteq> d" for d' j
  proof -
    have ok: "pages_ok s" "pgdir_ok s d'" using inv d' by (auto simp: spaces_ok_def)
    have "own_frames s d \<inter> frames s d' = {}" using inv d d' by (simp add: spaces_ok_def)
    then have ph: "phys s' a = phys s a" if "PTE_ADDR a \<in> frames s d'" for a
      using lc that frames_not_free [OF ok that] by (auto simp: local_change_def)
    note v = view_footprint [OF ok(2) ph]
    show "pde_of s' d' (PDX UVPT) = pde_of s d' (PDX UVPT)" by (rule v(1) [OF _ u]) simp
    show "has_pt s' d' j = has_pt s d' j" by (rule v(2)) simp
  qed
  have "PDX va \<noteq> PDX UVPT" using user_slot(1) [OF va] by (simp add: tree_slot_def)
  then have self: "pde_of s' d (PDX UVPT) = pde_of s d (PDX UVPT)" using cost u by (simp add: insert_cost_def)
  show ?thesis unfolding dirs_kept_def
  proof (intro ballI conjI impI allI)
    fix d' i assume d': "d' \<in> D"
    show "pde_of s' d' (PDX UVPT) = pde_of s d' (PDX UVPT)" using other(1) [OF d'] self by (cases "d' = d") simp_all
    show "has_pt s' d' i = has_pt s d' i" if "d' \<noteq> d" using other(2) [OF d' that] .
  qed
qed

text \<open>The page tables of a directory stay where they are.\<close>

definition tables_kept :: "u32 \<Rightarrow> kstate \<Rightarrow> kstate \<Rightarrow> bool" where
  "tables_kept d s s' \<longleftrightarrow> (\<forall>i. has_pt s d i \<longrightarrow> has_pt s' d i \<and> pde_of s' d i = pde_of s d i)"

lemma insert_cost_tables: "insert_cost d va pp s s' \<Longrightarrow> tables_kept d s s'"
  by (simp add: insert_cost_def tables_kept_def)

lemma tables_kept_trans: "tables_kept d s s1 \<Longrightarrow> tables_kept d s1 s' \<Longrightarrow> tables_kept d s s'"
  by (simp add: tables_kept_def)

lemma vm_step_ok:
  assumes inv: "spaces_ok s D" and adm: "vm_admissible D x s"
  shows "\<exists>s'. vm_step x s = Some s' \<and> spaces_ok s' D \<and>
    (\<forall>k\<in>D. k \<noteq> vm_target x \<longrightarrow> user_view k s' = user_view k s)"
proof (cases x)
  case (Insert d pp va perm)
  with adm have a: "d \<in> D" "va < UTOP" "shared_data s D pp" "unat (pp_ref (pages s pp)) < 65535" "perm < 4096"
    by auto
  from inv a show ?thesis
  proof (cases rule: insert_local_change)
    case no_mem
    with Insert inv show ?thesis by simp
  next
    case (inserted s')
    with local_change_ok [OF inv inserted(2) a(1)] user_view_other [OF inv inserted(2) a(1)] Insert
    show ?thesis by auto
  qed
next
  case (Remove d va)
  with adm have a: "d \<in> D" "va < UTOP" by auto
  show ?thesis
  proof (cases "pte_of s d va AND PTE_P = 0")
    case True
    with page_remove_unmapped [of s d va] inv a user_slot(1) Remove show ?thesis
      by (auto simp: spaces_ok_def)
  next
    case False
    from remove_local_change [OF inv a False] obtain s' where
      s': "page_remove d va s = Some s'" "local_change d D s s'" by metis
    with local_change_ok [OF inv s'(2) a(1)] user_view_other [OF inv s'(2) a(1)] Remove show ?thesis
      by auto
  qed
qed

interpretation vm_spaces: isolated_ops "\<lambda>s. spaces_ok s D" "vm_admissible D" vm_step vm_target D user_view
  for D :: "u32 set"
  by unfold_locales (rule vm_step_ok)

end
