(* ===== verification/Env_Facts.thy ===== *)
theory Env_Facts
  imports Envs Spaces
begin

text \<open>
  Facts about environments: the free list of the table, identifiers and their generations, and
  the address space a new environment starts with.
\<close>

section \<open>The free list of environments\<close>

definition free_envs :: "kstate \<Rightarrow> nat list" where
  "free_envs s = walk (\<lambda>i. env_link (envs s i)) NENV (env_free_list s)"

definition envs_ok :: "kstate \<Rightarrow> bool" where
  "envs_ok s \<longleftrightarrow>
     chain (\<lambda>i. env_link (envs s i)) (env_free_list s) (free_envs s) \<and>
     (\<forall>i\<in>set (free_envs s). i < NENV \<and> env_status (envs s i) = ENV_FREE)"

lemma envs_okI:
  assumes c: "chain (\<lambda>i. env_link (envs s i)) (env_free_list s) xs"
    and b: "\<forall>i\<in>set xs. i < NENV \<and> env_status (envs s i) = ENV_FREE"
  shows "envs_ok s \<and> free_envs s = xs"
proof -
  from chain_distinct [OF c] b have "length xs \<le> NENV" by (intro distinct_below_length) auto
  with c have "free_envs s = xs" by (simp add: free_envs_def walk_chain)
  with assms show ?thesis by (simp add: envs_ok_def)
qed

lemma envs_okD:
  assumes "envs_ok s"
  shows "chain (\<lambda>i. env_link (envs s i)) (env_free_list s) (free_envs s)"
    and "i \<in> set (free_envs s) \<Longrightarrow> i < NENV"
    and "i \<in> set (free_envs s) \<Longrightarrow> env_status (envs s i) = ENV_FREE"
    and "distinct (free_envs s)"
  using assms by (auto simp: envs_ok_def intro: chain_distinct)

lemma envs_ok_cong:
  assumes "envs s' = envs s" "env_free_list s' = env_free_list s"
  shows "envs_ok s' = envs_ok s" and "free_envs s' = free_envs s"
  using assms by (simp_all add: envs_ok_def free_envs_def)

lemma env_init_fold:
  fixes s :: kstate
  assumes "k \<le> NENV"
  defines "s' \<equiv> fold env_init_step (rev [k..<NENV]) (s\<lparr>env_free_list := None\<rparr>)"
  shows "chain (\<lambda>i. env_link (envs s' i)) (env_free_list s') [k..<NENV] \<and>
    (\<forall>i. k \<le> i \<longrightarrow> i < NENV \<longrightarrow> env_status (envs s' i) = ENV_FREE \<and> env_id (envs s' i) = 0)"
  unfolding s'_def using assms(1)
proof (induction "NENV - k" arbitrary: k)
  case 0
  then show ?case by simp
next
  case (Suc m)
  then have k: "k < NENV" by simp
  define t where "t = fold env_init_step (rev [Suc k..<NENV]) (s\<lparr>env_free_list := None\<rparr>)"
  have IH: "chain (\<lambda>i. env_link (envs t i)) (env_free_list t) [Suc k..<NENV] \<and>
      (\<forall>i. Suc k \<le> i \<longrightarrow> i < NENV \<longrightarrow> env_status (envs t i) = ENV_FREE \<and> env_id (envs t i) = 0)"
    unfolding t_def using Suc by (intro Suc.hyps(1)) auto
  have up: "fold env_init_step (rev [k..<NENV]) (s\<lparr>env_free_list := None\<rparr>) = env_init_step k t"
    using k by (simp add: t_def upt_conv_Cons)
  have "chain (\<lambda>i. env_link (envs (env_init_step k t) i)) (env_free_list t) [Suc k..<NENV]"
    by (rule chain_transfer [where nx = "\<lambda>i. env_link (envs t i)"])
      (use IH in \<open>auto simp: env_init_step_def upd_env_def\<close>)
  then show ?case
    unfolding up using IH k
    by (auto simp: upt_conv_Cons env_init_step_def upd_env_def)
qed

lemma env_init_list:
  "envs_ok (env_init s) \<and> free_envs (env_init s) = [0..<NENV] \<and>
   (\<forall>i<NENV. env_id (envs (env_init s) i) = 0 \<and> env_status (envs (env_init s) i) = ENV_FREE)"
proof -
  note f = env_init_fold [of 0 s, folded env_init_def]
  then have "envs_ok (env_init s) \<and> free_envs (env_init s) = [0..<NENV]"
    by (intro envs_okI) auto
  with f show ?thesis by auto
qed

section \<open>Identifiers\<close>

lemma mask1023: "(1023 :: u32) = mask 10"
  by (simp add: mask_eq_exp_minus_1)

lemma ENVX_less: "ENVX i < NENV"
  by (simp add: ENVX_def mask1023 unat_and_mask)

lemma generation_high: "((i :: u32) + 4096) AND NOT 1023 = (i AND NOT 1023) + 4096"
proof -
  have d: "a AND NOT 1023 = a - (a AND 1023)" for a :: u32
  proof -
    have "(a AND NOT 1023) + (a AND 1023) = (a AND NOT 1023) OR (a AND 1023)"
      by (rule disjunctive_add) (simp add: bit_simps)
    also have "\<dots> = a" by (rule bit_word_eqI) (auto simp: bit_simps)
    finally show ?thesis by (simp add: eq_diff_eq)
  qed
  have "(i + 4096) AND 1023 = i AND 1023"
  proof (rule word_eq_unatI)
    have "unat (i + 4096) mod 1024 = (unat i + 4096) mod 4294967296 mod 1024"
      by (simp add: unat_word_ariths)
    also have "\<dots> = (unat i + 4096) mod 1024" by (rule mod_mod_cancel) simp
    also have "\<dots> = unat i mod 1024" using mod_mult_self2 [of "unat i" 1024 4] by simp
    finally show "unat ((i + 4096) AND 1023) = unat (i AND 1023)" by (simp add: mask1023 unat_and_mask)
  qed
  then show ?thesis unfolding d by simp
qed

lemma envid_parts:
  assumes "g AND 1023 = 0" and "e < NENV"
  shows "ENVX (g OR of_nat e) = e" and "(g OR of_nat e) AND NOT 1023 = g"
proof -
  have e: "(of_nat e :: u32) AND 1023 = of_nat e"
    by (rule word_eq_unatI) (use assms(2) in \<open>simp add: mask1023 unat_and_mask unat_of_nat\<close>)
  have "(g OR of_nat e) AND 1023 = of_nat e"
    using assms(1) e by (simp add: bit.conj_disj_distrib2)
  then show "ENVX (g OR of_nat e) = e" using assms(2) by (simp add: ENVX_def unat_of_nat)
  have m: "unat (a AND NOT 1023) = unat a - unat a mod 1024" for a :: u32
    by (simp add: mask1023 unat_and_not_mask)
  have "(of_nat e :: u32) AND NOT 1023 = 0"
    by (rule word_eq_unatI) (unfold m, use assms(2) in \<open>simp add: unat_of_nat\<close>)
  moreover have "unat g mod 1024 = 0"
    using unat_and_mask [of g 10] assms(1) by (simp add: mask1023)
  then have "g AND NOT 1023 = g" by (intro word_eq_unatI) (unfold m, simp)
  ultimately show "(g OR of_nat e) AND NOT 1023 = g" by (simp only: bit.conj_disj_distrib2 or.right_neutral)
qed

lemma env_generation_low: "env_generation i AND 1023 = 0"
proof -
  have "(a AND NOT 1023) AND 1023 = (0 :: u32)" for a
    by (rule bit_word_eqI) (auto simp: bit_simps)
  then show ?thesis by (simp add: env_generation_def Let_def)
qed

lemma env_generation_pos: "0 < sint (env_generation i)"
  by (simp add: env_generation_def Let_def)

lemma env_generation_fresh:
  assumes "e < NENV"
  shows "env_generation i OR of_nat e \<noteq> i"
proof
  assume eq: "env_generation i OR of_nat e = i"
  have hi: "i AND NOT 1023 = env_generation i"
    using envid_parts(2) [OF env_generation_low assms, of i] eq by simp
  show False
  proof (cases "sint ((i + 4096) AND NOT 1023) \<le> 0")
    case True
    then have g: "env_generation i = 4096" by (simp add: env_generation_def Let_def)
    have "(i + 4096) AND NOT 1023 = 8192" unfolding generation_high hi g by simp
    with True show False by simp
  next
    case False
    then have "env_generation i = (i + 4096) AND NOT 1023" by (simp add: env_generation_def Let_def)
    then have "env_generation i = env_generation i + 4096" unfolding generation_high hi .
    then show False by simp
  qed
qed

lemma envid_positive:
  assumes "0 < sint g" and "g AND 1023 = 0" and "e < NENV"
  shows "0 < sint (g OR of_nat e :: u32)"
proof -
  have s: "\<not> bit x 31 \<longleftrightarrow> 0 \<le> sint x" for x :: u32 using bit_last_iff [of x] by (simp add: not_less)
  have "(of_nat e :: u32) AND 1023 = of_nat e"
    by (rule word_eq_unatI) (use assms(3) in \<open>simp add: mask1023 unat_and_mask unat_of_nat\<close>)
  moreover have "\<not> bit ((of_nat e :: u32) AND 1023) 31" by (simp add: mask1023 bit_simps)
  ultimately have "\<not> bit (of_nat e :: u32) 31" by simp
  moreover have "\<not> bit g 31" using assms(1) s by simp
  ultimately have "0 \<le> sint (g OR of_nat e)" unfolding s [symmetric] by (simp add: bit_simps)
  moreover have "g \<noteq> 0" using assms(1) by auto
  then have "g OR of_nat e \<noteq> 0" using envid_parts(2) [OF assms(2,3)] by auto
  then have "sint (g OR of_nat e) \<noteq> 0" by (metis signed_0 signed_word_eqI)
  ultimately show ?thesis by simp
qed

section \<open>The address space of a new environment\<close>

text \<open>Writing a run of slots of one page.\<close>

lemma fold_st_frame: "\<exists>m. fold (\<lambda>i. st (g i) (f i)) xs s = s\<lparr>phys := m\<rparr>"
proof (induction xs arbitrary: s)
  case Nil
  show ?case by (rule exI [of _ "phys s"]) simp
next
  case (Cons x xs)
  from Cons [of "st (g x) (f x) s"] obtain m where
    m: "fold (\<lambda>i. st (g i) (f i)) xs (st (g x) (f x) s) = (st (g x) (f x) s)\<lparr>phys := m\<rparr>" by blast
  show ?case by (rule exI [of _ m]) (simp add: m, simp add: st_def)
qed

lemma of_nat_slot: "i < 1024 \<Longrightarrow> of_nat i < (1024 :: u32)"
  by (simp add: word_less_nat_alt unat_of_nat)

lemma of_nat_slot_inj: "i < 1024 \<Longrightarrow> j < 1024 \<Longrightarrow> of_nat i = (of_nat j :: u32) \<longleftrightarrow> i = j"
  by (simp add: word_unat_eq_iff unat_of_nat)

lemma fold_st_other:
  assumes al: "PGOFF b = 0" and xs: "\<forall>i\<in>set xs. i < 1024" and a: "PTE_ADDR a \<noteq> b"
  shows "phys (fold (\<lambda>i. st (b + KERNBASE + 4 * of_nat i) (f i)) xs s) a = phys s a"
  using xs
proof (induction xs arbitrary: s)
  case Nil
  then show ?case by simp
next
  case (Cons x xs)
  have "a \<noteq> b + 4 * of_nat x" using Cons.prems of_nat_slot [of x] al a by auto
  with Cons.prems show ?case
    using Cons.IH [of "st (b + KERNBASE + 4 * of_nat x) (f x) s"] by (simp add: phys_st)
qed

lemma fold_st_slots:
  assumes al: "PGOFF b = 0" and xs: "\<forall>i\<in>set xs. i < 1024" and j: "j < 1024"
  shows "phys (fold (\<lambda>i. st (b + KERNBASE + 4 * of_nat i) (f i)) xs s) (b + 4 * of_nat j) =
      (if j \<in> set xs then f j else phys s (b + 4 * of_nat j))"
  using xs
proof (induction xs arbitrary: s)
  case Nil
  then show ?case by simp
next
  case (Cons x xs)
  define s1 where "s1 = st (b + KERNBASE + 4 * of_nat x) (f x) s"
  have "b + 4 * of_nat j = b + 4 * of_nat x \<longleftrightarrow> j = x"
    using slot_inj [OF al al, of "of_nat j" "of_nat x"] of_nat_slot [of x] of_nat_slot [of j]
      of_nat_slot_inj [of j x] j Cons.prems by simp
  then have "phys s1 (b + 4 * of_nat j) = (if j = x then f j else phys s (b + 4 * of_nat j))"
    by (simp add: s1_def phys_st)
  with Cons.prems Cons.IH [of s1] show ?case by (auto simp: s1_def [symmetric])
qed

text \<open>Copying the kernel's entries: the source page is not the one written to.\<close>

lemma fold_copy_slots:
  assumes "PGOFF b = 0" and "\<forall>i\<in>set xs. i < 1024" and k: "PGOFF k = 0" "k \<noteq> b"
  shows "fold (\<lambda>i s. st (b + KERNBASE + 4 * of_nat i) (ld s (k + KERNBASE + 4 * of_nat i)) s) xs s =
    fold (\<lambda>i. st (b + KERNBASE + 4 * of_nat i) (phys s (k + 4 * of_nat i))) xs s"
  using assms(2)
proof (induction xs rule: rev_induct)
  case Nil
  then show ?case by simp
next
  case (snoc x xs)
  have "PTE_ADDR (k + 4 * of_nat x) = k"
    using k snoc.prems by (simp add: word_less_nat_alt unat_of_nat)
  then have "phys (fold (\<lambda>i. st (b + KERNBASE + 4 * of_nat i) (phys s (k + 4 * of_nat i))) xs s)
      (k + 4 * of_nat x) = phys s (k + 4 * of_nat x)"
    using fold_st_other [OF assms(1), of xs] snoc.prems k by simp
  with snoc show ?case by (simp add: ld_def)
qed

text \<open>The directory \<^verbatim>\<open>env_setup_vm\<close> builds: empty below \<^verbatim>\<open>UTOP\<close>, the kernel's above, mapping itself.\<close>

definition new_dir :: "kstate \<Rightarrow> nat \<Rightarrow> u32 \<Rightarrow> u32" where
  "new_dir s p i =
     (if i = PDX UVPT then page2pa p OR PTE_P OR PTE_U
      else if i < PDX UTOP then 0 else pde_of s (kern_pgdir s) i)"

definition setup_post :: "nat \<Rightarrow> nat \<Rightarrow> kstate \<Rightarrow> kstate \<Rightarrow> bool" where
  "setup_post e p s s' \<longleftrightarrow>
     (\<exists>m. s' = s\<lparr>page_free_list := pp_link (pages s p),
         pages := (pages s)(p := (pages s p)\<lparr>pp_link := None, pp_ref := 1\<rparr>),
         phys := m, envs := (envs s)(e := (envs s e)\<lparr>env_pgdir := page2pa p + KERNBASE\<rparr>)\<rparr> \<and>
       (\<forall>i<1024. m (page2pa p + 4 * i) = new_dir s p i) \<and>
       (\<forall>a. PTE_ADDR a \<noteq> page2pa p \<longrightarrow> m a = phys s a))"

lemma fold_kern_pgdir:
  assumes "kern_pgdir s = k"
  shows "fold (\<lambda>i t. st (g i) (ld t (kern_pgdir t + 4 * of_nat i)) t) xs s =
    fold (\<lambda>i t. st (g i) (ld t (k + 4 * of_nat i)) t) xs s"
  using assms by (induction xs arbitrary: s) (simp_all add: st_def)

text \<open>The two loops over the entries and the self-map, on a cleared page \<open>b\<close>.\<close>

lemma dir_fill:
  fixes s :: kstate
  assumes b: "PGOFF b = 0" and k: "kern_pgdir s = kb + KERNBASE" "PGOFF kb = 0" "kb \<noteq> b"
    and lo: "set lo = {..<955}" and hi: "set hi = {955..<1024}"
  defines "s2 \<equiv> fold (\<lambda>i. st (b + KERNBASE + 4 * of_nat i) 0) lo s"
  defines "s3 \<equiv> fold (\<lambda>i t. st (b + KERNBASE + 4 * of_nat i) (ld t (kern_pgdir t + 4 * of_nat i)) t) hi s2"
  defines "s4 \<equiv> st (b + KERNBASE + 4 * PDX UVPT) (b OR PTE_P OR PTE_U) s3"
  shows "\<exists>m. s4 = s\<lparr>phys := m\<rparr> \<and>
    (\<forall>i<1024. m (b + 4 * i) = (if i = PDX UVPT then b OR PTE_P OR PTE_U
       else if i < PDX UTOP then 0 else pde_of s (kern_pgdir s) i)) \<and>
    (\<forall>a. PTE_ADDR a \<noteq> b \<longrightarrow> m a = phys s a)"
proof -
  obtain m2 where m2: "s2 = s\<lparr>phys := m2\<rparr>" using fold_st_frame [of "\<lambda>i. b + KERNBASE + 4 * of_nat i" "\<lambda>_. 0" lo s] unfolding s2_def by blast
  have los: "\<forall>i\<in>set lo. i < 1024" and his: "\<forall>i\<in>set hi. i < 1024" using lo hi by auto
  have s3: "s3 = fold (\<lambda>i. st (b + KERNBASE + 4 * of_nat i) (phys s2 (kb + 4 * of_nat i))) hi s2"
    using fold_kern_pgdir [of s2 "kb + KERNBASE"] fold_copy_slots [OF b his k(2,3), of s2] k(1)
    by (simp add: s3_def m2)
  obtain m3 where m3: "s3 = s2\<lparr>phys := m3\<rparr>" using fold_st_frame [of "\<lambda>i. b + KERNBASE + 4 * of_nat i"
      "\<lambda>i. phys s2 (kb + 4 * of_nat i)" hi s2] unfolding s3 by blast
  note r2 = fold_st_slots [OF b los, of _ "\<lambda>_. 0" s, folded s2_def]
    fold_st_other [OF b los, of _ "\<lambda>_. 0" s, folded s2_def]
  note r3 = fold_st_slots [OF b his, of _ "\<lambda>i. phys s2 (kb + 4 * of_nat i)" s2, folded s3]
    fold_st_other [OF b his, of _ "\<lambda>i. phys s2 (kb + 4 * of_nat i)" s2, folded s3]
  have dis: "PTE_ADDR (kb + 4 * i) \<noteq> b" if "i < 1024" for i using k that by simp
  have px: "PDX UVPT = 957" "PDX UTOP = 955" by (simp_all add: word_unat_eq_iff unat_PDX)
  define m where "m = phys s4"
  have mphys: "m = (phys s3)(b + 4 * PDX UVPT := b OR PTE_P OR PTE_U)"
    by (simp add: m_def s4_def phys_st)
  have slots: "m (b + 4 * i) = (if i = PDX UVPT then b OR PTE_P OR PTE_U
      else if i < PDX UTOP then 0 else pde_of s (kern_pgdir s) i)" if i: "i < 1024" for i
  proof -
    define j where "j = unat i"
    have j: "i = of_nat j" "j < 1024" using i by (simp_all add: j_def word_less_nat_alt)
    have "phys s2 (kb + 4 * of_nat j) = phys s (kb + 4 * of_nat j)"
      using r2(2) dis [of "of_nat j"] i j by simp
    moreover have "pde_of s (kern_pgdir s) i = phys s (kb + 4 * of_nat j)"
      by (simp add: pde_of_def k(1) j(1))
    moreover have "i < 955 \<longleftrightarrow> j < 955" by (simp add: j_def word_less_nat_alt)
    moreover have "b + 4 * i = b + 4 * PDX UVPT \<longleftrightarrow> i = PDX UVPT"
      using slot_inj [OF b b i, of "PDX UVPT"] px by simp
    then have "m (b + 4 * i) = (if i = PDX UVPT then b OR PTE_P OR PTE_U else phys s3 (b + 4 * i))"
      by (simp add: mphys)
    ultimately show ?thesis
      using r3(1) [of j] r2(1) [of j] j by (simp add: lo hi px(2))
  qed
  have "m a = phys s a" if "PTE_ADDR a \<noteq> b" for a
    using r3(2) [OF that] r2(2) [OF that] that b by (auto simp: mphys)
  moreover have "s4 = s\<lparr>phys := m\<rparr>" unfolding mphys by (simp add: s4_def st_def m3 m2)
  ultimately show ?thesis using slots by blast
qed

lemma env_setup_vm_effect:
  assumes ok: "pages_ok s" and f: "free_pages s = p # xs" and n: "unat (npages s) \<le> 65536"
    and k: "PGOFF (kern_pgdir s) = 0" "frame_ok s (kern_pgdir s - KERNBASE)"
  shows "\<exists>s'. env_setup_vm e s = Some (0, s') \<and> setup_post e p s s'"
proof -
  define b where "b = page2pa p"
  define kb where "kb = kern_pgdir s - KERNBASE"
  have p: "p < unat (npages s)" using pages_okD(2) [OF ok] f by simp
  have k0: "PGOFF kb = 0" "kern_pgdir s = kb + KERNBASE" using k(1) by (simp_all add: kb_def)
  have kb: "kb \<noteq> b" using frame_not_free [OF ok k(2), of p] f k(1) by (simp add: kb_def b_def)
  define s1 where "s1 = s\<lparr>page_free_list := pp_link (pages s p),
      phys := (\<lambda>a. if PTE_ADDR a = b then 0 else phys s a),
      envs := (envs s)(e := (envs s e)\<lparr>env_pgdir := b + KERNBASE\<rparr>),
      pages := (pages s)(p := (pages s p)\<lparr>pp_link := None, pp_ref := 1\<rparr>)\<rparr>"
  have pa: "PADDR (b + KERNBASE) = Some b"
    using p n by (intro PADDR_KADDR [of s]) (simp_all add: b_def KADDR_Some_iff PGNUM_page2pa
        word_less_nat_alt unat_of_nat unat_page2pa)
  have ref0: "pp_ref (pages s p) = 0" using pages_okD(3) [OF ok] f by simp
  have kva: "page2kva t p = Some (b + KERNBASE)" if "npages t = npages s" for t
    using p n that by (simp add: b_def page2kva_Some)
  have u: "unat (PDX UTOP) = 955" by (simp add: unat_PDX)
  define lo where "lo = [0..<unat (PDX UTOP)]"
  define hi where "hi = [unat (PDX UTOP)..<1024]"
  have sets: "set lo = {..<955}" "set hi = {955..<1024}" unfolding lo_def hi_def u by (simp_all only: set_upt lessThan_atLeast0)
  have alloc: "page_alloc 1 s = Some (Some p, s\<lparr>page_free_list := pp_link (pages s p),
      pages := (pages s)(p := (pages s p)\<lparr>pp_link := None\<rparr>),
      phys := (\<lambda>a. if PTE_ADDR a = b then 0 else phys s a)\<rparr>)"
    using page_alloc_hd [OF ok f, of 1] by (simp add: b_def)
  have eq: "env_setup_vm e s = Some (0, st (b + KERNBASE + 4 * PDX UVPT) (b OR PTE_P OR PTE_U)
      (fold (\<lambda>i t. st (b + KERNBASE + 4 * of_nat i) (ld t (kern_pgdir t + 4 * of_nat i)) t) hi
        (fold (\<lambda>i. st (b + KERNBASE + 4 * of_nat i) 0) lo s1)))"
    unfolding env_setup_vm_def alloc lo_def [symmetric] hi_def [symmetric]
    using kva pa ref0 by (simp add: Let_def upd_env_def bump_ref_def set_page_def s1_def)
  have kern: "kern_pgdir s1 = kb + KERNBASE" and pde: "pde_of s1 (kern_pgdir s1) i = pde_of s (kern_pgdir s) i"
    if "i < 1024" for i
    using k0 kb that by (simp_all add: s1_def pde_of_def)
  from dir_fill [of b s1 kb lo hi] kern [of 0] k0(1) kb sets obtain m where
    m: "snd (the (env_setup_vm e s)) = s1\<lparr>phys := m\<rparr>"
    "\<forall>i<1024. m (b + 4 * i) = (if i = PDX UVPT then b OR PTE_P OR PTE_U
       else if i < PDX UTOP then 0 else pde_of s1 (kern_pgdir s1) i)"
    "\<forall>a. PTE_ADDR a \<noteq> b \<longrightarrow> m a = phys s1 a"
    unfolding eq by (auto simp: b_def)
  have "setup_post e p s (s1\<lparr>phys := m\<rparr>)"
    unfolding setup_post_def b_def [symmetric] using m(2,3) pde
    by (intro exI [of _ m]) (auto simp: s1_def new_dir_def b_def)
  with m(1) eq show ?thesis by simp
qed

lemma setup_post_pages:
  assumes ok: "pages_ok s" and f: "free_pages s = p # xs" and post: "setup_post e p s s'"
  shows "pages_ok s'" and "free_pages s' = xs" and "npages s' = npages s"
    and "\<forall>i. pp_link (pages s' i) = (if i = p then None else pp_link (pages s i))"
    and "\<forall>i. pp_ref (pages s' i) = (if i = p then 1 else pp_ref (pages s i))"
proof -
  from page_alloc_hd [OF ok f, of 0] obtain t where
    t: "page_alloc 0 s = Some (Some p, t)" "npages t = npages s" "page_free_list t = pp_link (pages s p)"
      "pages t = (pages s)(p := (pages s p)\<lparr>pp_link := None\<rparr>)" by simp
  note a = page_alloc_takes [OF ok f t(1)]
  let ?u = "set_page p ((pages s p)\<lparr>pp_link := None, pp_ref := 1\<rparr>) t"
  have c: "npages s' = npages ?u" "pages s' = pages ?u" "page_free_list s' = page_free_list ?u"
    using post by (auto simp: setup_post_def set_page_def t)
  have "p \<notin> set (free_pages t)" using a by simp
  from set_page_pages_ok [OF a(2) this] show "pages_ok s'" "free_pages s' = xs"
    unfolding pages_ok_cong [OF c] using a(3) by simp_all
  show "npages s' = npages s" using c(1) t by (simp add: set_page_def)
  show "\<forall>i. pp_link (pages s' i) = (if i = p then None else pp_link (pages s i))"
    "\<forall>i. pp_ref (pages s' i) = (if i = p then 1 else pp_ref (pages s i))"
    using post by (auto simp: setup_post_def)
qed

lemma new_dir_entries:
  assumes post: "setup_post e p s s'"
  shows "i < 1024 \<Longrightarrow> pde_of s' (page2pa p + KERNBASE) i = new_dir s p i"
    and "has_pt s' (page2pa p + KERNBASE) i \<longleftrightarrow> has_pt s (kern_pgdir s) i \<and> PDX UTOP \<le> i"
proof -
  have e: "pde_of s' (page2pa p + KERNBASE) i = new_dir s p i" if "i < 1024" for i
    using post that by (auto simp: setup_post_def pde_of_def [of s'])
  show "i < 1024 \<Longrightarrow> pde_of s' (page2pa p + KERNBASE) i = new_dir s p i" by (rule e)
  show "has_pt s' (page2pa p + KERNBASE) i \<longleftrightarrow> has_pt s (kern_pgdir s) i \<and> PDX UTOP \<le> i"
    unfolding not_less [symmetric] using e [of i]
    by (cases "i < PDX UTOP") (auto simp: has_pt_def tree_slot_def new_dir_def)
qed

lemma new_space_frames:
  assumes inv: "spaces_ok s D" and k: "kern_pgdir s \<in> D" and f: "free_pages s = p # xs"
    and post: "setup_post e p s s'"
  shows "own_frames s' (page2pa p + KERNBASE) = {page2pa p}"
    and "frames s' (page2pa p + KERNBASE) \<subseteq> insert (page2pa p) (frames s (kern_pgdir s))"
    and "kern_pgdir s - KERNBASE \<notin> frames s' (page2pa p + KERNBASE)"
    and "own_frames s (kern_pgdir s) \<inter> frames s' (page2pa p + KERNBASE) = {}"
    and "pgdir_ok s' (page2pa p + KERNBASE)"
proof -
  have ok: "pages_ok s" and kp: "pgdir_ok s (kern_pgdir s)" using inv k by (auto simp: spaces_ok_def)
  let ?d = "page2pa p + KERNBASE"
  have pde: "pde_of s' ?d i = pde_of s (kern_pgdir s) i" if "has_pt s' ?d i" for i
    using that new_dir_entries [OF post, of i] by (auto simp: new_dir_def has_pt_def tree_slot_def)
  have kn: "a \<noteq> page2pa p" if "a \<in> frames s (kern_pgdir s)" for a
    using frames_not_free [OF ok kp that] f by (auto simp: free_frames_def)
  show own: "own_frames s' ?d = {page2pa p}"
    using new_dir_entries(2) [OF post] by (auto simp: own_frames_def)
  show sub: "frames s' ?d \<subseteq> insert (page2pa p) (frames s (kern_pgdir s))"
    using new_dir_entries(2) [OF post] pde by (auto simp: frames_def)
  show nk: "kern_pgdir s - KERNBASE \<notin> frames s' ?d"
  proof
    assume "kern_pgdir s - KERNBASE \<in> frames s' ?d"
    then consider "kern_pgdir s - KERNBASE = page2pa p"
      | i where "has_pt s' ?d i" "kern_pgdir s - KERNBASE = PTE_ADDR (pde_of s' ?d i)"
      by (auto simp: frames_def)
    then show False
      using new_dir_entries(2) [OF post] pde pgdir_okD(4) [OF kp] kn [of "kern_pgdir s - KERNBASE"]
      by cases (metis frames_simps(1))+
  qed
  have "PTE_ADDR (pde_of s (kern_pgdir s) i) \<notin> frames s' ?d"
    if hp: "has_pt s (kern_pgdir s) i" and lo: "i < PDX UTOP" for i
  proof
    assume "PTE_ADDR (pde_of s (kern_pgdir s) i) \<in> frames s' ?d"
    then obtain j where "has_pt s' ?d j" "PTE_ADDR (pde_of s (kern_pgdir s) i) = PTE_ADDR (pde_of s' ?d j)"
      using kn [OF frames_simps(3) [OF hp]] by (auto simp: frames_def)
    with new_dir_entries(2) [OF post, of j] pde [of j] pgdir_okD(5) [OF kp hp, of j] lo
    show False by auto
  qed
  with nk show "own_frames s (kern_pgdir s) \<inter> frames s' ?d = {}" by (auto simp: own_frames_def)
  note pp = setup_post_pages [OF ok f post]
  have fr: "frame_ok s' a" if "frame_ok s a" for a
    using that pp(2,3) f by (auto simp: frame_ok_def)
  have p: "p < unat (npages s)" "p \<notin> set xs" using page_alloc_takes [OF ok f page_alloc_hd [OF ok f, of 0]] by auto
  have "frame_ok s' (page2pa p)"
    using p pp(2,3) pages_okD(4) [OF ok] by (simp add: frame_ok_def PGNUM_page2pa word_less_nat_alt unat_of_nat)
  moreover have "PGOFF ?d = 0" using PGOFF_sub_KERNBASE [of ?d] by simp
  ultimately show "pgdir_ok s' ?d"
    unfolding pgdir_ok_def using new_dir_entries(2) [OF post] pde pgdir_okD(3,5) [OF kp] fr kn
    by (auto simp: frames_def)
qed

lemma setup_post_phys: "setup_post e p s s' \<Longrightarrow> PTE_ADDR a \<noteq> page2pa p \<Longrightarrow> phys s' a = phys s a"
  by (auto simp: setup_post_def)

text \<open>The spaces that existed before see nothing of the new one.\<close>

lemma new_space_old:
  assumes inv: "spaces_ok s D" and f: "free_pages s = p # xs" and post: "setup_post e p s s'" and d: "d \<in> D"
  shows "pgdir_ok s' d" and "frames s' d = frames s d" and "own_frames s' d = own_frames s d"
    and "tree_slot (PDX v) \<Longrightarrow> pte_of s' d v = pte_of s d v" and "mapped s' d i = mapped s d i"
    and "page2pa p \<notin> frames s d" and "d \<noteq> page2pa p + KERNBASE"
proof -
  have ok: "pages_ok s" and pd: "pgdir_ok s d" using inv d by (auto simp: spaces_ok_def)
  show nf: "page2pa p \<notin> frames s d"
    using frames_not_free [OF ok pd, of "page2pa p"] f by (auto simp: free_frames_def)
  then show "d \<noteq> page2pa p + KERNBASE" by (auto simp: frames_def)
  have ph: "phys s' a = phys s a" if "PTE_ADDR a \<in> frames s d" for a
    using nf that post by (metis setup_post_phys)
  note v = view_footprint [OF pd ph]
  show "frames s' d = frames s d" "own_frames s' d = own_frames s d"
    and pt: "\<And>v. tree_slot (PDX v) \<Longrightarrow> pte_of s' d v = pte_of s d v" by (rule v; assumption)+
  show "mapped s' d i = mapped s d i" using pt user_slot(1) by (auto simp: mapped_def)
  show "pgdir_ok s' d"
  proof (rule pgdir_ok_transfer [OF pd])
    show "phys s' (d - KERNBASE + 4 * i) = phys s (d - KERNBASE + 4 * i)" if "i < 1024" for i
      by (rule ph) (use that pgdir_okD(1) [OF pd] in simp)
    show "npages s' = npages s" by (rule setup_post_pages(3) [OF ok f post])
    show "frame_ok s' a" if "frame_ok s a" for a
      using that setup_post_pages(2,3) [OF ok f post] f by (auto simp: frame_ok_def)
  qed
qed

lemma new_space_empty:
  assumes "setup_post e p s s'" and "v < UTOP"
  shows "pte_of s' (page2pa p + KERNBASE) v = 0"
  using new_dir_entries(2) [OF assms(1), of "PDX v"] user_slot [OF assms(2)] by (intro pte_of_no_pt) auto

lemma new_space_disjoint:
  assumes inv: "spaces_ok s D" and k: "kern_pgdir s \<in> D" and f: "free_pages s = p # xs"
    and post: "setup_post e p s s'"
    and c: "c \<in> insert (page2pa p + KERNBASE) D" "c' \<in> insert (page2pa p + KERNBASE) D" "c \<noteq> c'"
  shows "own_frames s' c \<inter> frames s' c' = {}"
proof -
  let ?d = "page2pa p + KERNBASE"
  note old = new_space_old [OF inv f post]
  note new = new_space_frames [OF inv k f post]
  have dis: "own_frames s c \<inter> frames s c' = {}" if "c \<in> D" "c' \<in> D" "c \<noteq> c'" for c c'
    using inv that by (simp add: spaces_ok_def)
  from c consider "c = ?d" "c' \<in> D" | "c \<in> D" "c' = ?d" "c = kern_pgdir s"
    | "c \<in> D" "c' = ?d" "c \<noteq> kern_pgdir s" | "c \<in> D" "c' \<in> D" by blast
  then show ?thesis
  proof cases
    case 1
    then show ?thesis using old new(1) by simp
  next
    case 2
    then show ?thesis using old(3) new(4) by simp
  next
    case 3
    have "page2pa p \<notin> own_frames s c" using old(6) [OF 3(1)] own_frames_sub by blast
    then show ?thesis using 3 old(3) new(2) dis [OF 3(1) k 3(3)] by auto
  next
    case 4
    then show ?thesis using old c(3) dis by simp
  qed
qed

lemma new_space_data:
  assumes inv: "spaces_ok s D" and k: "kern_pgdir s \<in> D" and f: "free_pages s = p # xs"
    and post: "setup_post e p s s'" and sh: "shared_data s D i"
  shows "shared_data s' (insert (page2pa p + KERNBASE) D) i"
proof -
  have ok: "pages_ok s" using inv by (simp add: spaces_ok_def)
  note pp = setup_post_pages [OF ok f post]
  have i: "data_page s b i" if "b \<in> D" for b using sh that by (simp add: shared_data_def)
  note ik = i [OF k, unfolded data_page_iff]
  have "i \<noteq> p" using ik f by auto
  then have ne: "page2pa i \<noteq> page2pa p"
    using ik pages_okD(2) [OF ok, of p] pages_okD(4) [OF ok] f by (subst page2pa_inj) auto
  have "data_page s' b i" if "b \<in> D" for b
    using i [OF that] new_space_old(2) [OF inv f post that] pp f \<open>i \<noteq> p\<close> by (auto simp: data_page_iff)
  moreover have "data_page s' (page2pa p + KERNBASE) i"
    using ik new_space_frames(2) [OF inv k f post] ne pp f \<open>i \<noteq> p\<close> by (auto simp: data_page_iff)
  ultimately show ?thesis by (simp add: shared_data_def)
qed

lemma new_space:
  assumes inv: "spaces_ok s D" and k: "kern_pgdir s \<in> D" and f: "free_pages s = p # xs"
    and post: "setup_post e p s s'"
  shows "spaces_ok s' (insert (page2pa p + KERNBASE) D)"
proof -
  let ?d = "page2pa p + KERNBASE"
  have ok: "pages_ok s" and fin: "finite D" using inv by (auto simp: spaces_ok_def)
  note pp = setup_post_pages [OF ok f post]
  note old = new_space_old [OF inv f post]
  have data: "shared_data s' (insert ?d D) (pte_page (pte_of s' c v))"
    if c: "c \<in> insert ?d D" and v: "v < UTOP" "pte_of s' c v AND PTE_P \<noteq> 0" for c v
  proof -
    have "c \<in> D" using c v new_space_empty [OF post v(1)] by auto
    then have "shared_data s D (pte_page (pte_of s' c v))"
      using inv v old(4) user_slot(1) [OF v(1)] by (auto simp: spaces_ok_def)
    then show ?thesis by (rule new_space_data [OF inv k f post])
  qed
  have "(\<Sum>c\<in>insert ?d D. card (mapped s' c i)) \<le> unat (pp_ref (pages s' i))" for i
  proof -
    have "mapped s' ?d i = {}" using new_space_empty [OF post] by (auto simp: mapped_def)
    moreover have "?d \<notin> D" using old(7) by auto
    moreover have "(\<Sum>c\<in>D. card (mapped s' c i)) = (\<Sum>c\<in>D. card (mapped s c i))"
      using old(5) by (intro sum.cong) auto
    moreover have "(\<Sum>c\<in>D. card (mapped s c i)) \<le> unat (pp_ref (pages s i))" using inv by (simp add: spaces_ok_def)
    moreover have "unat (pp_ref (pages s i)) \<le> unat (pp_ref (pages s' i))"
      using pp(5) pages_okD(3) [OF ok, of p] f by auto
    ultimately show ?thesis using fin by simp
  qed
  moreover have "\<forall>c\<in>insert ?d D. pgdir_ok s' c" using old(1) new_space_frames(5) [OF inv k f post] by auto
  ultimately show ?thesis
    unfolding spaces_ok_def using pp(1) fin new_space_disjoint [OF inv k f post] data by auto
qed

section \<open>Allocation\<close>

lemma spaces_cong:
  assumes "npages s' = npages s" "pages s' = pages s" "page_free_list s' = page_free_list s" "phys s' = phys s"
  shows "spaces_ok s' D = spaces_ok s D" and "user_view d s' = user_view d s"
    and "shared_data s' D i = shared_data s D i" and "pgdir_ok s' d = pgdir_ok s d"
proof -
  note v = view_phys [OF assms(4)] pages_ok_cong [OF assms(1-3)]
  have "frames s' = frames s" "own_frames s' = own_frames s" "mapped s' = mapped s"
    by (simp_all add: frames_def own_frames_def mapped_def fun_eq_iff v)
  moreover have pd: "pgdir_ok s' d = pgdir_ok s d" for d by (simp add: pgdir_ok_def frame_ok_def v assms)
  moreover have sd: "shared_data s' D i = shared_data s D i" for i
    by (simp add: shared_data_def data_page_def v assms)
  ultimately show "spaces_ok s' D = spaces_ok s D" by (simp add: spaces_ok_def v assms)
  show "user_view d s' = user_view d s" by (auto simp: user_view_def v)
  show "pgdir_ok s' d = pgdir_ok s d" "shared_data s' D i = shared_data s D i" by (rule pd sd)+
qed

lemma env_free_list_pop:
  assumes ok: "envs_ok s" and f: "free_envs s = e # es"
    and l: "env_free_list s' = env_link (envs s e)" and o: "\<forall>i. i \<noteq> e \<longrightarrow> envs s' i = envs s i"
  shows "envs_ok s'" and "free_envs s' = es"
proof -
  note d = envs_okD [OF ok, unfolded f]
  have "chain (\<lambda>i. env_link (envs s' i)) (env_free_list s') es"
    by (rule chain_transfer [where nx = "\<lambda>i. env_link (envs s i)"]) (use d(1,4) l o in auto)
  moreover have "\<forall>i\<in>set es. i < NENV \<and> env_status (envs s' i) = ENV_FREE"
  proof
    fix i assume "i \<in> set es"
    moreover from this have "envs s' i = envs s i" using d(4) o by auto
    ultimately show "i < NENV \<and> env_status (envs s' i) = ENV_FREE" using d(2,3) by simp
  qed
  ultimately show "envs_ok s'" "free_envs s' = es" using envs_okI by blast+
qed

text \<open>The environment as \<^verbatim>\<open>env_alloc\<close> leaves it.\<close>

definition new_env :: "u32 \<Rightarrow> nat \<Rightarrow> u32 \<Rightarrow> Env \<Rightarrow> Env" where
  "new_env parent e pgdir v = v\<lparr>env_pgdir := pgdir, env_id := env_generation (env_id v) OR of_nat e,
     env_parent_id := parent, env_type := ENV_TYPE_USER, env_status := ENV_RUNNABLE, env_runs := 0,
     env_tf := tf_user, env_pgfault_upcall := 0, env_ipc_recving := False\<rparr>"

text \<open>The state of the processors and the lock.\<close>

definition cpu_kept :: "kstate \<Rightarrow> kstate \<Rightarrow> bool" where
  "cpu_kept s s' \<longleftrightarrow>
     kernel_lock s' = kernel_lock s \<and> cpunum_reg s' = cpunum_reg s \<and> cpus s' = cpus s"

lemma cpu_kept_refl [simp]: "cpu_kept s s"
  by (simp add: cpu_kept_def)

lemma cpu_kept_trans: "cpu_kept s s1 \<Longrightarrow> cpu_kept s1 s' \<Longrightarrow> cpu_kept s s'"
  by (simp add: cpu_kept_def)

lemma vm_frame_cpu: "vm_frame s s' \<Longrightarrow> cpu_kept s s'"
  using vm_frame_fields(6,7,9) [of s s'] by (simp add: cpu_kept_def)

text \<open>
  What an allocation leaves alone: the processor's registers, the self-maps of the directories, the
  counts of all pages in use, the content of those that programs map and all but the first of the
  free pages.
\<close>

definition alloc_frame :: "u32 set \<Rightarrow> kstate \<Rightarrow> kstate \<Rightarrow> bool" where
  "alloc_frame D s s' \<longleftrightarrow>
     cr3 s' = cr3 s \<and> cpunum_reg s' = cpunum_reg s \<and> cpu_kept s s' \<and> free_pages s' = tl (free_pages s) \<and>
     (\<forall>d\<in>D. pde_of s' d (PDX UVPT) = pde_of s d (PDX UVPT)) \<and>
     (\<forall>i. i \<notin> set (free_pages s) \<longrightarrow> pp_ref (pages s' i) = pp_ref (pages s i)) \<and> data_kept D s s'"

lemma setup_post_frame:
  assumes inv: "spaces_ok s D" and k: "kern_pgdir s \<in> D" and f: "free_pages s = p # xs" and post: "setup_post e p s s'"
  shows "alloc_frame D s s'"
proof -
  have ok: "pages_ok s" using inv by (simp add: spaces_ok_def)
  have "pde_of s' d (PDX UVPT) = pde_of s d (PDX UVPT)" if d: "d \<in> D" for d
  proof -
    have pd: "pgdir_ok s d" using inv d by (simp add: spaces_ok_def)
    have ph: "phys s' a = phys s a" if "PTE_ADDR a \<in> frames s d" for a
      using new_space_old(6) [OF inv f post d] that post by (metis setup_post_phys)
    show ?thesis by (rule view_footprint(1) [OF pd ph]) (simp_all add: word_less_nat_alt unat_PDX)
  qed
  moreover have "cr3 s' = cr3 s" "cpunum_reg s' = cpunum_reg s" "cpu_kept s s'"
    using post by (auto simp: setup_post_def cpu_kept_def)
  moreover have "data_kept D s s'"
    unfolding data_kept_def
  proof (intro allI impI)
    fix i a assume i: "shared_data s D i" and a: "PTE_ADDR a = page2pa i"
    have "page2pa p \<in> free_frames s" using f by (simp add: free_frames_def)
    with shared_data_frame(2) [OF inv k i] a show "phys s' a = phys s a" using post by (metis setup_post_phys)
  qed
  ultimately show ?thesis
    using setup_post_pages(2,5) [OF ok f post] f by (simp add: alloc_frame_def)
qed

lemma env_alloc_result:
  assumes eok: "envs_ok s" "free_envs s = e # es" and inv: "spaces_ok s D" "kern_pgdir s \<in> D"
    and f: "free_pages s = p # xs" and n: "unat (npages s) \<le> 65536"
  defines "d \<equiv> page2pa p + KERNBASE"
  shows "\<exists>s'. env_alloc parent s = Some (Inr e, s') \<and>
    envs s' = (envs s)(e := new_env parent e d (envs s e)) \<and> envs_ok s' \<and> free_envs s' = es \<and>
    free_pages s' = xs \<and> spaces_ok s' (insert d D) \<and> d \<notin> D \<and>
    (\<forall>v < UTOP. pte_of s' d v = 0) \<and>
    (\<forall>i. tree_slot i \<longrightarrow> PDX UTOP \<le> i \<longrightarrow> pde_of s' d i = pde_of s (kern_pgdir s) i) \<and>
    (\<forall>c\<in>D. user_view c s' = user_view c s) \<and>
    curenv s' = curenv s \<and> kernel_lock s' = kernel_lock s \<and> cons s' = cons s \<and>
    kern_pgdir s' = kern_pgdir s \<and> npages s' = npages s \<and> alloc_frame D s s'"
proof -
  have ok: "pages_ok s" and kp: "pgdir_ok s (kern_pgdir s)" using inv by (auto simp: spaces_ok_def)
  from env_setup_vm_effect [OF ok f n pgdir_okD(1,2) [OF kp], of e] obtain s1 where
    s1: "env_setup_vm e s = Some (0, s1)" and post: "setup_post e p s s1" by blast
  have fl: "env_free_list s = Some e" using envs_okD(1) [OF eok(1)] eok(2) by simp
  have e1: "envs s1 = (envs s)(e := (envs s e)\<lparr>env_pgdir := d\<rparr>)" "curenv s1 = curenv s"
    "kernel_lock s1 = kernel_lock s" "cons s1 = cons s" "kern_pgdir s1 = kern_pgdir s" "npages s1 = npages s"
    using post by (auto simp: setup_post_def d_def curenv_def)
  define s' where "s' = s1\<lparr>envs := (envs s)(e := new_env parent e d (envs s e)),
    env_free_list := env_link (envs s e)\<rparr>"
  have "env_alloc parent s = Some (Inr e, s')"
    by (simp add: env_alloc_def fl s1 upd_env_def e1 s'_def new_env_def Let_def)
  moreover have c: "npages s' = npages s1" "pages s' = pages s1" "page_free_list s' = page_free_list s1" "phys s' = phys s1"
    by (simp_all add: s'_def)
  note v = view_phys [OF c(4)] spaces_cong [OF c] pages_ok_cong [OF c(1-3)]
  have "envs_ok s'" "free_envs s' = es" by (rule env_free_list_pop [OF eok]; simp add: s'_def)+
  moreover have "free_pages s' = xs" using setup_post_pages(2) [OF ok f post] v by simp
  moreover have "spaces_ok s' (insert d D)" using new_space [OF inv f post] v by (simp add: d_def)
  moreover have "d \<notin> D" using new_space_old(7) [OF inv(1) f post] by (auto simp: d_def)
  moreover have "\<forall>a < UTOP. pte_of s' d a = 0" using new_space_empty [OF post] v by (simp add: d_def)
  moreover have "pde_of s' d i = pde_of s (kern_pgdir s) i" if "tree_slot i" "PDX UTOP \<le> i" for i
    using new_dir_entries(1) [OF post, of i] that v by (simp add: d_def tree_slot_def new_dir_def not_less [symmetric])
  moreover have "user_view a s' = user_view a s" if "a \<in> D" for a
    using new_space_old(4) [OF inv(1) f post that user_slot(1)] v by (auto simp: user_view_def)
  moreover have "envs s' = (envs s)(e := new_env parent e d (envs s e))" "curenv s' = curenv s"
    "kernel_lock s' = kernel_lock s" "cons s' = cons s" "kern_pgdir s' = kern_pgdir s" "npages s' = npages s"
    using e1 by (simp_all add: s'_def curenv_def)
  moreover have "alloc_frame D s s'"
  proof -
    have "cr3 s' = cr3 s1" "cpunum_reg s' = cpunum_reg s1" "cpu_kept s s' = cpu_kept s s1"
      by (simp_all add: s'_def cpu_kept_def)
    then show ?thesis
      using setup_post_frame [OF inv f post] v c(2,4) by (simp add: alloc_frame_def data_kept_def)
  qed
  ultimately show ?thesis by blast
qed

lemma env_alloc_fails:
  assumes "pages_ok s"
  shows "env_free_list s = None \<Longrightarrow> env_alloc parent s = Some (Inl (- E_NO_FREE_ENV), s)"
    and "env_free_list s = Some e \<Longrightarrow> free_pages s = [] \<Longrightarrow> env_alloc parent s = Some (Inl (- E_NO_MEM), s)"
  using page_alloc_empty [OF assms, of ALLOC_ZERO] by (simp_all add: env_alloc_def env_setup_vm_def)

end
