(* ===== verification/Sched.thy ===== *)
theory Sched
  imports Envs
begin

text \<open>
  The scheduler of \<^verbatim>\<open>kern/sched.c\<close> and the two operations that may end in it:
  \<^verbatim>\<open>env_destroy\<close> of \<^verbatim>\<open>kern/env.c\<close> and \<^verbatim>\<open>user_mem_assert\<close> of \<^verbatim>\<open>kern/pmap.c\<close>.
\<close>

section \<open>Operations\<close>

definition cpu_set_status :: "u32 \<Rightarrow> kstate \<Rightarrow> kstate" where
  "cpu_set_status v s =
     s\<lparr>cpus := (cpus s)(cpunum_reg s := (cpus s (cpunum_reg s))\<lparr>cpu_status := v\<rparr>)\<rparr>"

definition sched_halt :: "kstate \<Rightarrow> 'a kout option" where
  "sched_halt s =
     (if \<forall>i\<in>set [0..<NENV]. \<not> (env_status (envs s i) = ENV_RUNNABLE \<or>
           env_status (envs s i) = ENV_RUNNING \<or> env_status (envs s i) = ENV_DYING)
      then Some (Leaves InMonitor s)
      else do {
        cr \<leftarrow> PADDR (kern_pgdir s);
        s \<leftarrow> unlock_kernel (cpu_set_status CPU_HALTED (lcr3 cr (set_curenv None s)));
        Some (Leaves Halted s)})"

definition sched_begin :: "kstate \<Rightarrow> nat" where
  "sched_begin s = (case curenv s of None \<Rightarrow> 0 | Some c \<Rightarrow> ENVX (env_id (envs s c)) + 1)"

definition sched_yield :: "kstate \<Rightarrow> 'a kout option" where
  "sched_yield s =
     (case find (\<lambda>index. env_status (envs s index) = ENV_RUNNABLE)
            (map (\<lambda>i. (sched_begin s + i) mod NENV) [0..<NENV]) of
        Some index \<Rightarrow> env_run index s
      | None \<Rightarrow>
          (case curenv s of
             Some c \<Rightarrow> if env_status (envs s c) = ENV_RUNNING then env_run c s else sched_halt s
           | None \<Rightarrow> sched_halt s))"

definition env_destroy :: "nat \<Rightarrow> kstate \<Rightarrow> unit kout option" where
  "env_destroy e s =
     (if env_status (envs s e) = ENV_RUNNING \<and> curenv s \<noteq> Some e
      then Some (Returns () (upd_env e (\<lambda>v. v\<lparr>env_status := ENV_DYING\<rparr>) s))
      else do {
        s \<leftarrow> env_free e s;
        (if curenv s = Some e then sched_yield (set_curenv None s) else Some (Returns () s))})"

definition user_mem_assert :: "nat \<Rightarrow> u32 \<Rightarrow> u32 \<Rightarrow> u32 \<Rightarrow> kstate \<Rightarrow> unit kout option" where
  "user_mem_assert e va len perm s = do {
     (r, s) \<leftarrow> user_mem_check e va len (perm OR PTE_U) s;
     (if sint r < 0 then env_destroy e s else Some (Returns () s))}"

end
