(* ===== verification/Syscall.thy ===== *)
theory Syscall
  imports Sched
begin

text \<open>
  The system calls of \<^verbatim>\<open>kern/syscall.c\<close> and their dispatcher. A call returns an \<^verbatim>\<open>int\<close> (a
  32-bit word, errors negative) with the new state, or leaves the kernel. A null \<^verbatim>\<open>curenv\<close> or
  environment is dereferenced to a panic. The console output of \<^verbatim>\<open>sys_cputs\<close> goes through the
  console's \<^verbatim>\<open>cputchar\<close>; \<open>print_str\<close> is the \<^verbatim>\<open>%.*s\<close> case of \<^verbatim>\<open>vprintfmt\<close>, which is all that call
  uses of it.
\<close>

section \<open>Console calls\<close>

text \<open>
  The loop reads a character before it looks at the remaining precision; a negative precision
  means no limit. Characters are signed, so they reach \<^verbatim>\<open>putch\<close> sign-extended.
\<close>

definition putch_char :: "u8 \<Rightarrow> kstate \<Rightarrow> kstate" where
  "putch_char ch s = s\<lparr>cons := cputchar (scast ch) (cons s)\<rparr>"

partial_function (option) print_str :: "u32 \<Rightarrow> int \<Rightarrow> kstate \<Rightarrow> kstate option" where
  "print_str p precision s = do {
     ch \<leftarrow> vld8 p s;
     (if ch = 0 then Some s
      else if precision < 0 then print_str (p + 1) precision (putch_char ch s)
      else if precision - 1 \<ge> 0 then print_str (p + 1) (precision - 1) (putch_char ch s)
      else Some s)}"

definition print_null :: "int \<Rightarrow> kstate \<Rightarrow> kstate" where
  "print_null precision s =
     fold (\<lambda>c. putch_char (of_char c))
       (if precision < 0 then ''(null)'' else take (nat precision) ''(null)'') s"

definition cprintf_str :: "u32 \<Rightarrow> u32 \<Rightarrow> kstate \<Rightarrow> kstate option" where
  "cprintf_str len p s =
     (if p = 0 then Some (print_null (sint len) s) else print_str p (sint len) s)"

definition sys_cputs :: "u32 \<Rightarrow> u32 \<Rightarrow> kstate \<Rightarrow> unit kout option" where
  "sys_cputs p len s =
     (case curenv s of
        None \<Rightarrow> None
      | Some c \<Rightarrow> kbind (user_mem_assert c p len 0 s) (\<lambda>_ s. do {
          s \<leftarrow> cprintf_str len p s;
          Some (Returns () s)}))"

definition sys_cgetc :: "kstate \<Rightarrow> u32 kout option" where
  "sys_cgetc s = do {
     (c, con) \<leftarrow> cons_getc (cons s);
     Some (Returns c (s\<lparr>cons := con\<rparr>))}"

section \<open>Environment calls\<close>

definition sys_getenvid :: "kstate \<Rightarrow> u32 kout option" where
  "sys_getenvid s =
     (case curenv s of None \<Rightarrow> None | Some c \<Rightarrow> Some (Returns (env_id (envs s c)) s))"

definition sys_env_destroy :: "u32 \<Rightarrow> kstate \<Rightarrow> u32 kout option" where
  "sys_env_destroy envid s = do {
     r \<leftarrow> envid2env envid True s;
     (case r of
        Inl r \<Rightarrow> Some (Returns r s)
      | Inr None \<Rightarrow> None
      | Inr (Some e) \<Rightarrow> kbind (env_destroy e s) (\<lambda>_ s. Some (Returns 0 s)))}"

definition sys_yield :: "kstate \<Rightarrow> u32 kout option" where
  "sys_yield s = sched_yield s"

definition sys_exofork :: "kstate \<Rightarrow> u32 kout option" where
  "sys_exofork s =
     (case curenv s of
        None \<Rightarrow> None
      | Some c \<Rightarrow> do {
          (r, s) \<leftarrow> env_alloc (env_id (envs s c)) s;
          (case r of
             Inl r \<Rightarrow> Some (Returns r s)
           | Inr e \<Rightarrow>
               let tf = env_tf (envs s c);
                   s = upd_env e (\<lambda>v. v\<lparr>env_status := ENV_NOT_RUNNABLE,
                         env_tf := tf\<lparr>tf_regs := (tf_regs tf)\<lparr>reg_eax := 0\<rparr>\<rparr>\<rparr>) s
               in Some (Returns (env_id (envs s e)) s))})"

definition sys_env_set_status :: "u32 \<Rightarrow> u32 \<Rightarrow> kstate \<Rightarrow> u32 kout option" where
  "sys_env_set_status envid status s =
     (if status \<noteq> ENV_RUNNABLE \<and> status \<noteq> ENV_NOT_RUNNABLE then Some (Returns (- E_INVAL) s)
      else do {
        r \<leftarrow> envid2env envid True s;
        (case r of
           Inl _ \<Rightarrow> Some (Returns (- E_BAD_ENV) s)
         | Inr None \<Rightarrow> None
         | Inr (Some e) \<Rightarrow> Some (Returns 0 (upd_env e (\<lambda>v. v\<lparr>env_status := status\<rparr>) s)))})"

definition sys_env_set_pgfault_upcall :: "u32 \<Rightarrow> u32 \<Rightarrow> kstate \<Rightarrow> u32 kout option" where
  "sys_env_set_pgfault_upcall envid func s = do {
     r \<leftarrow> envid2env envid True s;
     (case r of
        Inl _ \<Rightarrow> Some (Returns (- E_BAD_ENV) s)
      | Inr None \<Rightarrow> None
      | Inr (Some e) \<Rightarrow> Some (Returns 0 (upd_env e (\<lambda>v. v\<lparr>env_pgfault_upcall := func\<rparr>) s)))}"

section \<open>Memory calls\<close>

definition bad_va :: "u32 \<Rightarrow> bool" where
  "bad_va va \<longleftrightarrow> va \<ge> UTOP \<or> PGOFF va \<noteq> 0"

definition bad_perm :: "u32 \<Rightarrow> bool" where
  "bad_perm perm \<longleftrightarrow> perm AND PTE_U = 0 \<or> perm AND PTE_P = 0 \<or> perm AND NOT PTE_SYSCALL \<noteq> 0"

definition sys_page_alloc :: "u32 \<Rightarrow> u32 \<Rightarrow> u32 \<Rightarrow> kstate \<Rightarrow> u32 kout option" where
  "sys_page_alloc envid va perm s = do {
     r \<leftarrow> envid2env envid True s;
     (case r of
        Inl _ \<Rightarrow> Some (Returns (- E_BAD_ENV) s)
      | Inr e \<Rightarrow>
          if bad_va va then Some (Returns (- E_INVAL) s)
          else if bad_perm perm then Some (Returns (- E_INVAL) s)
          else do {
            (pi, s) \<leftarrow> page_alloc ALLOC_ZERO s;
            (case pi of
               None \<Rightarrow> Some (Returns (- E_INVAL) s)
             | Some pi \<Rightarrow>
                 (case e of
                    None \<Rightarrow> None
                  | Some e \<Rightarrow> do {
                      (r, s) \<leftarrow> page_insert (env_pgdir (envs s e)) pi va perm s;
                      (if sint r < 0 then do {
                         s \<leftarrow> page_free pi s;
                         Some (Returns (- E_NO_MEM) s)}
                       else Some (Returns 0 s))}))})}"

definition sys_page_map :: "u32 \<Rightarrow> u32 \<Rightarrow> u32 \<Rightarrow> u32 \<Rightarrow> u32 \<Rightarrow> kstate \<Rightarrow> u32 kout option" where
  "sys_page_map srcenvid srcva dstenvid dstva perm s = do {
     src_env \<leftarrow> envid2env srcenvid True s;
     (case src_env of
        Inl _ \<Rightarrow> Some (Returns (- E_BAD_ENV) s)
      | Inr src_env \<Rightarrow> do {
     dst_env \<leftarrow> envid2env dstenvid True s;
     (case dst_env of
        Inl _ \<Rightarrow> Some (Returns (- E_BAD_ENV) s)
      | Inr dst_env \<Rightarrow>
     if bad_va srcva \<or> bad_va dstva then Some (Returns (- E_INVAL) s)
     else if bad_perm perm then Some (Returns (- E_INVAL) s)
     else (case (src_env, dst_env) of
        (Some src_env, Some dst_env) \<Rightarrow> do {
          pp \<leftarrow> page_lookup (env_pgdir (envs s src_env)) srcva s;
          (case pp of
             None \<Rightarrow> Some (Returns (- E_INVAL) s)
           | Some (pp, pte) \<Rightarrow>
               if ld s pte AND PTE_W = 0 \<and> perm AND PTE_W \<noteq> 0 then Some (Returns (- E_INVAL) s)
               else do {
                 (r, s) \<leftarrow> page_insert (env_pgdir (envs s dst_env)) pp dstva perm s;
                 (if sint r < 0 then Some (Returns (- E_INVAL) s) else Some (Returns 0 s))})}
      | _ \<Rightarrow> None))})}"

definition sys_page_unmap :: "u32 \<Rightarrow> u32 \<Rightarrow> kstate \<Rightarrow> u32 kout option" where
  "sys_page_unmap envid va s = do {
     r \<leftarrow> envid2env envid True s;
     (case r of
        Inl _ \<Rightarrow> Some (Returns (- E_BAD_ENV) s)
      | Inr e \<Rightarrow>
          if bad_va va then Some (Returns (- E_INVAL) s)
          else (case e of
             None \<Rightarrow> None
           | Some e \<Rightarrow> do {
               s \<leftarrow> page_remove (env_pgdir (envs s e)) va s;
               Some (Returns 0 s)}))}"

section \<open>IPC calls\<close>

text \<open>
  \<^verbatim>\<open>sys_ipc_try_send\<close> reads \<^verbatim>\<open>*pte\<close> before it knows that \<^verbatim>\<open>page_lookup\<close> found a page. When it
  did not, \<^verbatim>\<open>pte\<close> is the uninitialised local variable, whose value is the parameter \<open>junk\<close>.
\<close>

definition ipc_deliver :: "nat \<Rightarrow> nat \<Rightarrow> u32 \<Rightarrow> kstate \<Rightarrow> kstate" where
  "ipc_deliver env from value s =
     upd_env env (\<lambda>v. v\<lparr>env_ipc_recving := False, env_ipc_from := env_id (envs s from),
       env_ipc_value := value, env_status := ENV_RUNNABLE,
       env_tf := (env_tf v)\<lparr>tf_regs := (tf_regs (env_tf v))\<lparr>reg_eax := 0\<rparr>\<rparr>\<rparr>) s"

definition ipc_send_page :: "u32 \<Rightarrow> nat \<Rightarrow> nat \<Rightarrow> u32 \<Rightarrow> u32 \<Rightarrow> kstate \<Rightarrow> (u32 \<times> kstate) option" where
  "ipc_send_page junk from env srcva perm s = do {
     pg \<leftarrow> page_lookup (env_pgdir (envs s from)) srcva s;
     (if srcva \<noteq> ROUNDDOWN srcva PGSIZE then Some (- E_INVAL, s)
      else do {
        pte \<leftarrow> (case pg of None \<Rightarrow> vld32 junk s | Some (_, pte) \<Rightarrow> Some (ld s pte));
        (if pte AND perm AND PTE_SYSCALL \<noteq> perm AND PTE_SYSCALL then Some (- E_INVAL, s)
         else (case pg of
             None \<Rightarrow> Some (- E_INVAL, s)
           | Some (pg, _) \<Rightarrow>
               if perm AND PTE_W \<noteq> 0 \<and> pte AND PTE_W = 0 then Some (- E_INVAL, s)
               else if env_ipc_dstva (envs s env) < UTOP then do {
                 (r, s) \<leftarrow> page_insert (env_pgdir (envs s env)) pg (env_ipc_dstva (envs s env)) perm s;
                 (if sint r < 0 then Some (- E_NO_MEM, s)
                  else Some (0, upd_env env (\<lambda>v. v\<lparr>env_ipc_perm := perm\<rparr>) s))}
               else Some (0, s)))})}"

definition sys_ipc_try_send :: "u32 \<Rightarrow> u32 \<Rightarrow> u32 \<Rightarrow> u32 \<Rightarrow> u32 \<Rightarrow> kstate \<Rightarrow> u32 kout option" where
  "sys_ipc_try_send junk envid value srcva perm s = do {
     r \<leftarrow> envid2env envid False s;
     (case r of
        Inl _ \<Rightarrow> Some (Returns (- E_BAD_ENV) s)
      | Inr None \<Rightarrow> None
      | Inr (Some env) \<Rightarrow>
          if \<not> env_ipc_recving (envs s env) then Some (Returns (- E_IPC_NOT_RECV) s)
          else (case curenv s of
             None \<Rightarrow> None
           | Some c \<Rightarrow>
               if srcva < UTOP then do {
                 (r, s) \<leftarrow> ipc_send_page junk c env srcva perm s;
                 (if r \<noteq> 0 then Some (Returns r s) else Some (Returns 0 (ipc_deliver env c value s)))}
               else Some (Returns 0 (ipc_deliver env c value s))))}"

definition sys_ipc_recv :: "u32 \<Rightarrow> kstate \<Rightarrow> u32 kout option" where
  "sys_ipc_recv dstva s =
     (if dstva < UTOP \<and> PGOFF dstva \<noteq> 0 then Some (Returns (- E_INVAL) s)
      else (case curenv s of
         None \<Rightarrow> None
       | Some c \<Rightarrow> sched_yield (upd_env c (\<lambda>v. v\<lparr>env_ipc_recving := True, env_ipc_dstva := dstva,
           env_ipc_value := 0, env_ipc_from := 0, env_ipc_perm := 0,
           env_status := ENV_NOT_RUNNABLE\<rparr>) s)))"

section \<open>Dispatcher\<close>

abbreviation (input) SYS_cputs :: u32 where "SYS_cputs \<equiv> 0"
abbreviation (input) SYS_cgetc :: u32 where "SYS_cgetc \<equiv> 1"
abbreviation (input) SYS_getenvid :: u32 where "SYS_getenvid \<equiv> 2"
abbreviation (input) SYS_env_destroy :: u32 where "SYS_env_destroy \<equiv> 3"
abbreviation (input) SYS_page_alloc :: u32 where "SYS_page_alloc \<equiv> 4"
abbreviation (input) SYS_page_map :: u32 where "SYS_page_map \<equiv> 5"
abbreviation (input) SYS_page_unmap :: u32 where "SYS_page_unmap \<equiv> 6"
abbreviation (input) SYS_exofork :: u32 where "SYS_exofork \<equiv> 7"
abbreviation (input) SYS_env_set_status :: u32 where "SYS_env_set_status \<equiv> 8"
abbreviation (input) SYS_env_set_pgfault_upcall :: u32 where "SYS_env_set_pgfault_upcall \<equiv> 9"
abbreviation (input) SYS_yield :: u32 where "SYS_yield \<equiv> 10"
abbreviation (input) SYS_ipc_try_send :: u32 where "SYS_ipc_try_send \<equiv> 11"
abbreviation (input) SYS_ipc_recv :: u32 where "SYS_ipc_recv \<equiv> 12"

definition syscall ::
  "u32 \<Rightarrow> u32 \<Rightarrow> u32 \<Rightarrow> u32 \<Rightarrow> u32 \<Rightarrow> u32 \<Rightarrow> u32 \<Rightarrow> kstate \<Rightarrow> u32 kout option" where
  "syscall junk syscallno a1 a2 a3 a4 a5 s =
     (if syscallno = SYS_cputs then kbind (sys_cputs a1 a2 s) (\<lambda>_ s. Some (Returns 0 s))
      else if syscallno = SYS_cgetc then sys_cgetc s
      else if syscallno = SYS_getenvid then sys_getenvid s
      else if syscallno = SYS_env_destroy then sys_env_destroy a1 s
      else if syscallno = SYS_yield then sys_yield s
      else if syscallno = SYS_exofork then sys_exofork s
      else if syscallno = SYS_env_set_status then sys_env_set_status a1 a2 s
      else if syscallno = SYS_page_alloc then sys_page_alloc a1 a2 a3 s
      else if syscallno = SYS_page_map then sys_page_map a1 a2 a3 a4 a5 s
      else if syscallno = SYS_page_unmap then sys_page_unmap a1 a2 s
      else if syscallno = SYS_env_set_pgfault_upcall then sys_env_set_pgfault_upcall a1 a2 s
      else if syscallno = SYS_ipc_try_send then sys_ipc_try_send junk a1 a2 a3 a4 s
      else if syscallno = SYS_ipc_recv then sys_ipc_recv a1 s
      else Some (Returns (- E_INVAL) s))"

end
