(* ===== verification/Trap.thy ===== *)
theory Trap
  imports Syscall
begin

text \<open>
  Interrupt handling of \<^verbatim>\<open>kern/trap.c\<close>: the descriptor tables, the dispatcher and the user-mode
  page fault upcall. The trap frame is either the copy on the kernel stack or, after a trap
  from user mode, the one saved in the environment. Inputs of the hardware are parameters:
  \<open>eflags\<close> and \<open>cr2\<close> are the registers the handler reads, \<open>panicked\<close> says that another CPU has
  set \<^verbatim>\<open>panicstr\<close>, \<open>junk\<close> is the uninitialised local of \<^verbatim>\<open>sys_ipc_try_send\<close>. Addresses fixed by
  the linker (the entry stubs, the task state segments) are parameters too. Printing of trap
  frames and the end-of-interrupt write to the local APIC have no effect on the modelled state.
\<close>

section \<open>Names\<close>

abbreviation (input) T_DIVIDE :: nat where "T_DIVIDE \<equiv> 0"
abbreviation (input) T_BRKPT :: u32 where "T_BRKPT \<equiv> 3"
abbreviation (input) T_PGFLT :: u32 where "T_PGFLT \<equiv> 14"
abbreviation (input) T_SYSCALL :: u32 where "T_SYSCALL \<equiv> 48"
abbreviation (input) IRQ_OFFSET :: u32 where "IRQ_OFFSET \<equiv> 32"
abbreviation (input) IRQ_TIMER :: u32 where "IRQ_TIMER \<equiv> 0"

definition excnames :: "string list" where
  "excnames = [''Divide error'', ''Debug'', ''Non-Maskable Interrupt'', ''Breakpoint'', ''Overflow'',
     ''BOUND Range Exceeded'', ''Invalid Opcode'', ''Device Not Available'', ''Double Fault'',
     ''Coprocessor Segment Overrun'', ''Invalid TSS'', ''Segment Not Present'', ''Stack Fault'',
     ''General Protection'', ''Page Fault'', ''(unknown trap)'', ''x87 FPU Floating-Point Error'',
     ''Alignment Check'', ''Machine-Check'', ''SIMD Floating-Point Exception'']"

definition trapname :: "u32 \<Rightarrow> string" where
  "trapname trapno =
     (if unat trapno < length excnames then excnames ! unat trapno
      else if trapno = T_SYSCALL then ''System call''
      else if sint trapno \<ge> 32 \<and> sint trapno < 32 + 16 then ''Hardware Interrupt''
      else ''(unknown trap)'')"

section \<open>Descriptor tables\<close>

text \<open>Vector and privilege level of every gate that \<^verbatim>\<open>trap_init\<close> sets, in its order.\<close>

definition gates :: "(nat \<times> u32) list" where
  "gates = [(0, 0), (1, 0), (2, 0), (3, 3), (4, 0), (5, 0), (6, 0), (7, 0), (8, 0), (10, 0), (11, 0),
     (12, 0), (13, 0), (14, 0), (16, 0), (17, 0), (18, 0), (19, 0), (48, 3),
     (32 + 19, 3), (32 + 14, 3), (32 + 1, 3), (32 + 4, 3), (32 + 7, 3), (32 + 0, 3)]"

definition upd_ts :: "(Taskstate \<Rightarrow> Taskstate) \<Rightarrow> kstate \<Rightarrow> kstate" where
  "upd_ts f s =
     s\<lparr>cpus := (cpus s)(cpunum_reg s := (cpus s (cpunum_reg s))
         \<lparr>cpu_ts := f (cpu_ts (cpus s (cpunum_reg s)))\<rparr>)\<rparr>"

definition trap_init_percpu :: "(nat \<Rightarrow> u32) \<Rightarrow> kstate \<Rightarrow> kstate" where
  "trap_init_percpu ts_addr s =
     (let cpu_num = cpunum_reg s;
          s = upd_ts (\<lambda>t. t\<lparr>ts_esp0 := KSTACKTOP - of_nat cpu_num * (KSTKSIZE + KSTKGAP),
                ts_ss0 := GD_KD, ts_iomb := of_nat sizeof_Taskstate\<rparr>) s;
          d = (SEG16 STS_T32A (ts_addr cpu_num) (of_nat sizeof_Taskstate - 1) 0)\<lparr>sd_s := 0\<rparr>
      in s\<lparr>gdt := (gdt s)(5 + cpu_num := d),
           task_reg := (task_reg s)(cpu_num := GD_TSS0 + push_bit 3 (of_nat cpu_num))\<rparr>)"

definition trap_init :: "(nat \<Rightarrow> u32) \<Rightarrow> (nat \<Rightarrow> u32) \<Rightarrow> kstate \<Rightarrow> kstate" where
  "trap_init entry ts_addr s =
     trap_init_percpu ts_addr
       (s\<lparr>idt := fold (\<lambda>(v, dpl) d. d(v := SETGATE False GD_KT (entry v) dpl)) gates (idt s)\<rparr>)"

section \<open>Handlers\<close>

datatype tfref = OnStack Trapframe | EnvTf nat

definition get_tf :: "tfref \<Rightarrow> kstate \<Rightarrow> Trapframe" where
  "get_tf r s = (case r of OnStack tf \<Rightarrow> tf | EnvTf e \<Rightarrow> env_tf (envs s e))"

abbreviation (input) sizeof_UTrapframe :: u32 where "sizeof_UTrapframe \<equiv> 52"

definition utf_words :: "u32 \<Rightarrow> Trapframe \<Rightarrow> u32 list" where
  "utf_words fault_va tf =
     (let r = tf_regs tf in
      [fault_va, tf_err tf,
       reg_edi r, reg_esi r, reg_ebp r, reg_oesp r, reg_ebx r, reg_edx r, reg_ecx r, reg_eax r,
       tf_eip tf, tf_eflags tf, tf_esp tf])"

definition push_utf :: "u32 \<Rightarrow> u32 list \<Rightarrow> kstate \<Rightarrow> kstate option" where
  "push_utf utf ws s = foldM (\<lambda>(k, w). vst32 (utf + 4 * of_nat k) w) (enumerate 0 ws) s"

definition fault_stacktop :: "Trapframe \<Rightarrow> u32" where
  "fault_stacktop tf =
     (if tf_esp tf > UXSTACKTOP - PGSIZE \<and> tf_esp tf < UXSTACKTOP then tf_esp tf else UXSTACKTOP)"

definition page_fault_handler :: "u32 \<Rightarrow> tfref \<Rightarrow> kstate \<Rightarrow> unit kout option" where
  "page_fault_handler fault_va r s =
     (let tf = get_tf r s in
      if tf_cs tf AND 3 = 0 then None
      else (case curenv s of
         None \<Rightarrow> None
       | Some c \<Rightarrow>
           if env_pgfault_upcall (envs s c) \<noteq> 0 then
             (let sz = sizeof_UTrapframe + 4; utf = fault_stacktop tf - sz in
              kbind (user_mem_assert c utf sz (PTE_U OR PTE_W) s) (\<lambda>_ s. do {
                s \<leftarrow> push_utf utf (utf_words fault_va (get_tf r s)) s;
                env_run c (upd_env c (\<lambda>v. v\<lparr>env_tf := (env_tf v)
                  \<lparr>tf_eip := env_pgfault_upcall v, tf_esp := utf\<rparr>\<rparr>) s)}))
           else env_destroy c s))"

definition set_eax :: "tfref \<Rightarrow> u32 \<Rightarrow> kstate \<Rightarrow> kstate" where
  "set_eax r v s =
     (case r of
        OnStack _ \<Rightarrow> s
      | EnvTf e \<Rightarrow> upd_env e (\<lambda>x. x\<lparr>env_tf := (env_tf x)
          \<lparr>tf_regs := (tf_regs (env_tf x))\<lparr>reg_eax := v\<rparr>\<rparr>\<rparr>) s)"

definition trap_dispatch :: "u32 \<Rightarrow> u32 \<Rightarrow> tfref \<Rightarrow> kstate \<Rightarrow> unit kout option" where
  "trap_dispatch junk cr2 r s =
     (let tf = get_tf r s; regs = tf_regs tf in
      if tf_trapno tf = T_PGFLT then page_fault_handler cr2 r s
      else if tf_trapno tf = T_BRKPT then Some (Leaves InMonitor s)
      else if tf_trapno tf = T_SYSCALL then
        kbind (syscall junk (reg_eax regs) (reg_edx regs) (reg_ecx regs) (reg_ebx regs) (reg_edi regs)
                 (reg_esi regs) s) (\<lambda>ret s. Some (Returns () (set_eax r ret s)))
      else if tf_trapno tf = IRQ_OFFSET + IRQ_TIMER then sched_yield s
      else if tf_cs tf = GD_KT then None
      else (case curenv s of None \<Rightarrow> None | Some c \<Rightarrow> env_destroy c s))"

text \<open>The part of \<^verbatim>\<open>trap\<close> for a trap from user mode, up to the saved frame.\<close>

definition trap_user_entry :: "Trapframe \<Rightarrow> kstate \<Rightarrow> tfref kout option" where
  "trap_user_entry tf s =
     (case curenv s of
        None \<Rightarrow> None
      | Some c \<Rightarrow> kbind (lock_kernel s) (\<lambda>_ s.
          if env_status (envs s c) = ENV_DYING then do {
            s \<leftarrow> env_free c s;
            sched_yield (set_curenv None s)}
          else Some (Returns (EnvTf c) (upd_env c (\<lambda>v. v\<lparr>env_tf := tf\<rparr>) s))))"

definition trap :: "bool \<Rightarrow> u32 \<Rightarrow> u32 \<Rightarrow> u32 \<Rightarrow> Trapframe \<Rightarrow> kstate \<Rightarrow> unit kout option" where
  "trap panicked eflags cr2 junk tf s =
     (if panicked then Some (Leaves Stopped s)
      else let halted = (cpu_status (cpus s (cpunum_reg s)) = CPU_HALTED);
               s = cpu_set_status CPU_STARTED s
      in kbind (if halted then lock_kernel s else Some (Returns () s)) (\<lambda>_ s.
           if eflags AND FL_IF \<noteq> 0 then None
           else kbind (if tf_cs tf AND 3 = 3 then trap_user_entry tf s
                       else Some (Returns (OnStack tf) s)) (\<lambda>r s.
             kbind (trap_dispatch junk cr2 r s) (\<lambda>_ s.
               (case curenv s of
                  None \<Rightarrow> sched_yield s
                | Some c \<Rightarrow> if env_status (envs s c) = ENV_RUNNING then env_run c s
                            else sched_yield s)))))"

end
