(* ===== verification/Exits.thy ===== *)
theory Exits
  imports Trap
begin

text \<open>
  How paths through the kernel end. Every exit to user mode goes through \<^verbatim>\<open>env_run\<close> and every
  idle CPU through \<^verbatim>\<open>sched_halt\<close>; the lemmas carry what these two establish up to the trap
  handler.
\<close>

section \<open>Running an environment\<close>

lemma lock_fields [frame_simps]:
  "unlock_kernel s = Some s' \<longleftrightarrow>
     holding (kernel_lock s) (cpunum_reg s) \<and> s' = s\<lparr>kernel_lock := \<lparr>locked = 0, lk_cpu = None\<rparr>\<rparr>"
  by (auto simp: unlock_kernel_def)

text \<open>The environment that had the CPU goes back to the runnable ones.\<close>

definition preempted :: "kstate \<Rightarrow> nat \<Rightarrow> Env" where
  "preempted s i =
     (if curenv s = Some i \<and> env_status (envs s i) = ENV_RUNNING
      then (envs s i)\<lparr>env_status := ENV_RUNNABLE\<rparr> else envs s i)"

definition runs :: "nat \<Rightarrow> kstate \<Rightarrow> kstate \<Rightarrow> bool" where
  "runs e s s' \<longleftrightarrow>
     curenv s' = Some e \<and> cpunum_reg s' = cpunum_reg s \<and>
     cr3 s' (cpunum_reg s') = env_pgdir (envs s e) - KERNBASE \<and>
     kernel_lock s' = \<lparr>locked = 0, lk_cpu = None\<rparr> \<and>
     envs s' = (\<lambda>i. if i = e then (preempted s e)\<lparr>env_status := ENV_RUNNING,
         env_runs := env_runs (envs s e) + 1, env_cpunum := cpunum_reg s\<rparr> else preempted s i) \<and>
     phys s' = phys s \<and> pages s' = pages s \<and> page_free_list s' = page_free_list s \<and>
     npages s' = npages s \<and> kern_pgdir s' = kern_pgdir s \<and> cons s' = cons s"

definition run_state :: "nat \<Rightarrow> kstate \<Rightarrow> kstate" where
  "run_state e s = s
     \<lparr>envs := (\<lambda>i. if i = e then (preempted s e)\<lparr>env_status := ENV_RUNNING,
         env_runs := env_runs (envs s e) + 1, env_cpunum := cpunum_reg s\<rparr> else preempted s i),
      cpus := (cpus s)(cpunum_reg s := (cpus s (cpunum_reg s))\<lparr>cpu_env := Some e\<rparr>),
      cr3 := (cr3 s)(cpunum_reg s := env_pgdir (envs s e) - KERNBASE),
      kernel_lock := \<lparr>locked = 0, lk_cpu = None\<rparr>\<rparr>"

lemma env_run_eq:
  "env_run e s = (if holding (kernel_lock s) (cpunum_reg s) \<and> KERNBASE \<le> env_pgdir (envs s e)
     then Some (Leaves (ToUser e) (run_state e s)) else None)"
proof -
  define s1 where "s1 = s\<lparr>envs := preempted s\<rparr>"
  have s1: "(case curenv s of
                 None \<Rightarrow> s
               | Some c \<Rightarrow> if env_status (envs s c) = ENV_RUNNING
                           then upd_env c (\<lambda>v. v\<lparr>env_status := ENV_RUNNABLE\<rparr>) s else s) = s1"
    by (rule kstate.equality) (auto simp: s1_def preempted_def upd_env_def fun_eq_iff split: option.split)
  define s2 where "s2 = upd_env e (\<lambda>v. v\<lparr>env_status := ENV_RUNNING, env_runs := env_runs v + 1\<rparr>)
     (set_curenv (Some e) s1)"
  have f: "kernel_lock s2 = kernel_lock s" "cpunum_reg s2 = cpunum_reg s" "env_pgdir (envs s2 e) = env_pgdir (envs s e)"
    by (simp_all add: s2_def s1_def upd_env_def set_curenv_def preempted_def)
  have "upd_env e (\<lambda>v. v\<lparr>env_cpunum := cpunum_reg s\<rparr>)
      ((lcr3 (env_pgdir (envs s e) - KERNBASE) s2)\<lparr>kernel_lock := \<lparr>locked = 0, lk_cpu = None\<rparr>\<rparr>) = run_state e s"
    by (rule kstate.equality)
      (auto simp: s2_def s1_def lcr3_def upd_env_def set_curenv_def run_state_def preempted_def fun_eq_iff)
  moreover have "curenv ((lcr3 cr s2)\<lparr>kernel_lock := l\<rparr>) = Some e" for cr l
    by (simp add: s2_def s1_def upd_env_def set_curenv_def curenv_def lcr3_def)
  ultimately show ?thesis
    unfolding env_run_def s1 Let_def s2_def [symmetric]
    by (simp add: PADDR_def f unlock_kernel_def lcr3_def env_pop_tf_def not_less not_le)
qed

lemma env_run_runs:
  assumes "holding (kernel_lock s) (cpunum_reg s)" and "KERNBASE \<le> env_pgdir (envs s e)"
  shows "\<exists>s'. env_run e s = Some (Leaves (ToUser e) s') \<and> runs e s s'"
  using assms by (simp add: env_run_eq runs_def run_state_def curenv_def)

lemma env_run_cases:
  assumes "env_run e s = Some r"
  obtains s' where "r = Leaves (ToUser e) s'" "runs e s s'" "KERNBASE \<le> env_pgdir (envs s e)"
    "holding (kernel_lock s) (cpunum_reg s)"
  using assms env_run_runs [of s e] by (auto simp: env_run_eq split: if_splits)

section \<open>Good exits\<close>

definition exit_ok :: "kexit \<Rightarrow> kstate \<Rightarrow> bool" where
  "exit_ok x s \<longleftrightarrow>
     (case x of
        ToUser e \<Rightarrow> curenv s = Some e \<and> env_status (envs s e) = ENV_RUNNING \<and>
          KERNBASE \<le> env_pgdir (envs s e) \<and> cr3 s (cpunum_reg s) = env_pgdir (envs s e) - KERNBASE \<and>
          env_cpunum (envs s e) = cpunum_reg s \<and> kernel_lock s = \<lparr>locked = 0, lk_cpu = None\<rparr>
      | Halted \<Rightarrow> curenv s = None \<and> cpu_status (cpus s (cpunum_reg s)) = CPU_HALTED \<and>
          cr3 s (cpunum_reg s) = kern_pgdir s - KERNBASE \<and> kernel_lock s = \<lparr>locked = 0, lk_cpu = None\<rparr>
      | Spinning \<Rightarrow> locked (kernel_lock s) \<noteq> 0 \<and> lk_cpu (kernel_lock s) \<noteq> Some (cpunum_reg s)
      | _ \<Rightarrow> True)"

definition good :: "'a kout option \<Rightarrow> bool" where
  "good m \<longleftrightarrow> (\<forall>x s. m = Some (Leaves x s) \<longrightarrow> exit_ok x s)"

definition no_return :: "'a kout option \<Rightarrow> bool" where
  "no_return m \<longleftrightarrow> (\<forall>x s. m \<noteq> Some (Returns x s))"

named_theorems exits

lemma good_simps [simp]: "good None" "good (Some (Returns x s))" "good (Some (Leaves e s)) = exit_ok e s"
  by (simp_all add: good_def)

lemma good_kbind [exits]: "good m \<Longrightarrow> (\<And>x s. good (f x s)) \<Longrightarrow> good (kbind m f)"
  by (cases m; simp; cases "the m") (auto simp: good_def)

lemma good_bind [exits]: "(\<And>x. m = Some x \<Longrightarrow> good (f x)) \<Longrightarrow> good (Option.bind m f)"
  by (cases m) auto

lemma no_return_kbind [exits]: "(\<And>x s. m = Some (Returns x s) \<Longrightarrow> no_return (f x s)) \<Longrightarrow> no_return (kbind m f)"
  by (cases m; simp; cases "the m") (auto simp: no_return_def)

lemma env_run_exit [exits]: "good (env_run e s)" "no_return (env_run e s)"
  by (auto simp: env_run_eq no_return_def exit_ok_def run_state_def preempted_def curenv_def)

lemma sched_halt_exit [exits]: "good (sched_halt s)" "no_return (sched_halt s)"
  by (auto simp: good_def no_return_def sched_halt_def exit_ok_def frame_simps cpu_set_status_def
      set_curenv_def lcr3_def curenv_def PADDR_def bind_eq_Some_conv split: if_splits)

lemma sched_yield_exit [exits]: "good (sched_yield s)" "no_return (sched_yield s)"
  by (auto simp: sched_yield_def exits split: option.split)

lemma lock_kernel_exit [exits]: "good (lock_kernel s)"
  by (auto simp: lock_kernel_def holding_def exit_ok_def)

section \<open>The handlers\<close>

lemma env_destroy_exit [exits]: "good (env_destroy e s)"
  by (auto simp: env_destroy_def intro!: exits)

lemma user_mem_assert_exit [exits]: "good (user_mem_assert e va len perm s)"
  by (auto simp: user_mem_assert_def intro!: exits)

lemma syscall_exit [exits]: "good (syscall junk n a1 a2 a3 a4 a5 s)"
proof -
  have "good (sys_cputs p len s)" for p len
    by (auto simp: sys_cputs_def split: option.split intro!: exits)
  moreover have "good (sys_cgetc s)" by (auto simp: sys_cgetc_def intro!: exits)
  moreover have "good (sys_getenvid s)" by (auto simp: sys_getenvid_def split: option.split)
  moreover have "good (sys_env_destroy i s)" for i
    by (auto simp: sys_env_destroy_def split: sum.split option.split intro!: exits)
  moreover have "good (sys_exofork s)"
    by (auto simp: sys_exofork_def Let_def split: sum.split option.split intro!: exits)
  moreover have "good (sys_env_set_status i v s)" for i v
    by (auto simp: sys_env_set_status_def split: sum.split option.split intro!: exits)
  moreover have "good (sys_env_set_pgfault_upcall i v s)" for i v
    by (auto simp: sys_env_set_pgfault_upcall_def split: sum.split option.split intro!: exits)
  moreover have "good (sys_page_alloc i v p s)" for i v p
    by (auto simp: sys_page_alloc_def split: sum.split option.split intro!: exits)
  moreover have "good (sys_page_map i v j w p s)" for i v j w p
    by (auto simp: sys_page_map_def split: sum.split option.split intro!: exits)
  moreover have "good (sys_page_unmap i v s)" for i v
    by (auto simp: sys_page_unmap_def split: sum.split option.split intro!: exits)
  moreover have "good (sys_ipc_try_send junk i v w p s)" for i v w p
    by (auto simp: sys_ipc_try_send_def split: sum.split option.split intro!: exits)
  moreover have "good (sys_ipc_recv v s)" for v
    by (auto simp: sys_ipc_recv_def split: option.split intro!: exits)
  ultimately show ?thesis by (auto simp: syscall_def sys_yield_def intro!: exits)
qed

lemma page_fault_handler_exit [exits]: "good (page_fault_handler va r s)"
  by (auto simp: page_fault_handler_def Let_def split: option.split intro!: exits)

lemma trap_dispatch_exit [exits]: "good (trap_dispatch junk cr2 r s)"
  by (auto simp: trap_dispatch_def Let_def exit_ok_def split: option.split intro!: exits)

lemma trap_user_entry_exit [exits]: "good (trap_user_entry tf s)"
  by (auto simp: trap_user_entry_def split: option.split intro!: exits)

lemma trap_exit: "good (trap panicked eflags cr2 junk tf s)" "no_return (trap panicked eflags cr2 junk tf s)"
proof -
  show "good (trap panicked eflags cr2 junk tf s)"
    by (auto simp: trap_def Let_def exit_ok_def split: option.split intro!: exits)
  show "no_return (trap panicked eflags cr2 junk tf s)"
    by (auto simp: trap_def Let_def no_return_def [of None] no_return_def [of "Some (Leaves _ _)"]
        split: option.split intro!: exits)
qed

end
