(* ===== verification/Kinv.thy ===== *)
theory Kinv
  imports Env_Facts Exits
begin

text \<open>
  The invariant of the whole kernel that system calls rely on and keep: the address spaces of the
  kernel and of all environments in use are well formed and separate, the table of environments
  and its free list are well formed, and the current environment is in use.
\<close>

section \<open>Changes that no space sees\<close>

lemma silent_local_change:
  assumes inv: "spaces_ok s D" and d: "d \<in> D" and ok': "pages_ok s'" and n: "npages s' = npages s"
    and ph: "\<And>a. PTE_ADDR a \<notin> free_frames s \<Longrightarrow> phys s' a = phys s a"
    and fr: "\<forall>i\<in>set (free_pages s'). i \<in> set (free_pages s) \<or> shared_data s D i"
    and lk: "\<forall>i. i \<notin> set (free_pages s) \<longrightarrow> i \<notin> set (free_pages s') \<longrightarrow> pp_link (pages s' i) = pp_link (pages s i)"
    and rf: "\<forall>i. pp_ref (pages s' i) = pp_ref (pages s i)"
  shows "local_change d D s s'" and "user_view d s' = user_view d s"
proof -
  have ok: "pages_ok s" and pd: "pgdir_ok s d" using inv d by (auto simp: spaces_ok_def)
  have ph': "phys s' a = phys s a" if "PTE_ADDR a \<in> frames s d" for a
    using ph frames_not_free [OF ok pd that] by blast
  note v = view_footprint [OF pd ph']
  have pd': "pgdir_ok s' d"
  proof (rule pgdir_ok_transfer [OF pd _ n])
    show "phys s' (d - KERNBASE + 4 * i) = phys s (d - KERNBASE + 4 * i)" if "i < 1024" for i
      by (rule ph') (use that pgdir_okD(1) [OF pd] in simp)
    fix a
    assume a: "frame_ok s a" and "PTE_ADDR a = d - KERNBASE \<or>
        (\<exists>i. has_pt s d i \<and> PTE_ADDR a = PTE_ADDR (pde_of s d i))"
    then have f: "page2pa (unat (PGNUM a)) \<in> frames s d" by (auto simp: page2pa_PGNUM)
    have "unat (PGNUM a) \<notin> set (free_pages s')"
    proof
      assume "unat (PGNUM a) \<in> set (free_pages s')"
      with fr a have "shared_data s D (unat (PGNUM a))" by (auto simp: frame_ok_def)
      with d f show False by (auto simp: shared_data_def data_page_iff)
    qed
    with a n show "frame_ok s' a" by (simp add: frame_ok_def)
  qed
  have pte: "pte_of s' d v = pte_of s d v" if "v < UTOP" for v by (rule v) (use user_slot(1) that in auto)
  then have "mapped s' d i = mapped s d i" for i by (auto simp: mapped_def)
  moreover have "frames s' d = frames s d" "own_frames s' d = own_frames s d" by (rule v; assumption)+
  ultimately show "local_change d D s s'"
    unfolding local_change_def using ok' pd' n ph fr lk rf pte inv d by (auto simp: spaces_ok_def)
  show "user_view d s' = user_view d s" using pte by (auto simp: user_view_def)
qed

lemma silent_change:
  assumes inv: "spaces_ok s D" and ok': "pages_ok s'" and n: "npages s' = npages s"
    and ph: "\<And>a. PTE_ADDR a \<notin> free_frames s \<Longrightarrow> phys s' a = phys s a"
    and fr: "\<forall>i\<in>set (free_pages s'). i \<in> set (free_pages s) \<or> shared_data s D i"
    and lk: "\<forall>i. i \<notin> set (free_pages s) \<longrightarrow> i \<notin> set (free_pages s') \<longrightarrow> pp_link (pages s' i) = pp_link (pages s i)"
    and rf: "\<forall>i. pp_ref (pages s' i) = pp_ref (pages s i)" and ne: "D \<noteq> {}"
  shows "spaces_ok s' D" and "d \<in> D \<Longrightarrow> user_view d s' = user_view d s"
    and "shared_data s D i \<Longrightarrow> i \<notin> set (free_pages s') \<Longrightarrow> shared_data s' D i" and "data_kept D s s'"
proof -
  note lc = silent_local_change [OF inv _ ok' n ph fr lk rf]
  from ne obtain d0 where d0: "d0 \<in> D" by blast
  show "spaces_ok s' D" by (rule local_change_ok [OF inv lc(1) d0]) (use d0 in auto)
  show "data_kept D s s'" by (rule local_change_kept [OF inv lc(1) d0]) (use d0 in auto)
  show "d \<in> D \<Longrightarrow> user_view d s' = user_view d s" by (rule lc(2))
  have f: "frames s' e = frames s e" if "e \<in> D" for e
  proof -
    have ok: "pages_ok s" and pd: "pgdir_ok s e" using inv that by (auto simp: spaces_ok_def)
    show ?thesis by (rule view_footprint(4) [OF pd]) (use ph frames_not_free [OF ok pd] in blast)
  qed
  show "shared_data s' D i" if "shared_data s D i" "i \<notin> set (free_pages s')"
    using that f lk n by (auto simp: shared_data_def data_page_iff)
qed

text \<open>Taking a page off the free list and putting it back.\<close>

lemma alloc_silent:
  assumes inv: "spaces_ok s D" and ne: "D \<noteq> {}" and f: "free_pages s = p # ps"
  obtains s' where "page_alloc ALLOC_ZERO s = Some (Some p, s')" "spaces_ok s' D" "shared_data s' D p"
    "free_pages s' = ps" "pp_ref (pages s' p) = 0" "vm_frame s s'" "page_idle s' p" "p \<notin> set ps"
    "\<And>d. d \<in> D \<Longrightarrow> user_view d s' = user_view d s"
    "\<And>a. phys s' a = (if PTE_ADDR a = page2pa p then 0 else phys s a)"
    "\<And>d i. d \<in> D \<Longrightarrow> has_pt s' d i = has_pt s d i" "data_kept D s s'"
    "\<And>i. shared_data s D i \<Longrightarrow> shared_data s' D i" "\<And>d. d \<in> D \<Longrightarrow> tables_kept d s s'"
proof -
  have ok: "pages_ok s" using inv by (simp add: spaces_ok_def)
  note h = page_alloc_hd [OF ok f, of ALLOC_ZERO]
  note t = page_alloc_takes [OF ok f h]
  define s' where "s' = s\<lparr>page_free_list := pp_link (pages s p),
      pages := (pages s)(p := (pages s p)\<lparr>pp_link := None\<rparr>),
      phys := (\<lambda>a. if PTE_ADDR a = page2pa p then 0 else phys s a)\<rparr>"
  have h': "page_alloc ALLOC_ZERO s = Some (Some p, s')" using h by (simp add: s'_def)
  note t' = page_alloc_takes [OF ok f h']
  have fr: "\<forall>i\<in>set (free_pages s'). i \<in> set (free_pages s) \<or> shared_data s D i" using t'(3) f by auto
  have ph: "phys s' a = phys s a" if "PTE_ADDR a \<notin> free_frames s" for a
    using that f by (auto simp: s'_def free_frames_def)
  have lk: "\<forall>i. i \<notin> set (free_pages s) \<longrightarrow> i \<notin> set (free_pages s') \<longrightarrow> pp_link (pages s' i) = pp_link (pages s i)"
    using f by (auto simp: s'_def)
  have rf: "\<forall>i. pp_ref (pages s' i) = pp_ref (pages s i)" by (auto simp: s'_def)
  have n: "npages s' = npages s" by (simp add: s'_def)
  note sc = silent_change [OF inv t'(2) n ph fr lk rf ne]
  have nf: "page2pa p \<notin> frames s d" if "d \<in> D" for d
    using frames_not_free [OF ok, of d "page2pa p"] inv that f by (auto simp: spaces_ok_def free_frames_def)
  have fs: "frames s' d = frames s d" "has_pt s' d i = has_pt s d i" "i < 1024 \<Longrightarrow> pde_of s' d i = pde_of s d i"
    if "d \<in> D" for d i
  proof -
    have pd: "pgdir_ok s d" using inv that by (simp add: spaces_ok_def)
    have ph': "phys s' a = phys s a" if "PTE_ADDR a \<in> frames s d" for a
      using ph frames_not_free [OF ok pd that] by blast
    note v = view_footprint [OF pd ph']
    show "frames s' d = frames s d" "has_pt s' d i = has_pt s d i" "i < 1024 \<Longrightarrow> pde_of s' d i = pde_of s d i"
      by (rule v; assumption)+
  qed
  have sd: "shared_data s' D i" if "shared_data s D i" for i
  proof -
    obtain d where "d \<in> D" using ne by blast
    then have "i \<notin> set (free_pages s)" using that by (auto simp: shared_data_def data_page_iff)
    then have "i \<notin> set (free_pages s')" using t'(3) f by auto
    with that show ?thesis using sc(3) by blast
  qed
  have tk: "tables_kept d s s'" if "d \<in> D" for d
    unfolding tables_kept_def using fs(2,3) [OF that] has_pt_slot(2) by blast
  have "shared_data s' D p"
    using t'(4,5,3) nf fs(1) by (auto simp: shared_data_def data_page_iff page_idle_def)
  moreover have "vm_frame s s'" using h' by (rule vm_frame_alloc)
  ultimately show thesis
    using that [OF h'] sc(1,2,4) t' fs(2) sd tk by (auto simp: page_idle_def s'_def)
qed

lemma free_silent:
  assumes inv: "spaces_ok s D" and ne: "D \<noteq> {}" and p: "page_idle s p" "p \<notin> set (free_pages s)" "shared_data s D p"
  obtains s' where "page_free p s = Some s'" "spaces_ok s' D" "free_pages s' = p # free_pages s" "vm_frame s s'"
    "\<And>d. d \<in> D \<Longrightarrow> user_view d s' = user_view d s" "phys s' = phys s"
proof -
  have ok: "pages_ok s" using inv by (simp add: spaces_ok_def)
  from page_free_push [OF ok p(1,2)] obtain s' where
    s': "page_free p s = Some s'" "pages_ok s'" "free_pages s' = p # free_pages s" by blast
  have eq: "s' = (set_page p ((pages s p)\<lparr>pp_link := page_free_list s\<rparr>) s)\<lparr>page_free_list := Some p\<rparr>"
    using s'(1) p(1) by (auto simp: page_free_def page_idle_def)
  note sc = silent_change [OF inv s'(2) _ _ _ _ _ ne]
  have "npages s' = npages s" "\<And>a. phys s' a = phys s a"
    "\<forall>i. i \<notin> set (free_pages s) \<longrightarrow> i \<notin> set (free_pages s') \<longrightarrow> pp_link (pages s' i) = pp_link (pages s i)"
    "\<forall>i. pp_ref (pages s' i) = pp_ref (pages s i)"
    "\<forall>i\<in>set (free_pages s'). i \<in> set (free_pages s) \<or> shared_data s D i"
    using s'(3) p(3) by (auto simp: eq set_page_def)
  note sc' = sc [OF this(1,2,5,3,4)]
  have "phys s' = phys s" by (simp add: eq set_page_def)
  then show thesis using that [OF s'(1) sc'(1) s'(3) vm_frame_free [OF s'(1)]] sc'(2) by blast
qed

section \<open>The invariant\<close>

definition in_use :: "kstate \<Rightarrow> nat set" where
  "in_use s = {e. e < NENV \<and> env_status (envs s e) \<noteq> ENV_FREE}"

definition dirs :: "kstate \<Rightarrow> u32 set" where
  "dirs s = insert (kern_pgdir s) ((\<lambda>e. env_pgdir (envs s e)) ` in_use s)"

definition kinv :: "kstate \<Rightarrow> bool" where
  "kinv s \<longleftrightarrow>
     spaces_ok s (dirs s) \<and> envs_ok s \<and> unat (npages s) \<le> 65536 \<and>
     inj_on (\<lambda>e. env_pgdir (envs s e)) (in_use s) \<and>
     (\<forall>e\<in>in_use s. env_pgdir (envs s e) \<noteq> kern_pgdir s \<and> ENVX (env_id (envs s e)) = e) \<and>
     (\<forall>c. curenv s = Some c \<longrightarrow> c \<in> in_use s)"

lemma kinvD:
  assumes "kinv s"
  shows "spaces_ok s (dirs s)" "envs_ok s" "unat (npages s) \<le> 65536"
    "e \<in> in_use s \<Longrightarrow> env_pgdir (envs s e) \<in> dirs s" "e \<in> in_use s \<Longrightarrow> ENVX (env_id (envs s e)) = e"
    "curenv s = Some c \<Longrightarrow> c \<in> in_use s" "kern_pgdir s \<in> dirs s" "dirs s \<noteq> {}"
    "e \<in> in_use s \<Longrightarrow> e' \<in> in_use s \<Longrightarrow> env_pgdir (envs s e) = env_pgdir (envs s e') \<longleftrightarrow> e = e'"
    "e \<in> in_use s \<Longrightarrow> env_pgdir (envs s e) \<noteq> kern_pgdir s" "finite (dirs s)"
  using assms by (auto simp: kinv_def dirs_def in_use_def inj_on_def)

text \<open>Every directory of the invariant lies in kernel memory.\<close>

lemma pgdir_kernel:
  assumes "pgdir_ok s d" and "unat (npages s) \<le> 65536"
  shows "KERNBASE \<le> d"
proof -
  have "unat (PGNUM (d - KERNBASE)) < 65536"
    using pgdir_okD(2) [OF assms(1)] assms(2) by (simp add: frame_ok_def word_less_nat_alt)
  then have lt: "unat (d - KERNBASE) < 268435456" by (simp add: unat_PGNUM)
  define x where "x = d - KERNBASE"
  have "d = x + KERNBASE" by (simp add: x_def)
  then have "unat d = unat x + 4026531840" using lt by (simp add: x_def [symmetric] unat_word_ariths)
  then show ?thesis by (simp add: word_le_nat_alt)
qed

text \<open>An operation on one space, with nothing else of the kernel touched.\<close>

lemma kinv_frame:
  assumes k: "kinv s" and f: "vm_frame s s'" and sp: "spaces_ok s' (dirs s)"
  shows "kinv s'" and "dirs s' = dirs s" and "in_use s' = in_use s"
proof -
  note v = vm_frame_fields [OF f]
  show u: "in_use s' = in_use s" and d: "dirs s' = dirs s" by (simp_all add: in_use_def dirs_def v)
  show "kinv s'" using k sp unfolding kinv_def u d by (simp add: v envs_ok_cong [OF v(4,5)])
qed

text \<open>Changes to an environment in use that keep what the invariant is about.\<close>

lemma kinv_upd_env:
  assumes k: "kinv s" and e: "e \<in> in_use s"
    and g: "env_pgdir (f (envs s e)) = env_pgdir (envs s e)" "env_id (f (envs s e)) = env_id (envs s e)"
      "env_status (f (envs s e)) \<noteq> ENV_FREE"
  shows "kinv (upd_env e f s)" and "in_use (upd_env e f s) = in_use s" and "dirs (upd_env e f s) = dirs s"
    and "user_view d (upd_env e f s) = user_view d s"
proof -
  let ?s = "upd_env e f s"
  have u: "in_use ?s = in_use s" using e g by (auto simp: in_use_def upd_env_def)
  have p: "env_pgdir (envs ?s i) = env_pgdir (envs s i)" "env_id (envs ?s i) = env_id (envs s i)" for i
    using g by (simp_all add: upd_env_def)
  have d: "dirs ?s = dirs s" unfolding dirs_def u by (simp add: p) (simp add: upd_env_def)
  have c: "npages ?s = npages s" "pages ?s = pages s" "page_free_list ?s = page_free_list s" "phys ?s = phys s"
    "curenv ?s = curenv s" "kern_pgdir ?s = kern_pgdir s"
    by (simp_all add: upd_env_def curenv_def)
  have "envs_ok ?s"
  proof -
    have ne: "e \<notin> set (free_envs s)" using envs_okD(3) [OF kinvD(2) [OF k], of e] e by (auto simp: in_use_def)
    have "envs_ok ?s \<and> free_envs ?s = free_envs s"
    proof (rule envs_okI)
      show "chain (\<lambda>i. env_link (envs ?s i)) (env_free_list ?s) (free_envs s)"
        by (rule chain_transfer [where nx = "\<lambda>i. env_link (envs s i)"])
          (use envs_okD(1) [OF kinvD(2) [OF k]] ne in \<open>auto simp: upd_env_def\<close>)
      show "\<forall>i\<in>set (free_envs s). i < NENV \<and> env_status (envs ?s i) = ENV_FREE"
        using envs_okD(2,3) [OF kinvD(2) [OF k]] ne by (auto simp: upd_env_def)
    qed
    then show ?thesis by simp
  qed
  with k show "kinv ?s" unfolding kinv_def u d spaces_cong(1) [OF c(1-4)] by (simp add: p c inj_on_def)
  show "in_use ?s = in_use s" "dirs ?s = dirs s" "user_view x ?s = user_view x s" for x
    using u d spaces_cong(2) [OF c(1-4)] by simp_all
qed

text \<open>Resolved identifiers name environments in use.\<close>

lemma envid2env_in_use:
  assumes "kinv s" and "curenv s = Some c" and "envid2env envid checkperm s = Some (Inr r)"
  obtains e where "r = Some e" "e \<in> in_use s" "e = (if envid = 0 then c else ENVX envid)"
  using assms kinvD(6) [OF assms(1,2)] ENVX_less [of envid] that
  by (auto simp: envid2env_def Let_def in_use_def split: if_splits option.splits)

lemma envid2env_total:
  assumes "curenv s = Some c"
  obtains (bad) "envid2env envid checkperm s = Some (Inl (- E_BAD_ENV))"
    | (found) r where "envid2env envid checkperm s = Some (Inr r)"
proof -
  have "envid2env envid checkperm s = Some (Inl (- E_BAD_ENV)) \<or> (\<exists>r. envid2env envid checkperm s = Some (Inr r))"
    using assms by (simp add: envid2env_def Let_def)
  with that show thesis by blast
qed

section \<open>Memory calls\<close>

definition env_view :: "nat \<Rightarrow> kstate \<Rightarrow> u32 \<Rightarrow> u32" where
  "env_view e s = user_view (env_pgdir (envs s e)) s"

text \<open>The bytes a program reads from its memory; an unmapped address reads as 0 here.\<close>

definition env_mem :: "nat \<Rightarrow> kstate \<Rightarrow> u32 \<Rightarrow> u8" where
  "env_mem e s v =
     (let w = env_view e s v in if w AND PTE_P = 0 then 0 else ld8 (phys s) (PTE_ADDR w OR PGOFF v))"

lemma byte_page: "PTE_ADDR ((PTE_ADDR w OR PGOFF v) AND NOT 3) = PTE_ADDR w"
proof -
  have three: "(3 :: u32) = mask 2" by (simp add: mask_eq_exp_minus_1)
  show ?thesis
    unfolding PTE_ADDR_def PGOFF_def mask12_eq three by (intro bit_word_eqI) (auto simp: bit_simps)
qed

lemma env_view_shared:
  assumes "kinv s" and "e \<in> in_use s" and "env_view e s v AND PTE_P \<noteq> 0"
  shows "shared_data s (dirs s) (pte_page (env_view e s v))"
  using kinvD(1,4) [OF assms(1)] assms(2,3) unfolding spaces_ok_def env_view_def user_view_def
  by (cases "v < UTOP") auto

text \<open>Two addresses mapped to the same page read the same bytes, also after a change that keeps data.\<close>

lemma env_mem_alias:
  assumes "kinv s" and "e \<in> in_use s" and "data_kept (dirs s) s s'" and p: "env_view e s v AND PTE_P \<noteq> 0"
    and "env_view e' s' v' AND PTE_P \<noteq> 0" and eq: "PTE_ADDR (env_view e' s' v') = PTE_ADDR (env_view e s v)"
    and o: "PGOFF v' = PGOFF v"
  shows "env_mem e' s' v' = env_mem e s v"
proof -
  from env_view_shared [OF assms(1,2) p] assms(3)
  have "PTE_ADDR a = PTE_ADDR (env_view e s v) \<longrightarrow> phys s' a = phys s a" for a
    by (metis data_kept_def page2pa_PGNUM)
  from this [of "(PTE_ADDR (env_view e s v) OR PGOFF v) AND NOT 3"] assms(4,5) show ?thesis
    unfolding env_mem_def ld8_def byte_page Let_def eq o by simp
qed

lemma env_mem_kept:
  assumes "kinv s" and "e \<in> in_use s" and "data_kept (dirs s) s s'" and "env_view e s' v = env_view e s v"
  shows "env_mem e s' v = env_mem e s v"
proof (cases "env_view e s v AND PTE_P = 0")
  case False
  then show ?thesis using assms(4) by (intro env_mem_alias [OF assms(1-3)]) simp_all
qed (simp add: env_mem_def assms(4))

text \<open>What an environment sees: its mappings and the bytes it reads through them.\<close>

definition env_space :: "nat \<Rightarrow> kstate \<Rightarrow> (u32 \<Rightarrow> u32) \<times> (u32 \<Rightarrow> u8)" where
  "env_space e s = (env_view e s, env_mem e s)"

text \<open>An entry covers its page, and \<^verbatim>\<open>UTOP\<close> is a page boundary.\<close>

lemma page_below: "PTE_ADDR v < UTOP \<longleftrightarrow> v < UTOP"
proof -
  have "unat (PTE_ADDR v) = 4096 * (unat v div 4096)" by (simp only: unat_PTE_ADDR minus_mod_eq_mult_div)
  moreover have "4096 * (unat v div 4096) < 4096 * 977920 \<longleftrightarrow> unat v div 4096 < 977920" by (simp only: mult_less_cancel1) simp
  moreover have "unat v div 4096 < 977920 \<longleftrightarrow> unat v < 977920 * 4096" by (rule div_less_iff_less_mult) simp
  ultimately have "unat (PTE_ADDR v) < 4005560320 \<longleftrightarrow> unat v < 4005560320" by simp
  then show ?thesis by (simp add: word_less_nat_alt)
qed

lemma env_view_page: "PTE_ADDR v = PTE_ADDR v' \<Longrightarrow> env_view i s v = env_view i s v'"
  using same_page_iff [of v v'] page_below [of v] page_below [of v']
  by (simp add: env_view_def user_view_def pte_of_def Let_def)

lemma in_page: "PTE_ADDR b = b \<Longrightarrow> PTE_ADDR (b OR PGOFF v) = b \<and> PGOFF (b OR PGOFF v) = PGOFF v"
  using PTE_ADDR_entry [of b "PGOFF v"] PGOFF_entry [of b "PGOFF v"] PGOFF_PTE_ADDR [of b] by simp

lemma PTE_ADDR_PGOFF: "PTE_ADDR v OR PGOFF v = v"
  unfolding PTE_ADDR_def PGOFF_def mask12_eq by (intro bit_word_eqI) (auto simp: bit_simps)

lemma env_view_high: "\<not> v < UTOP \<Longrightarrow> env_view e s v = 0"
  by (simp add: env_view_def user_view_def)

lemma env_mem_cong: "phys s' = phys s \<Longrightarrow> env_view e s' = env_view e s \<Longrightarrow> env_mem e s' = env_mem e s"
  by (rule ext) (simp add: env_mem_def Let_def)

lemma and_not_zero: "(a :: u32) AND NOT m = 0 \<Longrightarrow> a AND m = a"
proof (rule bit_word_eqI)
  fix n
  assume z: "a AND NOT m = 0" and n: "n < LENGTH(32)"
  have "\<not> bit (a AND NOT m) n" unfolding z by simp
  with n show "bit (a AND m) n = bit a n" by (auto simp: bit_simps)
qed

lemma perm_bits:
  assumes "\<not> bad_perm perm"
  shows "perm < 4096" and "perm OR PTE_P = perm" and "x OR perm OR PTE_P = x OR perm"
proof -
  have "perm AND NOT PTE_SYSCALL = 0" and p: "perm AND PTE_P \<noteq> 0"
    using assms unfolding bad_perm_def by simp_all
  then have "perm AND PTE_SYSCALL = perm" by (intro and_not_zero)
  then have "perm \<le> PTE_SYSCALL" using word_and_le1 [of perm PTE_SYSCALL] by metis
  then show "perm < 4096" by (simp add: word_le_nat_alt word_less_nat_alt)
  have "bit perm 0" using p by (simp add: and_one_eq bit_0 odd_iff_mod_2_eq_one)
  then show p: "perm OR PTE_P = perm" by (intro bit_word_eqI) (auto simp: bit_simps)
  then show "x OR perm OR PTE_P = x OR perm" by (simp add: or.assoc)
qed

lemma env_view_change:
  assumes k: "kinv s" and e: "e \<in> in_use s" and f: "vm_frame s s'"
    and lc: "local_change (env_pgdir (envs s e)) (dirs s) s s'"
  shows "kinv s'" and "in_use s' = in_use s" and "e' \<in> in_use s \<Longrightarrow> e' \<noteq> e \<Longrightarrow> env_view e' s' = env_view e' s"
proof -
  have d: "env_pgdir (envs s e) \<in> dirs s" using kinvD(4) [OF k e] .
  note sp = local_change_ok [OF kinvD(1) [OF k] lc d]
  show "kinv s'" "in_use s' = in_use s" using kinv_frame [OF k f sp] by simp_all
  show "env_view e' s' = env_view e' s" if "e' \<in> in_use s" "e' \<noteq> e"
    using user_view_other [OF kinvD(1) [OF k] lc d kinvD(4) [OF k that(1)]] kinvD(9) [OF k that(1) e] that
    by (simp add: env_view_def vm_frame_fields(4) [OF f])
qed

text \<open>
  What a memory call that returns \<open>r\<close> and may change environment \<open>e\<close> guarantees: the invariant is
  kept, and no other environment's mappings nor the bytes it reads through them change; on an error
  none changes.
\<close>

definition call_post :: "nat \<Rightarrow> u32 \<Rightarrow> kstate \<Rightarrow> kstate \<Rightarrow> bool" where
  "call_post e r s s' \<longleftrightarrow>
     kinv s' \<and> in_use s \<subseteq> in_use s' \<and> curenv s' = curenv s \<and> cpu_kept s s' \<and>
     (\<forall>e'\<in>in_use s. e' \<noteq> e \<or> r \<noteq> 0 \<longrightarrow> env_view e' s' = env_view e' s \<and> env_mem e' s' = env_mem e' s)"

lemma call_post_same [simp]: "kinv s \<Longrightarrow> call_post e r s s"
  by (simp add: call_post_def)

lemma call_post_silent:
  assumes "kinv s" and "vm_frame s s'" and "spaces_ok s' (dirs s)"
    and "\<And>d. d \<in> dirs s \<Longrightarrow> user_view d s' = user_view d s" and "data_kept (dirs s) s s'"
  shows "call_post e r s s'"
proof -
  have v: "env_view e' s' = env_view e' s" if "e' \<in> in_use s" for e'
    using assms(4) [OF kinvD(4) [OF assms(1) that]] vm_frame_fields [OF assms(2)] by (simp add: env_view_def)
  have "env_mem e' s' = env_mem e' s" if "e' \<in> in_use s" for e'
    using env_mem_kept [OF assms(1) that assms(5)] v [OF that] by (simp add: fun_eq_iff)
  with v assms(1) kinv_frame [OF assms(1-3)] vm_frame_fields [OF assms(2)] vm_frame_cpu [OF assms(2)] show ?thesis
    by (simp add: call_post_def)
qed

lemma call_post_trans:
  assumes "call_post e r s s1" and "call_post e r' s1 s'" and "r = 0 \<longrightarrow> r' = 0"
  shows "call_post e r' s s'"
  using assms cpu_kept_trans [of s s1 s'] by (auto simp: call_post_def)

lemma call_post_change:
  assumes "kinv s" and "e \<in> in_use s" and "vm_frame s s'"
    and "local_change (env_pgdir (envs s e)) (dirs s) s s'"
  shows "call_post e 0 s s'" and "data_kept (dirs s) s s'"
proof -
  show d: "data_kept (dirs s) s s'"
    by (rule local_change_kept [OF kinvD(1) [OF assms(1)] assms(4) kinvD(4) [OF assms(1,2)]])
  note c = env_view_change [OF assms]
  have "env_mem e' s' = env_mem e' s" if "e' \<in> in_use s" "e' \<noteq> e" for e'
    using env_mem_kept [OF assms(1) that(1) d] c(3) [OF that] by (simp add: fun_eq_iff)
  with c vm_frame_fields(10) [OF assms(3)] vm_frame_cpu [OF assms(3)] show "call_post e 0 s s'" by (auto simp: call_post_def)
qed

text \<open>A change to the record of an environment that leaves its space alone.\<close>

lemma call_post_upd_env:
  assumes "kinv s" and "e \<in> in_use s" and "env_pgdir (f (envs s e)) = env_pgdir (envs s e)"
    and "env_id (f (envs s e)) = env_id (envs s e)" and "env_status (f (envs s e)) \<noteq> ENV_FREE"
  shows "call_post e' r s (upd_env e f s)" and "env_view i (upd_env e f s) = env_view i s"
    and "env_mem i (upd_env e f s) = env_mem i s"
proof -
  note u = kinv_upd_env [of s e f, OF assms]
  show v: "env_view i (upd_env e f s) = env_view i s" for i
    using u(4) assms(3) by (simp add: env_view_def) (simp add: upd_env_def)
  show m: "env_mem i (upd_env e f s) = env_mem i s" for i by (rule env_mem_cong [OF _ v]) (simp add: upd_env_def)
  show "call_post e' r s (upd_env e f s)"
    using u(1,2) v m by (simp add: call_post_def) (simp add: upd_env_def curenv_def cpu_kept_def)
qed

lemma call_post_space: "call_post e r s s' \<Longrightarrow> e' \<in> in_use s \<Longrightarrow> e' \<noteq> e \<or> r \<noteq> 0 \<Longrightarrow> env_space e' s' = env_space e' s"
  by (simp add: call_post_def env_space_def)

definition alloc_done :: "nat \<Rightarrow> u32 \<Rightarrow> u32 \<Rightarrow> kstate \<Rightarrow> kstate \<Rightarrow> bool" where
  "alloc_done e va perm s s' \<longleftrightarrow> vm_frame s s' \<and> data_kept (dirs s) s s' \<and>
     tables_kept (env_pgdir (envs s e)) s s' \<and>
     (\<exists>p\<in>set (free_pages s). p \<notin> set (free_pages s') \<and>
        (\<forall>a. PTE_ADDR a = page2pa p \<longrightarrow> phys s' a = 0) \<and>
        (\<forall>v < UTOP. env_view e s' v = (if PTE_ADDR v = va then page2pa p OR perm else env_view e s v)))"

text \<open>The new page reads as zero, the rest of the space as before.\<close>

lemma alloc_done_mem:
  assumes k: "kinv s" and e: "e \<in> in_use s" and d: "alloc_done e va perm s s'" and perm: "\<not> bad_perm perm"
  shows "env_mem e s' v = (if PTE_ADDR v = va then 0 else env_mem e s v)"
proof (cases "v < UTOP")
  case True
  from d obtain p where z: "\<forall>a. PTE_ADDR a = page2pa p \<longrightarrow> phys s' a = 0"
    and w: "env_view e s' v = (if PTE_ADDR v = va then page2pa p OR perm else env_view e s v)"
    using True unfolding alloc_done_def by blast
  have dk: "data_kept (dirs s) s s'" using d by (simp add: alloc_done_def)
  show ?thesis
  proof (cases "PTE_ADDR v = va")
    case True
    have "PTE_ADDR (env_view e s' v) = page2pa p" using w True perm_bits(1) [OF perm] by (simp add: PTE_ADDR_or)
    then have "phys s' ((PTE_ADDR (env_view e s' v) OR PGOFF v) AND NOT 3) = 0" using z byte_page by metis
    then show ?thesis using True by (simp only: env_mem_def Let_def ld8_def byte_of_def) simp
  next
    case False
    then show ?thesis using env_mem_kept [OF k e dk, of v] w by simp
  qed
next
  case False
  then have "PTE_ADDR v \<noteq> va \<or> \<not> va < UTOP" using page_below by metis
  with False show ?thesis by (simp add: env_mem_def env_view_high)
qed

lemma alloc_page_step:
  assumes k: "kinv s" and e: "e \<in> in_use s" and va: "\<not> bad_va va" and perm: "\<not> bad_perm perm"
    and f: "free_pages s = p # ps"
  shows "\<exists>s1 r s2. page_alloc ALLOC_ZERO s = Some (Some p, s1) \<and>
    page_insert (env_pgdir (envs s1 e)) p va perm s1 = Some (r, s2) \<and>
    (sint r < 0 \<and> ps = [] \<and> (\<exists>s3. page_free p s2 = Some s3 \<and> call_post e (- E_NO_MEM) s s3) \<or>
     r = 0 \<and> call_post e 0 s s2 \<and> alloc_done e va perm s s2)"
proof -
  let ?D = "dirs s" and ?d = "env_pgdir (envs s e)"
  have v: "va < UTOP" "PTE_ADDR va = va" using va by (auto simp: bad_va_def not_le)
  note pm = perm_bits [OF perm]
  obtain s1 where s1: "page_alloc ALLOC_ZERO s = Some (Some p, s1)" "spaces_ok s1 ?D" "shared_data s1 ?D p"
    "free_pages s1 = ps" "pp_ref (pages s1 p) = 0" "vm_frame s s1" "page_idle s1 p" "p \<notin> set ps"
    "\<And>d. d \<in> ?D \<Longrightarrow> user_view d s1 = user_view d s"
    "\<And>a. phys s1 a = (if PTE_ADDR a = page2pa p then 0 else phys s a)" "data_kept ?D s s1"
    "\<And>i. shared_data s ?D i \<Longrightarrow> shared_data s1 ?D i" "\<And>d. d \<in> ?D \<Longrightarrow> tables_kept d s s1"
    using alloc_silent [OF kinvD(1,8) [OF k] f] by metis
  note k1 = kinv_frame [OF k s1(6,2)]
  have e1: "e \<in> in_use s1" and d1: "?d \<in> dirs s" "env_pgdir (envs s1 e) = ?d"
    using k1 e kinvD(4) [OF k e] vm_frame_fields(4) [OF s1(6)] by simp_all
  have room: "unat (pp_ref (pages s1 p)) < 65535" using s1(5) by simp
  have c1: "call_post e r s s1" for r by (rule call_post_silent [OF k s1(6,2,9,11)])
  from s1(2) d1(1) v(1) s1(3) room pm(1) show ?thesis
  proof (cases rule: insert_local_change)
    case no_mem
    have "p \<notin> set (free_pages s1)" using s1(4,8) by simp
    from free_silent [OF s1(2) kinvD(8) [OF k] s1(7) this s1(3)] obtain s3 where
      s3: "page_free p s1 = Some s3" "spaces_ok s3 ?D" "vm_frame s1 s3" "\<And>d. d \<in> ?D \<Longrightarrow> user_view d s3 = user_view d s1"
      "phys s3 = phys s1"
      by metis
    have "call_post e (- E_NO_MEM) s1 s3"
      by (rule call_post_silent [OF k1(1) s3(3)]) (use s3 k1(2) in \<open>simp_all add: data_kept_same\<close>)
    from call_post_trans [OF c1 [of 1] this] s1(1,4) s3(1) no_mem d1 show ?thesis by auto
  next
    case (inserted s2)
    have c: "call_post e 0 s1 s2" "data_kept (dirs s1) s1 s2"
      by (rule call_post_change [OF k1(1) e1]; use inserted d1 k1(2) in simp)+
    then have c2: "call_post e 0 s s2" using call_post_trans [OF c1 [of 0]] by simp
    have kept: "data_kept ?D s s2" "tables_kept ?d s s2"
      using c(2) s1(11,12) k1(2) tables_kept_trans [OF s1(13) insert_cost_tables [OF inserted(6)]] d1
      unfolding data_kept_def by (metis, metis)
    have nf: "page2pa p \<notin> own_frames s1 ?d" "p \<notin> set (free_pages s2)" "page2pa p \<notin> free_frames s1"
    proof -
      have dp: "data_page s1 ?d p" using s1(3) d1(1) by (simp add: shared_data_def)
      then show "page2pa p \<notin> own_frames s1 ?d" using own_frames_sub by (auto simp: data_page_iff)
      have "pte_of s2 ?d va = page2pa p OR perm OR PTE_P" using inserted(5) [OF user_slot(1) [OF v(1)]] by simp
      moreover have lt: "p < 1048576" using dp pages_okD(4) [of s1] s1(2) by (auto simp: data_page_iff spaces_ok_def)
      note entry_page [OF lt pm(1)]
      ultimately have "shared_data s2 ?D p"
        using local_change_data [OF s1(2) inserted(2) d1(1) d1(1) v(1)] by simp
      then show "p \<notin> set (free_pages s2)" using d1(1) by (auto simp: shared_data_def data_page_iff)
      show "page2pa p \<notin> free_frames s1"
        using page2pa_free_iff [OF _ lt, of s1] s1(2,4,8) by (auto simp: spaces_ok_def)
    qed
    have "phys s2 a = 0" if "PTE_ADDR a = page2pa p" for a
      using inserted(2) nf that s1(10) by (auto simp: local_change_def)
    moreover have "env_view e s2 w = (if PTE_ADDR w = va then page2pa p OR perm else env_view e s w)" if "w < UTOP" for w
    proof -
      have "user_view ?d s1 w = user_view ?d s w" using s1(9) [OF d1(1)] by simp
      then show ?thesis
        using inserted(5) [OF user_slot(1) [OF that]] that v(2) pm(3) d1(2) vm_frame_fields(4) [OF inserted(4)]
        by (simp add: env_view_def user_view_def)
    qed
    ultimately have "alloc_done e va perm s s2"
      unfolding alloc_done_def using nf(2) f kept vm_frame_trans [OF s1(6) inserted(4)] by (intro conjI bexI [of _ p]) auto
    with c2 s1(1) inserted(1) d1 show ?thesis by auto
  qed
qed

end
