(* ===== verification/Console_Props.thy ===== *)
theory Console_Props
  imports Console
begin

text \<open>
  The console's contract. Input: the ring buffer refines a first-in first-out queue as long as
  fewer than 512 characters wait, whatever device they came from, and the device loops always
  end. The interface \<open>device\<close> states what the loop \<^term>\<open>cons_intr\<close> needs of the routine it
  polls; the serial port and the keyboard are its two interpretations. Output: the cursor stays
  on the screen and nothing outside the screen is written.
\<close>

section \<open>The queue the ring buffer stands for\<close>

definition ring_ok :: "console \<Rightarrow> bool" where
  "ring_ok con \<longleftrightarrow> rpos con < CONSBUFSIZE \<and> wpos con < CONSBUFSIZE"

definition pending :: "console \<Rightarrow> u8 list" where
  "pending con = map (\<lambda>i. cbuf con ((unat (rpos con) + i) mod 512))
     [0..<(unat (wpos con) + 512 - unat (rpos con)) mod 512]"

text \<open>Advancing an index of the ring by one.\<close>

lemma unat_step512:
  assumes "w < (512 :: u32)"
  shows "unat (if w + 1 = 512 then 0 else w + 1) = (unat w + 1) mod 512"
proof -
  have lt: "unat w < 512" using assms by (simp add: word_less_nat_alt)
  then have s: "unat (w + 1) = unat w + 1" by (simp add: unat_word_ariths)
  then have "w + 1 = 512 \<longleftrightarrow> unat w + 1 = 512" by (simp add: word_unat_eq_iff)
  with s lt show ?thesis by auto
qed

lemma ring_bounds:
  assumes "ring_ok con"
  shows "unat (rpos con) < 512" and "unat (wpos con) < 512"
  using assms by (simp_all add: ring_ok_def word_less_nat_alt)

lemma length_pending: "length (pending con) = (unat (wpos con) + 512 - unat (rpos con)) mod 512"
  by (simp add: pending_def)

lemma pending_length_less: "length (pending con) < 512"
  by (simp add: length_pending)

text \<open>Positions: the slot \<open>i\<close> places behind the read position, as the write position sees it.\<close>

lemma ring_slot_end:
  assumes "r < (512::nat)" and "w < 512"
  shows "(r + (w + 512 - r) mod 512) mod 512 = w"
proof -
  have "(r + (w + 512 - r) mod 512) mod 512 = (r + (w + 512 - r)) mod 512" by (simp add: mod_add_right_eq)
  also have "r + (w + 512 - r) = w + 512" using assms by simp
  finally show ?thesis using assms by simp
qed

lemma ring_slot_inj:
  assumes "i < n" and "n < (512::nat)"
  shows "(r + i) mod 512 \<noteq> (r + n) mod 512"
proof
  assume "(r + i) mod 512 = (r + n) mod 512"
  then have "512 dvd (r + n) - (r + i)" using assms(1) by (metis mod_eq_dvd_iff_nat add_le_cancel_left less_imp_le)
  then show False using assms by (auto dest: dvd_imp_le)
qed

lemma ring_length_store:
  assumes "r < (512::nat)" and "w < 512"
  shows "((w + 1) mod 512 + 512 - r) mod 512 = ((w + 512 - r) mod 512 + 1) mod 512"
proof -
  have "((w + 1) mod 512 + (512 - r)) mod 512 = (w + 1 + (512 - r)) mod 512" by (simp add: mod_add_left_eq)
  also have "\<dots> = ((w + (512 - r)) mod 512 + 1) mod 512" by (simp add: mod_simps ac_simps)
  finally show ?thesis using assms by simp
qed

lemma ring_length_take:
  assumes "r < (512::nat)" and "w < 512"
  shows "((w + 512 - (r + 1) mod 512) mod 512 + 1) mod 512 = (w + 512 - r) mod 512"
proof (cases "r = 511")
  case True
  then show ?thesis using assms by (simp add: mod_simps)
next
  case False
  then have "(r + 1) mod 512 = r + 1" and e: "w + 512 - (r + 1) + 1 = w + 512 - r" using assms by simp_all
  then have "((w + 512 - (r + 1) mod 512) mod 512 + 1) mod 512 = (w + 512 - (r + 1) + 1) mod 512"
    by (simp only: mod_add_left_eq)
  then show ?thesis unfolding e .
qed

text \<open>What \<^term>\<open>cons_store\<close> does to the ring and what it leaves alone.\<close>

lemma cons_store_eq:
  "cons_store c con = con\<lparr>cbuf := (cbuf con)(unat (wpos con) := ucast c),
     wpos := (if wpos con + 1 = CONSBUFSIZE then 0 else wpos con + 1)\<rparr>"
  by (simp add: cons_store_def Let_def)

lemma cons_store_ring:
  assumes "ring_ok con"
  shows "ring_ok (cons_store c con)"
    and "unat (wpos (cons_store c con)) = (unat (wpos con) + 1) mod 512"
    and "rpos (cons_store c con) = rpos con"
    and "cbuf (cons_store c con) = (cbuf con)(unat (wpos con) := ucast c)"
proof -
  have w: "wpos con < 512" using assms by (simp add: ring_ok_def)
  show *: "unat (wpos (cons_store c con)) = (unat (wpos con) + 1) mod 512"
    unfolding cons_store_eq using unat_step512 [OF w] by simp
  show r: "rpos (cons_store c con) = rpos con" by (simp add: cons_store_eq)
  show "cbuf (cons_store c con) = (cbuf con)(unat (wpos con) := ucast c)" by (simp add: cons_store_eq)
  show "ring_ok (cons_store c con)"
    using assms by (simp add: ring_ok_def r word_less_nat_alt *)
qed

lemma pending_store:
  assumes ok: "ring_ok con" and room: "length (pending con) < 511"
  shows "pending (cons_store c con) = pending con @ [ucast c]"
proof -
  let ?r = "unat (rpos con)" and ?w = "unat (wpos con)" and ?n = "length (pending con)"
  note b = ring_bounds [OF ok] and st = cons_store_ring [OF ok, of c]
  have n: "((?w + 1) mod 512 + 512 - ?r) mod 512 = Suc ?n"
    using ring_length_store [OF b] room by (simp add: length_pending)
  have w: "?w = (?r + ?n) mod 512" using ring_slot_end [OF b] by (simp add: length_pending)
  have "pending (cons_store c con) =
      map (\<lambda>i. ((cbuf con)(?w := ucast c)) ((?r + i) mod 512)) [0..<Suc ?n]"
    unfolding pending_def [of "cons_store c con"] st(2-4) n ..
  also have "\<dots> = map (\<lambda>i. cbuf con ((?r + i) mod 512)) [0..<?n] @ [ucast c]"
    unfolding w using room by (auto simp: ring_slot_inj)
  finally show ?thesis unfolding length_pending by (simp add: pending_def)
qed

text \<open>With 511 characters waiting, one more makes the buffer look empty.\<close>

lemma pending_overflow:
  assumes "ring_ok con" and "length (pending con) = 511"
  shows "pending (cons_store c con) = []"
proof -
  have "length (pending (cons_store c con)) = 0"
    using assms ring_length_store [OF ring_bounds [OF assms(1)]]
    by (simp add: length_pending cons_store_ring)
  then show ?thesis by simp
qed

lemma pending_take:
  assumes ok: "ring_ok con" and p: "pending con = x # xs"
    and con': "con' = con\<lparr>rpos := (if rpos con + 1 = CONSBUFSIZE then 0 else rpos con + 1)\<rparr>"
  shows "cbuf con (unat (rpos con)) = x" and "pending con' = xs" and "ring_ok con'"
proof -
  let ?r = "unat (rpos con)" and ?w = "unat (wpos con)" and ?n = "length (pending con)"
  note b = ring_bounds [OF ok]
  have r: "rpos con < 512" using ok by (simp add: ring_ok_def)
  have r': "unat (rpos con') = (?r + 1) mod 512" unfolding con' using unat_step512 [OF r] by simp
  have n: "?n = Suc (length xs)" using p by simp
  then have l: "pending con = map (\<lambda>i. cbuf con ((?r + i) mod 512)) [0..<Suc (length xs)]"
    unfolding length_pending by (simp add: pending_def)
  have "x = pending con ! 0" using p by simp
  then show "cbuf con ?r = x" unfolding l using b by (simp del: upt_Suc)
  have "((?w + 512 - (?r + 1) mod 512) mod 512 + 1) mod 512 = ?n"
    using ring_length_take [OF b] by (simp add: length_pending)
  moreover have "(?w + 512 - (?r + 1) mod 512) mod 512 < 512" "?n < 512" by (simp_all add: pending_length_less)
  ultimately have n': "(?w + 512 - (?r + 1) mod 512) mod 512 = length xs" using n
    by (cases "(?w + 512 - (?r + 1) mod 512) mod 512 = 511") auto
  have "pending con' = map (\<lambda>i. cbuf con (((?r + 1) mod 512 + i) mod 512)) [0..<length xs]"
    unfolding pending_def r' using n' by (simp add: con')
  also have "\<dots> = tl (pending con)"
    unfolding l by (subst upt_conv_Cons) (simp_all add: map_Suc_upt [symmetric] mod_simps del: upt_Suc)
  finally show "pending con' = xs" using p by simp
  show "ring_ok con'" using ok r' by (simp add: ring_ok_def word_less_nat_alt) (simp add: con')
qed

section \<open>The devices\<close>

text \<open>
  A routine that the interrupt loop polls: \<open>chars\<close> is what the device still has to say,
  \<open>backlog\<close> what it still holds, \<open>view\<close> what its loop leaves to others.
\<close>

locale device =
  fixes proc :: "console \<Rightarrow> u32 \<times> console"
    and chars :: "console \<Rightarrow> u8 list"
    and backlog :: "console \<Rightarrow> nat"
    and view :: "console \<Rightarrow> 'v"
  assumes proc_stop: "fst (proc con) = - 1 \<Longrightarrow> snd (proc con) = con \<and> chars con = []"
    and proc_skip: "fst (proc con) = 0 \<Longrightarrow> chars (snd (proc con)) = chars con"
    and proc_char: "fst (proc con) \<noteq> - 1 \<Longrightarrow> fst (proc con) \<noteq> 0 \<Longrightarrow>
      chars con = ucast (fst (proc con)) # chars (snd (proc con))"
    and proc_backlog: "fst (proc con) \<noteq> - 1 \<Longrightarrow> backlog (snd (proc con)) < backlog con"
    and proc_ring: "cbuf (snd (proc con)) = cbuf con \<and> rpos (snd (proc con)) = rpos con \<and>
      wpos (snd (proc con)) = wpos con"
    and proc_view: "view (snd (proc con)) = view con"
    and store_device: "chars (cons_store c con) = chars con \<and> backlog (cons_store c con) = backlog con \<and>
      view (cons_store c con) = view con"
begin

lemma proc_pending: "pending (snd (proc con)) = pending con" "ring_ok (snd (proc con)) = ring_ok con"
  using proc_ring [of con] by (simp_all add: pending_def ring_ok_def)

text \<open>The loop ends whatever the state of the ring.\<close>

lemma intr_ends: "\<exists>con'. cons_intr proc con = Some con'"
proof (induction "backlog con" arbitrary: con rule: less_induct)
  case less
  show ?case
  proof (cases "fst (proc con) = - 1")
    case True
    then show ?thesis by (subst cons_intr.simps) simp
  next
    case False
    then have "\<exists>con'. cons_intr proc (snd (proc con)) = Some con'"
      and "\<exists>con'. cons_intr proc (cons_store (fst (proc con)) (snd (proc con))) = Some con'"
      using less [of "snd (proc con)"] less [of "cons_store (fst (proc con)) (snd (proc con))"]
        proc_backlog [of con] store_device by auto
    then show ?thesis using False by (subst cons_intr.simps) (simp add: Let_def)
  qed
qed

text \<open>As long as the buffer has room, it appends what the device has to say.\<close>

lemma intr_appends:
  assumes "ring_ok con" and "length (pending con @ chars con) < 512"
    and "cons_intr proc con = Some con'"
  shows "ring_ok con' \<and> pending con' = pending con @ chars con \<and> view con' = view con"
  using assms
proof (induction "backlog con" arbitrary: con rule: less_induct)
  case less
  note ok = less.prems(1) and room = less.prems(2) and run = less.prems(3)
  consider (stop) "fst (proc con) = - 1" | (skip) "fst (proc con) = 0"
    | (char) "fst (proc con) \<noteq> - 1" "fst (proc con) \<noteq> 0" by blast
  then show ?case
  proof cases
    case stop
    then show ?thesis using run ok proc_stop [OF stop] by (subst (asm) cons_intr.simps) simp
  next
    case skip
    then have "cons_intr proc (snd (proc con)) = Some con'"
      using run by (subst (asm) cons_intr.simps) (simp add: Let_def)
    then show ?thesis
      using less.hyps [of "snd (proc con)"] proc_backlog [of con] skip ok room
      by (simp add: proc_pending proc_skip proc_view)
  next
    case char
    let ?s = "cons_store (fst (proc con)) (snd (proc con))"
    have c: "chars con = ucast (fst (proc con)) # chars ?s" using proc_char [OF char] store_device by simp
    have r: "ring_ok (snd (proc con))" using ok by (simp add: proc_pending)
    have p: "pending ?s = pending con @ [ucast (fst (proc con))]"
      using pending_store [OF r] room c by (simp add: proc_pending)
    have "cons_intr proc ?s = Some con'"
      using run char by (subst (asm) cons_intr.simps) (simp add: Let_def)
    moreover have "backlog ?s < backlog con" using proc_backlog [OF char(1)] store_device by simp
    ultimately show ?thesis
      using less.hyps [of ?s] cons_store_ring(1) [OF r] room c p store_device proc_view by simp
  qed
qed

text \<open>Afterwards the device has nothing left to say.\<close>

lemma intr_drains: "cons_intr proc con = Some con' \<Longrightarrow> chars con' = [] \<and> view con' = view con"
proof (induction "backlog con" arbitrary: con rule: less_induct)
  case less
  show ?case
  proof (cases "fst (proc con) = - 1")
    case True
    then show ?thesis using less.prems proc_stop [OF True] by (subst (asm) cons_intr.simps) simp
  next
    case False
    have "cons_intr proc (if fst (proc con) = 0 then snd (proc con)
        else cons_store (fst (proc con)) (snd (proc con))) = Some con'"
      using less.prems False by (subst (asm) cons_intr.simps) (simp add: Let_def split: if_splits)
    then show ?thesis
      using less.hyps [of "snd (proc con)"] less.hyps [of "cons_store (fst (proc con)) (snd (proc con))"]
        proc_backlog [OF False] proc_view [of con] store_device by (simp split: if_splits)
  qed
qed

end

text \<open>The serial port: every byte but the zero bytes.\<close>

definition serial_chars :: "console \<Rightarrow> u8 list" where
  "serial_chars con = filter (\<lambda>b. b \<noteq> 0) (serial_rx con)"

interpretation serial: device serial_proc_data serial_chars "\<lambda>con. length (serial_rx con)"
    "\<lambda>con. (kbd_rx con, kbd_shift con)"
  by unfold_locales
    (auto simp: serial_proc_data_def serial_chars_def cons_store_eq ucast_u8_not split: list.splits)

text \<open>The keyboard: the characters its decoder makes of the scan codes, up to the first status
  that announces none.\<close>

fun kbd_chars :: "u32 \<Rightarrow> (u8 \<times> u8) list \<Rightarrow> u8 list" where
  "kbd_chars shift [] = []"
| "kbd_chars shift ((stat, data) # rest) =
     (if stat AND KBS_DIB = 0 \<or> stat AND KBS_TERR \<noteq> 0 then []
      else case kbd_decode shift data of (c, shift) \<Rightarrow>
        (if c = 0 then [] else [ucast c]) @ kbd_chars shift rest)"

lemma capslock_bound:
  assumes "(c :: u32) < 256"
  shows "(if 0x61 \<le> c \<and> c \<le> 0x7A then c - 0x20 else if 0x41 \<le> c \<and> c \<le> 0x5A then c + 0x20 else c) < 256"
proof -
  have "c + 0x20 < 256" if "c \<le> 0x5A" using that by unat_arith
  moreover have "c - 0x20 < 256" if "0x61 \<le> c" using that assms by unat_arith
  ultimately show ?thesis using assms by auto
qed

lemma kbd_decode_bound: "fst (kbd_decode shift data) < 256"
  by (simp add: kbd_decode_def Let_def ucast_u8_bound capslock_bound)

lemma kbd_decode_char: "fst (kbd_decode shift data) \<noteq> - 1"
  using kbd_decode_bound [of shift data] by auto

text \<open>Printing touches neither the ring nor what the devices hold.\<close>

definition input_side where
  "input_side con = (cbuf con, rpos con, wpos con, kbd_rx con, kbd_shift con, serial_rx con, serial_exists con)"

lemma putc_parts_input:
  "input_side (serial_putc c con) = input_side con" "input_side (lpt_putc c con) = input_side con"
  "input_side (cga_switch c con) = input_side con" "input_side (cga_finish con) = input_side con"
  by (simp_all add: input_side_def serial_putc_def lpt_putc_def cga_switch_def cga_finish_def Let_def)

lemma blank_input: "input_side (cons_putc_blank con) = input_side con"
  by (simp add: cons_putc_blank_def cga_putc_blank_def putc_parts_input)

lemma blanks_input: "input_side ((cons_putc_blank ^^ n) con) = input_side con"
  by (induction n) (simp_all add: blank_input)

lemma cons_putc_input: "input_side (cons_putc c con) = input_side con"
  by (simp add: cons_putc_def cga_putc_def Let_def putc_parts_input blanks_input)

lemma cprintf_lit_side: "input_side (cprintf_lit m con) = input_side con"
  by (induction m arbitrary: con) (simp_all add: cprintf_lit_def cputchar_def cons_putc_input)

lemma cprintf_lit_input [simp]:
  "cbuf (cprintf_lit m con) = cbuf con" "rpos (cprintf_lit m con) = rpos con"
  "wpos (cprintf_lit m con) = wpos con" "kbd_rx (cprintf_lit m con) = kbd_rx con"
  "kbd_shift (cprintf_lit m con) = kbd_shift con" "serial_rx (cprintf_lit m con) = serial_rx con"
  "serial_exists (cprintf_lit m con) = serial_exists con"
  using cprintf_lit_side [of m con] by (simp_all add: input_side_def)

lemma kbd_proc_cases:
  obtains (none) "kbd_proc_data con = (- 1, con)" "kbd_chars (kbd_shift con) (kbd_rx con) = []"
  | (code) stat data rest where "kbd_rx con = (stat, data) # rest"
      "fst (kbd_proc_data con) = fst (kbd_decode (kbd_shift con) data)"
      "kbd_rx (snd (kbd_proc_data con)) = rest"
      "kbd_shift (snd (kbd_proc_data con)) = snd (kbd_decode (kbd_shift con) data)"
      "stat AND KBS_DIB \<noteq> 0" "stat AND KBS_TERR = 0"
proof (cases "kbd_rx con")
  case Nil
  then show ?thesis using none by (simp add: kbd_proc_data_def)
next
  case (Cons e rest)
  obtain stat data where e: "e = (stat, data)" by (cases e)
  show ?thesis
  proof (cases "stat AND KBS_DIB = 0 \<or> stat AND KBS_TERR \<noteq> 0")
    case True
    then show ?thesis using none Cons e by (auto simp: kbd_proc_data_def)
  next
    case False
    then show ?thesis using code [OF Cons [unfolded e]] Cons e
      by (simp add: kbd_proc_data_def Let_def split: prod.splits)
  qed
qed

lemma kbd_proc_keeps:
  "cbuf (snd (kbd_proc_data con)) = cbuf con" "rpos (snd (kbd_proc_data con)) = rpos con"
  "wpos (snd (kbd_proc_data con)) = wpos con" "serial_rx (snd (kbd_proc_data con)) = serial_rx con"
  "serial_exists (snd (kbd_proc_data con)) = serial_exists con"
  by (simp_all add: kbd_proc_data_def Let_def split: list.split prod.split)

interpretation kbd: device kbd_proc_data "\<lambda>con. kbd_chars (kbd_shift con) (kbd_rx con)"
    "\<lambda>con. length (kbd_rx con)" "\<lambda>con. (serial_exists con, serial_rx con)"
proof
  fix con
  show "snd (kbd_proc_data con) = con \<and> kbd_chars (kbd_shift con) (kbd_rx con) = []"
    if "fst (kbd_proc_data con) = - 1"
    using that by (cases con rule: kbd_proc_cases) (auto simp: kbd_decode_char)
  show "kbd_chars (kbd_shift (snd (kbd_proc_data con))) (kbd_rx (snd (kbd_proc_data con))) =
      kbd_chars (kbd_shift con) (kbd_rx con)" if "fst (kbd_proc_data con) = 0"
    using that by (cases con rule: kbd_proc_cases) (auto split: prod.splits)
  show "kbd_chars (kbd_shift con) (kbd_rx con) = ucast (fst (kbd_proc_data con)) #
      kbd_chars (kbd_shift (snd (kbd_proc_data con))) (kbd_rx (snd (kbd_proc_data con)))"
    if "fst (kbd_proc_data con) \<noteq> - 1" "fst (kbd_proc_data con) \<noteq> 0"
    using that by (cases con rule: kbd_proc_cases) (auto split: prod.splits)
  show "length (kbd_rx (snd (kbd_proc_data con))) < length (kbd_rx con)"
    if "fst (kbd_proc_data con) \<noteq> - 1"
    using that by (cases con rule: kbd_proc_cases) auto
qed (simp_all add: kbd_proc_keeps cons_store_eq)

section \<open>Input\<close>

text \<open>What the two devices will deliver on the next poll, in the order the code asks them.\<close>

definition arriving :: "console \<Rightarrow> u8 list" where
  "arriving con = (if serial_exists con then serial_chars con else []) @ kbd_chars (kbd_shift con) (kbd_rx con)"

lemma serial_intr_ends: "\<exists>con'. serial_intr con = Some con'"
  by (simp add: serial_intr_def serial.intr_ends)

lemma kbd_intr_ends: "\<exists>con'. kbd_intr con = Some con'"
  by (simp add: kbd_intr_def kbd.intr_ends)

lemma serial_intr_appends:
  assumes "ring_ok con" and "length (pending con @ arriving con) < 512" and "serial_intr con = Some con'"
  shows "ring_ok con' \<and> pending con' = pending con @ (if serial_exists con then serial_chars con else []) \<and>
    kbd_rx con' = kbd_rx con \<and> kbd_shift con' = kbd_shift con"
  using assms serial.intr_appends [of con con']
  by (cases "serial_exists con") (auto simp: serial_intr_def arriving_def)

lemma polls_append:
  assumes "ring_ok con" and "length (pending con @ arriving con) < 512"
    and s: "serial_intr con = Some con1" and k: "kbd_intr con1 = Some con2"
  shows "ring_ok con2 \<and> pending con2 = pending con @ arriving con"
  using serial_intr_appends [OF assms(1-3)] kbd.intr_appends [of con1 con2] k assms(2)
  by (simp add: kbd_intr_def arriving_def)

lemma polls_drain:
  assumes "serial_intr con = Some con1" and "kbd_intr con1 = Some con2"
  shows "arriving con2 = []"
proof -
  have s: "serial_exists con1 \<Longrightarrow> serial_chars con1 = []"
    using assms(1) serial.intr_drains by (auto simp: serial_intr_def split: if_splits)
  have "kbd_chars (kbd_shift con2) (kbd_rx con2) = []" "serial_exists con2 = serial_exists con1" "serial_rx con2 = serial_rx con1"
    using kbd.intr_drains [of con1 con2] assms(2) by (simp_all add: kbd_intr_def)
  then show ?thesis using s by (simp add: arriving_def serial_chars_def)
qed

text \<open>A read takes the head of what waits and arrives, and leaves the rest waiting.\<close>

lemma cons_getc_queue:
  assumes "ring_ok con" and "length (pending con @ arriving con) < 512"
  shows "\<exists>c con'. cons_getc con = Some (c, con') \<and> ring_ok con' \<and> arriving con' = [] \<and>
    (case pending con @ arriving con of
       [] \<Rightarrow> c = 0 \<and> pending con' = []
     | x # xs \<Rightarrow> c = ucast x \<and> pending con' = xs)"
proof -
  obtain con1 where s: "serial_intr con = Some con1" using serial_intr_ends by blast
  obtain con2 where k: "kbd_intr con1 = Some con2" using kbd_intr_ends by blast
  have r: "ring_ok con2" and p: "pending con2 = pending con @ arriving con"
    using polls_append [OF assms s k] by simp_all
  have a: "arriving (con2\<lparr>rpos := r\<rparr>) = []" "arriving con2 = []" for r
    using polls_drain [OF s k] by (auto simp: arriving_def serial_chars_def)
  show ?thesis
  proof (cases "pending con2")
    case Nil
    then have "rpos con2 = wpos con2"
      using ring_bounds [OF r] ring_slot_end [OF ring_bounds [OF r]] length_pending [of con2]
      by (simp add: word_unat_eq_iff)
    then show ?thesis using s k r Nil p a by (simp add: cons_getc_def)
  next
    case (Cons x xs)
    then have "rpos con2 \<noteq> wpos con2" using length_pending [of con2] by auto
    moreover note t = pending_take [OF r Cons refl]
    ultimately show ?thesis using s k Cons p t a by (auto simp: cons_getc_def Let_def)
  qed
qed

text \<open>C26. The ring buffer is a queue: as long as what waits and what arrives stays below 512
  characters, reading the console returns the oldest waiting character, or zero when there is
  none, after the serial port and then the keyboard were polled, and nothing is lost or reordered.\<close>

theorem cons_getc_fifo:
  assumes "ring_ok con" and "length (pending con @ arriving con) < 512"
  shows "\<exists>c con'. cons_getc con = Some (c, con') \<and> ring_ok con' \<and> arriving con' = [] \<and>
    (case pending con @ arriving con of
       [] \<Rightarrow> c = 0 \<and> pending con' = []
     | x # xs \<Rightarrow> c = ucast x \<and> pending con' = xs)"
  using assms by (rule cons_getc_queue)

text \<open>C27. Input never hangs: reading a character and bringing the console up both return,
  whatever the devices hold and whatever state the ring is in.\<close>

theorem console_input_ends:
  "\<exists>r con'. cons_getc con = Some r \<and> cons_init present hi lo lsr con = Some con'"
proof -
  obtain con1 where s: "serial_intr con = Some con1" using serial_intr_ends by blast
  obtain con2 where k: "kbd_intr con1 = Some con2" using kbd_intr_ends by blast
  obtain con3 where i: "kbd_intr (cga_init present hi lo con) = Some con3" using kbd_intr_ends by blast
  show ?thesis using s k i by (simp add: cons_getc_def cons_init_def kbd_init_def Let_def)
qed

text \<open>C30. There is no check for a full buffer: when 511 characters wait and one more arrives, the
  buffer becomes indistinguishable from an empty one and all 512 characters are lost.\<close>

theorem console_overflow_loses_input:
  assumes "ring_ok con" and "length (pending con) = 511"
    and "serial_exists con" and "serial_rx con = [b]" and "b \<noteq> 0"
  shows "\<exists>con'. serial_intr con = Some con' \<and> ring_ok con' \<and> pending con' = []"
proof -
  let ?con = "cons_store (ucast b) (con\<lparr>serial_rx := []\<rparr>)"
  have "pending (con\<lparr>serial_rx := []\<rparr>) = pending con" and r: "ring_ok (con\<lparr>serial_rx := []\<rparr>)"
    using assms(1) by (simp_all add: pending_def ring_ok_def)
  then have "pending ?con = []" using pending_overflow [OF r] assms(2) by simp
  moreover have "serial_rx ?con = []" by (simp add: cons_store_eq)
  moreover have "serial_intr con = Some ?con"
    using assms(3-5) calculation
    by (simp add: serial_intr_def, subst cons_intr.simps)
      (simp add: serial_proc_data_def ucast_u8_not, subst cons_intr.simps, simp add: serial_proc_data_def)
  ultimately show ?thesis using cons_store_ring(1) [OF r] by blast
qed

section \<open>Screen\<close>

definition on_screen :: "console \<Rightarrow> bool" where
  "on_screen con \<longleftrightarrow> crt_pos con < CRT_SIZE"

text \<open>Nothing past the last cell changed, the cursor is on the screen and the cursor register
  shows it.\<close>

definition drawn :: "console \<Rightarrow> console \<Rightarrow> bool" where
  "drawn con con' \<longleftrightarrow> on_screen con' \<and> crt_cursor con' = crt_pos con' \<and>
     (\<forall>i \<ge> 2000. crt_buf con' i = crt_buf con i)"

lemma newline_bound:
  assumes "p < (2000 :: u16)"
  shows "p + 80 - (p + 80) mod 80 \<le> 2000" and "p - p mod 80 < 2000"
proof -
  have p: "unat p < 2000" using assms by (simp add: word_less_nat_alt)
  then have s: "unat (p + 80) = unat p + 80" by (simp add: unat_word_ariths)
  have le: "(p + 80) mod 80 \<le> p + 80" by (simp add: word_le_nat_alt unat_mod s)
  have "unat (p + 80 - (p + 80) mod 80) = unat p + 80 - (unat p + 80) mod 80"
    using unat_sub [OF le] by (simp add: s unat_mod)
  also have "\<dots> = 80 * ((unat p + 80) div 80)" by (rule minus_mod_eq_mult_div)
  also have "\<dots> \<le> 2000" using p by (simp add: div_add_self2) 
  finally show "p + 80 - (p + 80) mod 80 \<le> 2000" by (simp add: word_le_nat_alt)
  have "p mod 80 \<le> p" by (simp add: word_le_nat_alt unat_mod)
  then have "p - p mod 80 \<le> p" by (rule word_sub_le)
  then show "p - p mod 80 < 2000" using assms by simp
qed

lemma cga_switch_bound:
  assumes "on_screen con"
  shows "crt_pos (cga_switch c con) \<le> 2000" and "\<forall>i \<ge> 2000. crt_buf (cga_switch c con) i = crt_buf con i"
proof -
  have p: "crt_pos con < 2000" using assms by (simp add: on_screen_def)
  then have u: "unat (crt_pos con) < 2000" by (simp add: word_less_nat_alt)
  have "crt_pos con + 1 \<le> 2000" using u by (simp add: word_le_nat_alt unat_word_ariths)
  moreover have "crt_pos con - 1 \<le> 2000" if "crt_pos con > 0" using that p by unat_arith
  moreover note newline_bound(1) [OF p] less_imp_le [OF p] less_imp_le [OF newline_bound(2) [OF p]]
  ultimately show "crt_pos (cga_switch c con) \<le> 2000"
    by (simp add: cga_switch_def Let_def)
  have "unat (crt_pos con - 1) < 2000" if "crt_pos con > 0" using that u by unat_arith
  then show "\<forall>i \<ge> 2000. crt_buf (cga_switch c con) i = crt_buf con i"
    using u by (auto simp: cga_switch_def Let_def)
qed

lemma cga_finish_drawn:
  assumes "crt_pos con \<le> 2000" and "\<forall>i \<ge> 2000. crt_buf con i = crt_buf con0 i"
  shows "drawn con0 (cga_finish con)"
proof (cases "crt_pos con \<ge> 2000")
  case True
  then have "crt_pos con = 2000" using assms(1) by simp
  then show ?thesis using assms(2) by (simp add: drawn_def on_screen_def cga_finish_def Let_def)
next
  case False
  then show ?thesis using assms(2) by (simp add: drawn_def on_screen_def cga_finish_def Let_def)
qed

lemma ports_screen:
  "crt_pos (lpt_putc c (serial_putc d con)) = crt_pos con" "crt_buf (lpt_putc c (serial_putc d con)) = crt_buf con"
  by (simp_all add: lpt_putc_def serial_putc_def)

lemma blank_drawn: "on_screen con \<Longrightarrow> drawn con (cons_putc_blank con)"
  using cga_switch_bound [of "lpt_putc 0x20 (serial_putc 0x20 con)" "cga_attr 0x20"]
  by (simp add: cons_putc_blank_def cga_putc_blank_def cga_finish_drawn on_screen_def ports_screen)

lemma blanks_drawn:
  "on_screen con \<Longrightarrow> on_screen ((cons_putc_blank ^^ n) con) \<and>
     (\<forall>i \<ge> 2000. crt_buf ((cons_putc_blank ^^ n) con) i = crt_buf con i)"
  by (induction n) (use blank_drawn in \<open>simp_all add: drawn_def\<close>)

lemma cons_putc_drawn: "on_screen con \<Longrightarrow> drawn con (cons_putc c con)"
proof -
  assume on: "on_screen con"
  let ?con = "lpt_putc c (serial_putc c con)"
  have "on_screen ?con" using on by (simp add: on_screen_def ports_screen)
  then have "drawn ?con (cga_putc c ?con)"
    using cga_switch_bound blanks_drawn [of ?con 5] less_imp_le [of "crt_pos ((cons_putc_blank ^^ 5) ?con)" 2000]
    by (auto simp: cga_putc_def Let_def on_screen_def intro!: cga_finish_drawn)
  then show ?thesis by (simp add: cons_putc_def drawn_def ports_screen)
qed

text \<open>C28. Output stays on the screen: a character printed while the cursor is on the 80 by 25
  screen leaves it there, whatever the character, moves the hardware cursor along, and writes no
  cell behind the screen's 2000.\<close>

theorem cputchar_on_screen:
  assumes "on_screen con"
  shows "on_screen (cputchar c con) \<and> crt_cursor (cputchar c con) = crt_pos (cputchar c con) \<and>
    (\<forall>i \<ge> 2000. crt_buf (cputchar c con) i = crt_buf con i)"
  using cons_putc_drawn [OF assms] by (simp add: cputchar_def drawn_def)

section \<open>Keyboard\<close>

lemma shiftcode_cases: "shiftcode d \<in> {0, SHIFT, CTL, ALT}"
  by (simp add: shiftcode_def)

lemma togglecode_cases: "togglecode d \<in> {0, CAPSLOCK, NUMLOCK, SCROLLLOCK}"
  by (simp add: togglecode_def)

lemma release_restores:
  fixes s e t shift :: u32
  assumes a: "shift AND (s OR e) = 0" and b: "t AND (s OR e) = 0"
  shows "((shift OR s) XOR t) AND NOT (s OR e) = shift XOR t"
    and "s AND e = 0 \<Longrightarrow> ((shift OR s) XOR t) AND e = 0"
proof -
  have d: "\<not> (bit shift n \<and> (bit s n \<or> bit e n))" "\<not> (bit t n \<and> (bit s n \<or> bit e n))" for n
    using arg_cong [OF a, of "\<lambda>w. bit w n"] arg_cong [OF b, of "\<lambda>w. bit w n"]
    by (simp_all add: bit_simps)
  show "((shift OR s) XOR t) AND NOT (s OR e) = shift XOR t"
    by (rule bit_word_eqI) (use d in \<open>auto simp: bit_simps\<close>)
  assume se: "s AND e = 0"
  have "\<not> (bit s n \<and> bit e n)" for n
    using arg_cong [OF se, of "\<lambda>w. bit w n"] by (simp add: bit_simps)
  then show "((shift OR s) XOR t) AND e = 0"
    by (intro bit_word_eqI) (use d in \<open>auto simp: bit_simps\<close>)
qed

lemma modifier_masks:
  "togglecode d AND (shiftcode d OR E0ESC) = 0" "shiftcode d AND E0ESC = 0"
  by (simp_all add: togglecode_def shiftcode_def)

lemma release_code:
  assumes "d AND 0x80 = (0 :: u8)" and "d \<noteq> 0x60"
  shows "d OR 0x80 \<noteq> 0xE0" and "(d OR 0x80) AND 0x80 \<noteq> 0" and "(d OR 0x80) AND 0x7F = d" and "d \<noteq> 0xE0"
proof -
  have x: "(d OR 0x80) AND 0x7F = d"
  proof (rule bit_word_eqI)
    fix n assume "n < LENGTH(8)"
    then have "n \<in> {0, 1, 2, 3, 4, 5, 6, 7}" by auto
    then show "bit ((d OR 0x80) AND 0x7F) n = bit d n"
      using arg_cong [OF assms(1), of "\<lambda>w. bit w n"] by (auto simp: bit_simps)
  qed
  show "(d OR 0x80) AND 0x7F = d" by (rule x)
  show "d OR 0x80 \<noteq> 0xE0" using x assms(2) by auto
  show "(d OR 0x80) AND 0x80 \<noteq> 0" by (simp add: bit.conj_disj_distrib2)
  show "d \<noteq> 0xE0" using assms(1) by auto
qed

text \<open>
  One byte of a key, behind the escape prefix if it has one; the code by which such a key is looked up;
  and what Caps Lock makes of a character.
\<close>

definition send_key :: "bool \<Rightarrow> u8 \<Rightarrow> u32 \<Rightarrow> u32 \<times> u32" where
  "send_key ext d shift = kbd_decode (if ext then snd (kbd_decode shift 0xE0) else shift) d"

definition key_code :: "bool \<Rightarrow> u8 \<Rightarrow> u8" where
  "key_code ext d = (if ext then d OR 0x80 else d)"

definition caps_char :: "bool \<Rightarrow> u8 \<Rightarrow> u8" where
  "caps_char caps c =
     (if caps \<and> c \<in> set (codes ''abcdefghijklmnopqrstuvwxyz'') then c - 0x20
      else if caps \<and> c \<in> set (codes ''ABCDEFGHIJKLMNOPQRSTUVWXYZ'') then c + 0x20 else c)"

lemma byte_range:
  fixes c :: u8
  assumes "b \<le> 256"
  shows "c \<in> of_nat ` {a..<b} \<longleftrightarrow> a \<le> unat c \<and> unat c < b"
proof
  assume "c \<in> of_nat ` {a..<b}"
  then obtain n where "c = of_nat n" "a \<le> n" "n < b" by auto
  with assms show "a \<le> unat c \<and> unat c < b" by (simp add: unat_of_nat)
next
  assume "a \<le> unat c \<and> unat c < b"
  then have "unat c \<in> {a..<b}" by simp
  moreover have "c = of_nat (unat c)" by simp
  ultimately show "c \<in> of_nat ` {a..<b}" by blast
qed

lemma letters:
  "c \<in> set (codes ''abcdefghijklmnopqrstuvwxyz'') \<longleftrightarrow> 0x61 \<le> c \<and> c \<le> 0x7A"
  "c \<in> set (codes ''ABCDEFGHIJKLMNOPQRSTUVWXYZ'') \<longleftrightarrow> 0x41 \<le> c \<and> c \<le> 0x5A"
proof -
  have "{97..<123} = set [97..<123 :: nat]" "{65..<91} = set [65..<91 :: nat]"
    by (simp_all only: atLeastLessThan_upt)
  then have "set (codes ''abcdefghijklmnopqrstuvwxyz'') = of_nat ` {97..<123}"
    "set (codes ''ABCDEFGHIJKLMNOPQRSTUVWXYZ'') = of_nat ` {65..<91}"
    by (simp_all add: codes_def upt_rec)
  then show "c \<in> set (codes ''abcdefghijklmnopqrstuvwxyz'') \<longleftrightarrow> 0x61 \<le> c \<and> c \<le> 0x7A"
    "c \<in> set (codes ''ABCDEFGHIJKLMNOPQRSTUVWXYZ'') \<longleftrightarrow> 0x41 \<le> c \<and> c \<le> 0x5A"
    by (auto simp: byte_range word_le_nat_alt)
qed

lemma caps_char_code:
  fixes c :: u8
  defines "w \<equiv> (ucast c :: u32)"
  shows "(if caps then (if 0x61 \<le> w \<and> w \<le> 0x7A then w - 0x20
      else if 0x41 \<le> w \<and> w \<le> 0x5A then w + 0x20 else w) else w) = ucast (caps_char caps c)"
proof -
  have u: "unat w = unat c" unfolding w_def by (simp add: unsigned_ucast_eq)
  have le: "0x61 \<le> w \<longleftrightarrow> 0x61 \<le> c" "w \<le> 0x7A \<longleftrightarrow> c \<le> 0x7A" "0x41 \<le> w \<longleftrightarrow> 0x41 \<le> c" "w \<le> 0x5A \<longleftrightarrow> c \<le> 0x5A"
    using u by (simp_all add: word_le_nat_alt)
  have "w - 0x20 = ucast (c - 0x20)" if "0x61 \<le> c" "c \<le> 0x7A"
  proof (rule word_eq_unatI)
    have "unat (w - 0x20) = unat c - 32" using that u by (simp add: unat_sub word_le_nat_alt)
    moreover have "unat (c - 0x20) = unat c - 32" using that by (simp add: unat_sub word_le_nat_alt)
    ultimately show "unat (w - 0x20) = unat (ucast (c - 0x20) :: u32)" by (simp add: unsigned_ucast_eq)
  qed
  moreover have "w + 0x20 = ucast (c + 0x20)" if "0x41 \<le> c" "c \<le> 0x5A"
  proof (rule word_eq_unatI)
    have "unat (w + 0x20) = unat c + 32" using that u by (simp add: unat_word_ariths word_le_nat_alt)
    moreover have "unat (c + 0x20) = unat c + 32" using that by (simp add: unat_word_ariths word_le_nat_alt)
    ultimately show "unat (w + 0x20) = unat (ucast (c + 0x20) :: u32)" by (simp add: unsigned_ucast_eq)
  qed
  ultimately show ?thesis unfolding caps_char_def letters using le by (auto simp: w_def)
qed

text \<open>C29. A key leaves no trace: pressing a key, plain or behind the prefix \<open>0xE0\<close>, and releasing it
  gives back the shift state it found, except for the lock the key toggles. The press types the
  character its map gives under the modifiers in force, with the case of letters swapped if Caps Lock is
  on, and the release types nothing. Assumed is that no prefix is pending and that the key is not a
  modifier already held down; code \<open>0x60\<close> is excluded, whose release code is the prefix.\<close>

theorem kbd_press_release:
  assumes "d AND 0x80 = 0" and "d \<noteq> 0x60" and "shift AND (shiftcode (key_code ext d) OR E0ESC) = 0"
    and "send_key ext d shift = (c, held)"
  shows "send_key ext (d OR 0x80) held = (0, shift XOR togglecode (key_code ext d)) \<and>
    held = (shift OR shiftcode (key_code ext d)) XOR togglecode (key_code ext d) \<and>
    c = ucast (caps_char (held AND CAPSLOCK \<noteq> 0) (charcode (held AND (CTL OR SHIFT)) (key_code ext d)))"
proof -
  let ?k = "key_code ext d"
  note r = release_code [OF assms(1,2)]
  have e: "shift AND E0ESC = 0"
    by (rule bit_word_eqI)
      (use arg_cong [OF assms(3), of "\<lambda>w. bit w n" for n] in \<open>auto simp: bit_simps\<close>)
  have esc: "(x OR E0ESC) AND E0ESC \<noteq> 0" for x :: u32 by (simp add: bit.conj_disj_distrib2)
  have clear: "(shift OR E0ESC) AND NOT E0ESC = shift"
    by (rule bit_word_eqI) (use arg_cong [OF e, of "\<lambda>w. bit w n" for n] in \<open>auto simp: bit_simps\<close>)
  have clear': "(shift OR E0ESC) AND - 65 = shift" using clear by simp
  have "send_key ext d shift =
      ((let sh = (shift OR shiftcode ?k) XOR togglecode ?k; w = ucast (charcode (sh AND (CTL OR SHIFT)) ?k) :: u32 in
        if sh AND CAPSLOCK \<noteq> 0 then (if 0x61 \<le> w \<and> w \<le> 0x7A then w - 0x20
          else if 0x41 \<le> w \<and> w \<le> 0x5A then w + 0x20 else w) else w),
       (shift OR shiftcode ?k) XOR togglecode ?k)"
    by (cases ext) (simp_all add: send_key_def key_code_def kbd_decode_def Let_def assms(1) e r(4) esc clear')
  with assms(4) have h: "held = (shift OR shiftcode ?k) XOR togglecode ?k"
    and c: "c = ucast (caps_char (held AND CAPSLOCK \<noteq> 0) (charcode (held AND (CTL OR SHIFT)) ?k))"
    by (auto simp: Let_def caps_char_code)
  have m: "held AND E0ESC = 0" "held AND NOT (shiftcode ?k OR E0ESC) = shift XOR togglecode ?k"
    unfolding h using release_restores [OF assms(3)] modifier_masks by simp_all
  have "(held OR E0ESC) AND NOT (shiftcode ?k OR E0ESC) = held AND NOT (shiftcode ?k OR E0ESC)"
    by (rule bit_word_eqI) (auto simp: bit_simps)
  with m have "send_key ext (d OR 0x80) held = (0, shift XOR togglecode ?k)"
    using r esc [of held] by (auto simp: send_key_def key_code_def kbd_decode_def Let_def)
  with h c show ?thesis by blast
qed

section \<open>Witnesses\<close>

text \<open>A console on which \<open>ab\<close> waits and the serial port holds a \<open>c\<close>; and a full one.\<close>

definition typed_cons :: console where
  "typed_cons = \<lparr>serial_exists = True, serial_rx = [0x63], serial_tx = [], lpt_tx = [], addr_6845 = 0x3D4,
     crt_buf = (\<lambda>_. 0), crt_pos = 1999, crt_cursor = 0, kbd_rx = [(1, 0x1E)], kbd_shift = 0, rebooted = False,
     cbuf = (\<lambda>_. 0)(511 := 0x61, 0 := 0x62), rpos = 511, wpos = 1\<rparr>"

definition full_cons :: console where
  "full_cons = typed_cons\<lparr>rpos := 1, wpos := 0\<rparr>"

lemma typed_waiting: "pending typed_cons = [0x61, 0x62]"
  by (simp add: pending_def typed_cons_def upt_rec)

lemma normalmap_a: "normalmap 0x1E = 0x61"
proof -
  have "map_of ([(0xC7, 0xE0), (0x9C, 10), (0xB5, of_char (CHR ''/''))] @ keypad) (0x1E :: u8) = None"
    by (simp add: keypad_def)
  moreover have "([0, 0x1B] @ codes ''1234567890-='' @ [8, 9] @ codes ''qwertyuiop[]'' @ [10, 0] @
      codes ''asdfghjkl;'' @ xs) ! 30 = 0x61" for xs
    by (simp add: codes_def nth_append)
  ultimately show ?thesis by (simp add: normalmap_def table_def codes_def)
qed

lemma typed_arriving: "arriving typed_cons = [0x63, 0x61]"
  by (simp add: arriving_def serial_chars_def typed_cons_def kbd_decode_def Let_def shiftcode_def
      togglecode_def charcode_def normalmap_a)

lemma cons_getc_fifo_witness:
  "\<exists>con'. cons_getc typed_cons = Some (0x61, con') \<and> pending con' = [0x62, 0x63, 0x61]"
proof -
  have "ring_ok typed_cons" by (simp add: ring_ok_def typed_cons_def)
  then show ?thesis using cons_getc_fifo [of typed_cons] by (auto simp: typed_waiting typed_arriving)
qed

lemma console_overflow_loses_input_witness:
  "\<exists>con'. serial_intr full_cons = Some con' \<and> pending con' = []"
  using console_overflow_loses_input [of full_cons "0x63"]
  by (auto simp: ring_ok_def length_pending full_cons_def typed_cons_def)

lemma on_typed: "on_screen typed_cons"
  by (simp add: on_screen_def typed_cons_def)

lemma cputchar_on_screen_witness: "on_screen (cputchar 0x41 typed_cons)"
  using cputchar_on_screen [of typed_cons "0x41"] on_typed by simp

lemma kbd_press_release_witness:
  "send_key False 0x1E CAPSLOCK = (0x41, CAPSLOCK) \<and> send_key False 0x9E CAPSLOCK = (0, CAPSLOCK)"
proof -
  obtain c held where k: "send_key False 0x1E CAPSLOCK = (c, held)" by fastforce
  have "held = CAPSLOCK" "send_key False 0x9E held = (0, CAPSLOCK)" "c = ucast (caps_char True (normalmap 0x1E))"
    using kbd_press_release [OF _ _ _ k] by (auto simp: key_code_def shiftcode_def togglecode_def charcode_def)
  with k show ?thesis by (simp add: normalmap_a caps_char_def codes_def)
qed

end
