(* ===== verification/Sys_Facts.thy ===== *)
theory Sys_Facts
  imports Kinv Console_Props
begin

text \<open>
  Each system call that works on memory or on the table of environments, under the kernel's
  invariant: it returns, keeps the invariant and changes the mappings of at most its target.
\<close>

text \<open>The slot an identifier names when environment \<open>c\<close> is current.\<close>

definition target :: "nat \<Rightarrow> u32 \<Rightarrow> nat" where
  "target c envid = (if envid = 0 then c else ENVX envid)"

lemma resolve:
  assumes "kinv s" and "curenv s = Some c"
  obtains (bad) "envid2env envid checkperm s = Some (Inl (- E_BAD_ENV))"
    | (found) "envid2env envid checkperm s = Some (Inr (Some (target c envid)))" "target c envid \<in> in_use s"
proof (cases rule: envid2env_total [OF assms(2), of envid checkperm])
  case 1
  then show thesis by (rule bad)
next
  case (2 r)
  from envid2env_in_use [OF assms 2] obtain e where "r = Some e" "e \<in> in_use s" "e = target c envid"
    unfolding target_def .
  with 2 found show thesis by simp
qed

lemma sys_page_alloc_ok:
  assumes k: "kinv s" and c: "curenv s = Some c"
  shows "\<exists>r s'. sys_page_alloc envid va perm s = Some (Returns r s') \<and> call_post (target c envid) r s s' \<and>
    (r = 0 \<longrightarrow> envid2env envid True s = Some (Inr (Some (target c envid))) \<and> target c envid \<in> in_use s \<and>
      \<not> bad_va va \<and> \<not> bad_perm perm \<and> alloc_done (target c envid) va perm s s') \<and>
    (envid2env envid True s \<noteq> Some (Inl (- E_BAD_ENV)) \<longrightarrow> \<not> bad_va va \<longrightarrow> \<not> bad_perm perm \<longrightarrow>
      2 \<le> length (free_pages s) \<longrightarrow> r = 0)"
proof (cases rule: resolve [OF k c, of envid True])
  case 1
  then show ?thesis using k by (simp add: sys_page_alloc_def)
next
  case 2
  note res = 2(1) and e = 2(2)
  have ok: "pages_ok s" using kinvD(1) [OF k] by (simp add: spaces_ok_def)
  show ?thesis
  proof (cases "bad_va va \<or> bad_perm perm \<or> free_pages s = []")
    case True
    with k res page_alloc_empty [OF ok, of ALLOC_ZERO] show ?thesis by (auto simp: sys_page_alloc_def)
  next
    case False
    then obtain p ps where f: "free_pages s = p # ps" and v: "\<not> bad_va va" "\<not> bad_perm perm" by (auto simp: neq_Nil_conv)
    from alloc_page_step [OF k e v f] obtain s1 r s2 where
      s1: "page_alloc ALLOC_ZERO s = Some (Some p, s1)"
      "page_insert (env_pgdir (envs s1 (target c envid))) p va perm s1 = Some (r, s2)" and
      r: "sint r < 0 \<and> ps = [] \<and> (\<exists>s3. page_free p s2 = Some s3 \<and> call_post (target c envid) (- E_NO_MEM) s s3) \<or>
        r = 0 \<and> call_post (target c envid) 0 s s2 \<and> alloc_done (target c envid) va perm s s2" by metis
    from r show ?thesis
    proof (elim disjE exE conjE)
      fix s3
      assume "sint r < 0" "ps = []" "page_free p s2 = Some s3" "call_post (target c envid) (- E_NO_MEM) s s3"
      then show ?thesis using s1 res v f unfolding sys_page_alloc_def by simp
    next
      assume "r = 0" "call_post (target c envid) 0 s s2" "alloc_done (target c envid) va perm s s2"
      then show ?thesis using s1 res v e unfolding sys_page_alloc_def by simp
    qed
  qed
qed

lemma sys_page_unmap_ok:
  assumes k: "kinv s" and c: "curenv s = Some c"
  shows "\<exists>r s'. sys_page_unmap envid va s = Some (Returns r s') \<and> call_post (target c envid) r s s' \<and>
    (r = 0 \<longrightarrow> envid2env envid True s = Some (Inr (Some (target c envid))) \<and> target c envid \<in> in_use s \<and>
      \<not> bad_va va \<and>
      (\<forall>v. PTE_ADDR v \<noteq> va \<longrightarrow> env_mem (target c envid) s' v = env_mem (target c envid) s v) \<and>
      (\<forall>v < UTOP. if PTE_ADDR v = va then env_view (target c envid) s' v AND PTE_P = 0
         else env_view (target c envid) s' v = env_view (target c envid) s v)) \<and>
    (envid2env envid True s \<noteq> Some (Inl (- E_BAD_ENV)) \<longrightarrow> \<not> bad_va va \<longrightarrow> r = 0) \<and>
    vm_frame s s'"
proof (cases rule: resolve [OF k c, of envid True])
  case 1
  then show ?thesis using k by (simp add: sys_page_unmap_def)
next
  case 2
  let ?e = "target c envid" and ?d = "env_pgdir (envs s (target c envid))"
  have d: "?d \<in> dirs s" using kinvD(4) [OF k 2(2)] .
  show ?thesis
  proof (cases "bad_va va")
    case True
    with k 2 show ?thesis by (simp add: sys_page_unmap_def)
  next
    case False
    then have v: "va < UTOP" "PTE_ADDR va = va" by (auto simp: bad_va_def not_le)
    have same: "pte_of s ?d w = pte_of s ?d va" if "PTE_ADDR w = va" for w
      using same_page_iff [of w va] that v(2) by (simp add: pte_of_def Let_def)
    show ?thesis
    proof (cases "pte_of s ?d va AND PTE_P = 0")
      case True
      have "page_remove ?d va s = Some s"
        using page_remove_unmapped [OF _ user_slot(1) [OF v(1)] True] kinvD(1) [OF k] d by (simp add: spaces_ok_def)
      with True False 2 k same show ?thesis
        by (simp add: sys_page_unmap_def env_view_def user_view_def)
    next
      case m: False
      from remove_local_change [OF kinvD(1) [OF k] d v(1) m] obtain s' where
        s': "page_remove ?d va s = Some s'" "local_change ?d (dirs s) s s'" "vm_frame s s'"
        "\<And>v. tree_slot (PDX v) \<Longrightarrow> pte_of s' ?d v = (if PTE_ADDR v = PTE_ADDR va then 0 else pte_of s ?d v)" by metis
      note cp = call_post_change [OF k 2(2) s'(3,2)]
      have w: "if PTE_ADDR u = va then env_view ?e s' u AND PTE_P = 0 else env_view ?e s' u = env_view ?e s u" for u
        using s'(4) [OF user_slot(1)] v(2) by (simp add: env_view_def user_view_def vm_frame_fields(4) [OF s'(3)])
      then have "env_mem ?e s' u = env_mem ?e s u" if "PTE_ADDR u \<noteq> va" for u
        using that by (intro env_mem_kept [OF k 2(2) cp(2)]) metis
      with cp(1) w s'(1,3) False 2 show ?thesis by (simp add: sys_page_unmap_def)
    qed
  qed
qed

text \<open>Sixteen-bit reference counts with room for one more mapping.\<close>

definition refs_room :: "kstate \<Rightarrow> bool" where
  "refs_room s \<longleftrightarrow> (\<forall>i. unat (pp_ref (pages s i)) < 65535)"

text \<open>Finding a user page of an environment in use.\<close>

lemma env_lookup:
  assumes k: "kinv s" and e: "e \<in> in_use s" and v: "va < UTOP"
  obtains (absent) "page_lookup (env_pgdir (envs s e)) va s = Some None" "env_view e s va AND PTE_P = 0"
    | (present) pp where "page_lookup (env_pgdir (envs s e)) va s =
          Some (Some (pp, pte_ptr s (env_pgdir (envs s e)) va))"
        "ld s (pte_ptr s (env_pgdir (envs s e)) va) = env_view e s va" "env_view e s va AND PTE_P \<noteq> 0"
        "shared_data s (dirs s) pp" "page2pa pp = PTE_ADDR (env_view e s va)"
proof -
  let ?d = "env_pgdir (envs s e)"
  have d: "?d \<in> dirs s" and sp: "spaces_ok s (dirs s)" using kinvD(1,4) [OF k] e by auto
  then have pd: "pgdir_ok s ?d" by (simp add: spaces_ok_def)
  note t = user_slot(1) [OF v]
  note l = page_lookup_eq [OF pd t]
  have ev: "env_view e s va = pte_of s ?d va" using v by (simp add: env_view_def user_view_def)
  show thesis
  proof (cases "pte_of s ?d va AND PTE_P = 0")
    case True
    then show thesis using absent l ev by simp
  next
    case False
    then have sh: "shared_data s (dirs s) (pte_page (pte_of s ?d va))" using sp d v by (simp add: spaces_ok_def)
    then have "\<not> npages s \<le> PGNUM (pte_of s ?d va)" using d by (auto simp: shared_data_def data_page_iff word_le_nat_alt)
    moreover have "has_pt s ?d (PDX va)" using False pte_of_no_pt [OF t] by fastforce
    note ld_pte [OF this]
    ultimately show thesis using present [of "pte_page (pte_of s ?d va)"] False l ev sh by (simp add: page2pa_PGNUM)
  qed
qed

text \<open>Mapping a shared page into an environment in use.\<close>

lemma env_insert:
  assumes k: "kinv s" and e: "e \<in> in_use s" and v: "va < UTOP" and sh: "shared_data s (dirs s) pp"
    and room: "unat (pp_ref (pages s pp)) < 65535" and perm: "perm < 4096"
  shows "\<exists>r s'. page_insert (env_pgdir (envs s e)) pp va perm s = Some (r, s') \<and>
    (r = - E_NO_MEM \<and> s' = s \<and> \<not> has_pt s (env_pgdir (envs s e)) (PDX va) \<and> free_pages s = [] \<or>
     r = 0 \<and> call_post e 0 s s' \<and> vm_frame s s' \<and> insert_cost (env_pgdir (envs s e)) va pp s s' \<and>
       dirs_kept (env_pgdir (envs s e)) (dirs s) s s' \<and> data_kept (dirs s) s s' \<and>
       (\<forall>w < UTOP. env_view e s' w = (if PTE_ADDR w = PTE_ADDR va then page2pa pp OR perm OR PTE_P else env_view e s w)))"
proof -
  have d: "env_pgdir (envs s e) \<in> dirs s" using kinvD(4) [OF k e] .
  from kinvD(1) [OF k] d v sh room perm show ?thesis
  proof (cases rule: insert_local_change)
    case no_mem
    then show ?thesis by auto
  next
    case (inserted s')
    from call_post_change [OF k e inserted(4,2)] inserted user_slot(1)
      local_change_dirs [OF kinvD(1) [OF k] inserted(2) d inserted(6) v] show ?thesis
      by (intro exI [of _ 0] exI [of _ s'])
        (auto simp: env_view_def user_view_def vm_frame_fields(4) [OF inserted(4)])
  qed
qed

text \<open>A request to share a page that is all right: what it does, and when it fails nevertheless.\<close>

definition map_valid :: "nat \<Rightarrow> u32 \<Rightarrow> u32 \<Rightarrow> u32 \<Rightarrow> kstate \<Rightarrow> bool" where
  "map_valid src srcva dstva perm s \<longleftrightarrow> \<not> bad_va srcva \<and> \<not> bad_va dstva \<and> \<not> bad_perm perm \<and>
     env_view src s srcva AND PTE_P \<noteq> 0 \<and>
     (perm AND PTE_W \<noteq> 0 \<longrightarrow> env_view src s srcva AND PTE_W \<noteq> 0)"

definition map_done :: "nat \<Rightarrow> u32 \<Rightarrow> nat \<Rightarrow> u32 \<Rightarrow> u32 \<Rightarrow> kstate \<Rightarrow> kstate \<Rightarrow> bool" where
  "map_done src srcva dst dstva perm s s' \<longleftrightarrow>
     vm_frame s s' \<and> insert_cost (env_pgdir (envs s dst)) dstva (pte_page (env_view src s srcva)) s s' \<and>
     dirs_kept (env_pgdir (envs s dst)) (dirs s) s s' \<and> data_kept (dirs s) s s' \<and>
     (\<forall>v < UTOP. env_view dst s' v =
        (if PTE_ADDR v = dstva then PTE_ADDR (env_view src s srcva) OR perm else env_view dst s v))"

text \<open>The new address reads the bytes of the page shared, the rest of the space as before.\<close>

lemma map_done_mem:
  assumes k: "kinv s" and u: "src \<in> in_use s" "dst \<in> in_use s" and ok: "map_valid src srcva dstva perm s"
    and d: "map_done src srcva dst dstva perm s s'"
  shows "env_mem dst s' v = (if PTE_ADDR v = dstva then env_mem src s (srcva OR PGOFF v) else env_mem dst s v)"
proof (cases "PTE_ADDR v = dstva")
  case True
  have va: "PTE_ADDR srcva = srcva" "dstva < UTOP" and perm: "\<not> bad_perm perm" and p: "env_view src s srcva AND PTE_P \<noteq> 0"
    using ok by (auto simp: map_valid_def bad_va_def not_le)
  have "v < UTOP" using True va(2) page_below by metis
  with d True have w: "env_view dst s' v = PTE_ADDR (env_view src s srcva) OR perm" by (simp add: map_done_def)
  note pm = perm_bits [OF perm]
  have same: "env_view src s (srcva OR PGOFF v) = env_view src s srcva"
    using in_page [OF va(1)] va(1) by (intro env_view_page) simp
  have "(PTE_ADDR (env_view src s srcva) OR perm) AND PTE_P \<noteq> 0"
    using present_or [of "PTE_ADDR (env_view src s srcva) OR perm"] unfolding or.assoc pm(2) by simp
  moreover have "data_kept (dirs s) s s'" using d by (simp add: map_done_def)
  ultimately have "env_mem dst s' v = env_mem src s (srcva OR PGOFF v)"
    using p in_page [OF va(1), of v] pm(1)
    by (intro env_mem_alias [OF k u(1)]) (simp_all add: same w PTE_ADDR_or)
  with True show ?thesis by simp
next
  case False
  have "env_view dst s' v = env_view dst s v"
    using d False by (cases "v < UTOP") (simp_all add: map_done_def env_view_high)
  then have "env_mem dst s' v = env_mem dst s v"
    using d by (intro env_mem_kept [OF k u(2)]) (simp_all add: map_done_def)
  with False show ?thesis by simp
qed

lemma sys_page_map_valid:
  assumes k: "kinv s" and c: "curenv s = Some c"
    and src: "envid2env srcid True s = Some (Inr (Some src))" "src \<in> in_use s"
    and dst: "envid2env dstid True s = Some (Inr (Some dst))" "dst \<in> in_use s"
    and ok: "map_valid src srcva dstva perm s"
    and room: "unat (pp_ref (pages s (pte_page (env_view src s srcva)))) < 65535"
  shows "\<exists>r s'. sys_page_map srcid srcva dstid dstva perm s = Some (Returns r s') \<and>
    (r = - E_INVAL \<and> s' = s \<and> \<not> has_pt s (env_pgdir (envs s dst)) (PDX dstva) \<and> free_pages s = [] \<or>
     r = 0 \<and> call_post dst 0 s s' \<and> map_done src srcva dst dstva perm s s')"
proof -
  have v: "srcva < UTOP" "dstva < UTOP" "PTE_ADDR dstva = dstva" and b: "\<not> (bad_va srcva \<or> bad_va dstva)" "\<not> bad_perm perm"
    and present: "env_view src s srcva AND PTE_P \<noteq> 0"
    and w: "\<not> (env_view src s srcva AND PTE_W = 0 \<and> perm AND PTE_W \<noteq> 0)"
    using ok by (auto simp: map_valid_def bad_va_def not_le)
  note pm = perm_bits [OF b(2)]
  show ?thesis
  proof (cases rule: env_lookup [OF k src(2) v(1)])
    case 1
    with present show ?thesis by simp
  next
    case (2 pp)
    have lt: "pp < 1048576" using 2(4) kinvD(3,7) [OF k] by (force simp: shared_data_def data_page_def)
    have "PGNUM (env_view src s srcva) = of_nat pp" using 2(5) PGNUM_page2pa [OF lt] by (metis PGNUM_PTE_ADDR)
    then have pp: "pte_page (env_view src s srcva) = pp" using lt by (simp add: unat_of_nat)
    note def = sys_page_map_def [of srcid srcva dstid dstva perm s, unfolded src(1) dst(1)]
    from env_insert [OF k dst(2) v(2) 2(4) room [unfolded pp] pm(1)] obtain r s' where
      s': "page_insert (env_pgdir (envs s dst)) pp dstva perm s = Some (r, s')" and
      r: "r = - E_NO_MEM \<and> s' = s \<and> \<not> has_pt s (env_pgdir (envs s dst)) (PDX dstva) \<and> free_pages s = [] \<or>
        r = 0 \<and> call_post dst 0 s s' \<and> vm_frame s s' \<and> insert_cost (env_pgdir (envs s dst)) dstva pp s s' \<and>
          dirs_kept (env_pgdir (envs s dst)) (dirs s) s s' \<and> data_kept (dirs s) s s' \<and>
          (\<forall>w < UTOP. env_view dst s' w =
             (if PTE_ADDR w = PTE_ADDR dstva then page2pa pp OR perm OR PTE_P else env_view dst s w))"
      by metis
    from r show ?thesis
      using b w 2 k s' v pm(3) unfolding def map_done_def
      by (elim disjE conjE) (simp_all add: pp, blast)
  qed
qed

lemma sys_page_map_invalid:
  assumes k: "kinv s" and c: "curenv s = Some c"
    and src: "envid2env srcid True s = Some (Inr (Some src))" "src \<in> in_use s"
    and dst: "envid2env dstid True s = Some (Inr (Some dst))"
    and bad: "\<not> map_valid src srcva dstva perm s"
  shows "sys_page_map srcid srcva dstid dstva perm s = Some (Returns (- E_INVAL) s)"
proof -
  note def = sys_page_map_def [of srcid srcva dstid dstva perm s, unfolded src(1) dst]
  show ?thesis
  proof (cases "bad_va srcva \<or> bad_va dstva \<or> bad_perm perm")
    case True
    then show ?thesis unfolding def by auto
  next
    case ok: False
    then have v: "srcva < UTOP" by (auto simp: bad_va_def not_le)
    show ?thesis
    proof (cases rule: env_lookup [OF k src(2) v])
      case 1
      with ok show ?thesis unfolding def by simp
    next
      case (2 pp)
      with ok bad show ?thesis unfolding def by (auto simp: map_valid_def)
    qed
  qed
qed

lemma sys_page_map_ok:
  assumes k: "kinv s" and c: "curenv s = Some c" and room: "refs_room s"
  shows "\<exists>r s'. sys_page_map srcid srcva dstid dstva perm s = Some (Returns r s') \<and>
    call_post (target c dstid) r s s' \<and>
    (r = 0 \<longrightarrow> envid2env srcid True s = Some (Inr (Some (target c srcid))) \<and>
      envid2env dstid True s = Some (Inr (Some (target c dstid))) \<and>
      map_valid (target c srcid) srcva dstva perm s \<and>
      map_done (target c srcid) srcva (target c dstid) dstva perm s s')"
proof (cases rule: resolve [OF k c, of srcid True])
  case 1
  then show ?thesis using k by (simp add: sys_page_map_def)
next
  case src: 2
  show ?thesis
  proof (cases rule: resolve [OF k c, of dstid True])
    case 1
    then show ?thesis using src k by (simp add: sys_page_map_def)
  next
    case dst: 2
    show ?thesis
    proof (cases "map_valid (target c srcid) srcva dstva perm s")
      case True
      from sys_page_map_valid [OF k c src dst True] room k src dst True show ?thesis
        by (auto simp: refs_room_def)
    next
      case False
      from sys_page_map_invalid [OF k c src dst(1) False] k show ?thesis by simp
    qed
  qed
qed

section \<open>Environment calls\<close>

lemma free_envs_empty: "envs_ok s \<Longrightarrow> free_envs s = [] \<longleftrightarrow> env_free_list s = None"
  using envs_okD(1) [of s] by (cases "env_free_list s") (auto simp: chain_Some)

lemma env_alloc_kinv:
  assumes k: "kinv s" and fe: "free_envs s = e # es" and f: "free_pages s = p # ps"
  obtains s' where "env_alloc parent s = Some (Inr e, s')"
    "envs s' = (envs s)(e := new_env parent e (page2pa p + KERNBASE) (envs s e))"
    "kinv s'" "in_use s' = insert e (in_use s)" "e \<notin> in_use s" "curenv s' = curenv s"
    "\<And>v. v < UTOP \<Longrightarrow> env_view e s' v = 0" "\<And>e'. e' \<in> in_use s \<Longrightarrow> env_view e' s' = env_view e' s"
    "alloc_frame (dirs s) s s'"
proof -
  let ?d = "page2pa p + KERNBASE"
  note I = kinvD [OF k]
  from env_alloc_result [OF I(2) fe I(1,7) f I(3), of parent] obtain s' where
    s': "env_alloc parent s = Some (Inr e, s')" "envs s' = (envs s)(e := new_env parent e ?d (envs s e))"
    "envs_ok s'" "spaces_ok s' (insert ?d (dirs s))" "?d \<notin> dirs s" "\<forall>v < UTOP. pte_of s' ?d v = 0"
    "\<forall>c\<in>dirs s. user_view c s' = user_view c s" "curenv s' = curenv s" "kern_pgdir s' = kern_pgdir s"
    "npages s' = npages s" "alloc_frame (dirs s) s s'" by metis
  have e: "e < NENV" "env_status (envs s e) = ENV_FREE" using envs_okD(2,3) [OF I(2), of e] fe by simp_all
  then have ne: "e \<notin> in_use s" by (simp add: in_use_def)
  have u: "in_use s' = insert e (in_use s)" using e s'(2) by (auto simp: in_use_def new_env_def)
  have pg: "env_pgdir (envs s' i) = (if i = e then ?d else env_pgdir (envs s i))" for i
    by (simp add: s'(2) new_env_def)
  have d: "dirs s' = insert ?d (dirs s)" unfolding dirs_def u using ne by (auto simp: pg s'(9))
  have x: "ENVX (env_id (envs s' e)) = e"
    using envid_parts(1) [OF env_generation_low e(1)] by (simp add: s'(2) new_env_def)
  have old: "env_pgdir (envs s i) \<noteq> ?d" "env_pgdir (envs s i) \<noteq> kern_pgdir s" "i \<noteq> e" "ENVX (env_id (envs s' i)) = i"
    if "i \<in> in_use s" for i
  proof -
    show "env_pgdir (envs s i) \<noteq> ?d" using I(4) [OF that] s'(5) by metis
    show "env_pgdir (envs s i) \<noteq> kern_pgdir s" "i \<noteq> e" using I(10) [OF that] that ne by auto
    then show "ENVX (env_id (envs s' i)) = i" using I(5) [OF that] by (simp add: s'(2))
  qed
  have "inj_on (\<lambda>i. env_pgdir (envs s' i)) (in_use s')"
    unfolding u inj_on_def pg using I(9) old(1,3) by (metis insert_iff)
  moreover have "?d \<noteq> kern_pgdir s" using s'(5) I(7) by metis
  moreover have "c \<in> in_use s'" if "curenv s' = Some c" for c using I(6) that s'(8) u by simp
  ultimately have "kinv s'"
    unfolding kinv_def d using s'(3,4,9,10) I(3) u x old by (auto simp: pg)
  moreover have "env_view e s' v = 0" if "v < UTOP" for v
    using s'(6) that pg by (simp add: env_view_def user_view_def)
  moreover have "env_view e' s' = env_view e' s" if "e' \<in> in_use s" for e'
    using s'(7) I(4) [OF that] old(3) [OF that] pg by (simp add: env_view_def)
  ultimately show thesis using that [OF s'(1,2)] u ne s'(8,11) by blast
qed

text \<open>A child with nothing in its address space.\<close>

definition child_made :: "nat \<Rightarrow> nat \<Rightarrow> kstate \<Rightarrow> kstate \<Rightarrow> bool" where
  "child_made c e s s' \<longleftrightarrow>
     kinv s' \<and> e \<notin> in_use s \<and> in_use s' = insert e (in_use s) \<and> curenv s' = curenv s \<and> cpu_kept s s' \<and>
     0 < sint (env_id (envs s' e)) \<and> env_id (envs s' e) \<noteq> env_id (envs s e) \<and>
     env_parent_id (envs s' e) = env_id (envs s c) \<and> env_status (envs s' e) = ENV_NOT_RUNNABLE \<and>
     env_tf (envs s' e) = (env_tf (envs s c))\<lparr>tf_regs := (tf_regs (env_tf (envs s c)))\<lparr>reg_eax := 0\<rparr>\<rparr> \<and>
     (\<forall>v < UTOP. env_view e s' v = 0) \<and>
     (\<forall>e'\<in>in_use s. env_view e' s' = env_view e' s \<and> env_mem e' s' = env_mem e' s \<and> envs s' e' = envs s e')"

lemma sys_exofork_child:
  assumes k: "kinv s" and c: "curenv s = Some c" and 3: "free_envs s = e # es" "free_pages s = p # ps"
  shows "\<exists>s'. sys_exofork s = Some (Returns (env_id (envs s' e)) s') \<and> child_made c e s s' \<and> alloc_frame (dirs s) s s'"
proof -
  note I = kinvD [OF k]
  from env_alloc_kinv [OF k 3, of "env_id (envs s c)"] obtain s1 where
    s1: "env_alloc (env_id (envs s c)) s = Some (Inr e, s1)"
    "envs s1 = (envs s)(e := new_env (env_id (envs s c)) e (page2pa p + KERNBASE) (envs s e))"
    "kinv s1" "in_use s1 = insert e (in_use s)" "e \<notin> in_use s" "curenv s1 = curenv s"
    "\<And>v. v < UTOP \<Longrightarrow> env_view e s1 v = 0" "\<And>e'. e' \<in> in_use s \<Longrightarrow> env_view e' s1 = env_view e' s"
    "alloc_frame (dirs s) s s1"
    by metis
  have mem: "env_mem e' s1 = env_mem e' s" if "e' \<in> in_use s" for e'
    using env_mem_kept [OF k that] s1(8) [OF that] s1(9) by (simp add: alloc_frame_def fun_eq_iff)
  have ne: "c \<noteq> e" using I(6) [OF c] s1(5) by auto
  have e: "e < NENV" using envs_okD(2) [OF I(2), of e] 3 by simp
  define g where "g v = v\<lparr>env_status := ENV_NOT_RUNNABLE,
      env_tf := (env_tf (envs s c))\<lparr>tf_regs := (tf_regs (env_tf (envs s c)))\<lparr>reg_eax := 0\<rparr>\<rparr>\<rparr>" for v :: Env
  define s' where "s' = upd_env e g s1"
  note up = kinv_upd_env [OF s1(3), of e g, folded s'_def]
  have up': "kinv s'" "in_use s' = in_use s1" "\<And>d. user_view d s' = user_view d s1"
    using up s1(4) by (auto simp: g_def)
  have ev: "envs s' = (envs s1)(e := g (envs s1 e))" "curenv s' = curenv s1"
    by (simp_all add: s'_def upd_env_def curenv_def)
  have vw: "env_view i s' = env_view i s1" for i using up'(3) ev by (simp add: env_view_def g_def)
  have mw: "env_mem i s' = env_mem i s1" for i by (rule env_mem_cong [OF _ vw]) (simp add: s'_def upd_env_def)
  have "sys_exofork s = Some (Returns (env_id (envs s' e)) s')"
    using c s1(1,2) ne by (simp add: sys_exofork_def Let_def s'_def g_def [abs_def] upd_env_def)
  moreover have "0 < sint (env_id (envs s' e))" "env_id (envs s' e) \<noteq> env_id (envs s e)"
    using envid_positive [OF env_generation_pos env_generation_low e] env_generation_fresh [OF e]
    by (simp_all add: ev g_def s1(2) new_env_def)
  moreover have "envs s' e' = envs s e'" if "e' \<in> in_use s" for e'
    using that s1(5) by (auto simp: ev s1(2))
  moreover have "alloc_frame (dirs s) s s'"
    using s1(9) by (simp add: alloc_frame_def s'_def upd_env_def free_pages_def pde_of_def data_kept_def cpu_kept_def)
  moreover from this have "cpu_kept s s'" by (simp add: alloc_frame_def)
  ultimately show ?thesis
    using up'(1,2) s1(4-8) vw mw mem ev(2) unfolding child_made_def
    by (intro exI [of _ s']) (simp add: ev g_def s1(2) new_env_def)
qed

lemma sys_exofork_ok:
  assumes k: "kinv s" and c: "curenv s = Some c"
  shows "sys_exofork s = Some (Returns (- E_NO_FREE_ENV) s) \<and> free_envs s = [] \<or>
    sys_exofork s = Some (Returns (- E_NO_MEM) s) \<and> free_envs s \<noteq> [] \<and> free_pages s = [] \<or>
    (\<exists>e s'. sys_exofork s = Some (Returns (env_id (envs s' e)) s') \<and> child_made c e s s')"
proof -
  note I = kinvD [OF k]
  have ok: "pages_ok s" using I(1) by (simp add: spaces_ok_def)
  consider "free_envs s = []" | e es where "free_envs s = e # es" "free_pages s = []"
    | e es p ps where "free_envs s = e # es" "free_pages s = p # ps"
    by (metis list.exhaust)
  then show ?thesis
  proof cases
    case 1
    then show ?thesis using c env_alloc_fails(1) [OF ok] free_envs_empty [OF I(2)] by (simp add: sys_exofork_def)
  next
    case (2 e es)
    then have "env_free_list s = Some e" using envs_okD(1) [OF I(2)] by simp
    then show ?thesis using c 2 env_alloc_fails(2) [OF ok _ 2(2)] by (simp add: sys_exofork_def)
  next
    case (3 e es p ps)
    from sys_exofork_child [OF k c 3] show ?thesis by blast
  qed
qed

lemma sys_env_set_status_ok:
  assumes k: "kinv s" and c: "curenv s = Some c"
  shows "\<exists>r s'. sys_env_set_status envid status s = Some (Returns r s') \<and> call_post (target c envid) (- E_INVAL) s s' \<and>
    (r \<noteq> 0 \<longrightarrow> s' = s) \<and> (r = 0 \<longrightarrow> envid2env envid True s = Some (Inr (Some (target c envid))) \<and>
      status \<in> {ENV_RUNNABLE, ENV_NOT_RUNNABLE} \<and> s' = upd_env (target c envid) (\<lambda>v. v\<lparr>env_status := status\<rparr>) s)"
proof (cases "status \<noteq> ENV_RUNNABLE \<and> status \<noteq> ENV_NOT_RUNNABLE")
  case True
  then show ?thesis using k by (simp add: sys_env_set_status_def)
next
  case st: False
  show ?thesis
  proof (cases rule: resolve [OF k c, of envid True])
    case 1
    then show ?thesis using st k by (simp add: sys_env_set_status_def)
  next
    case 2
    let ?f = "\<lambda>v. v\<lparr>env_status := status\<rparr>"
    have "call_post (target c envid) (- E_INVAL) s (upd_env (target c envid) ?f s)"
      by (rule call_post_upd_env [OF k 2(2)]) (use st in auto)
    with st 2 show ?thesis by (auto simp: sys_env_set_status_def)
  qed
qed

section \<open>Messages\<close>

text \<open>The receiver after a delivery.\<close>

definition delivered :: "nat \<Rightarrow> nat \<Rightarrow> u32 \<Rightarrow> kstate \<Rightarrow> kstate \<Rightarrow> bool" where
  "delivered c e msg s s' \<longleftrightarrow>
     (let v = envs s' e in
      \<not> env_ipc_recving v \<and> env_ipc_from v = env_id (envs s c) \<and> env_ipc_value v = msg \<and>
      env_status v = ENV_RUNNABLE \<and> reg_eax (tf_regs (env_tf v)) = 0) \<and>
     (\<forall>i. i \<noteq> e \<longrightarrow> envs s' i = envs s i)"

text \<open>The page part of a send: what is mapped where.\<close>

definition page_sent :: "nat \<Rightarrow> nat \<Rightarrow> u32 \<Rightarrow> u32 \<Rightarrow> kstate \<Rightarrow> kstate \<Rightarrow> bool" where
  "page_sent c e srcva perm s s' \<longleftrightarrow>
     (if srcva < UTOP \<and> env_ipc_dstva (envs s e) < UTOP
      then env_ipc_perm (envs s' e) = perm \<and> PGOFF srcva = 0 \<and>
        (perm AND PTE_W \<noteq> 0 \<longrightarrow> env_view c s srcva AND PTE_W \<noteq> 0) \<and>
        (\<forall>v < UTOP. env_view e s' v = (if PTE_ADDR v = PTE_ADDR (env_ipc_dstva (envs s e))
           then PTE_ADDR (env_view c s srcva) OR perm OR PTE_P else env_view e s v))
      else env_ipc_perm (envs s' e) = env_ipc_perm (envs s e) \<and> env_view e s' = env_view e s)"

lemma ipc_deliver_ok:
  assumes k: "kinv s" and e: "e \<in> in_use s"
  shows "call_post e r s (ipc_deliver e c msg s)" and "delivered c e msg s (ipc_deliver e c msg s)"
    and "env_view i (ipc_deliver e c msg s) = env_view i s"
    and "env_ipc_perm (envs (ipc_deliver e c msg s) e) = env_ipc_perm (envs s e)"
proof -
  let ?f = "\<lambda>v. v\<lparr>env_ipc_recving := False, env_ipc_from := env_id (envs s c),
       env_ipc_value := msg, env_status := ENV_RUNNABLE,
       env_tf := (env_tf v)\<lparr>tf_regs := (tf_regs (env_tf v))\<lparr>reg_eax := 0\<rparr>\<rparr>\<rparr>"
  have d: "ipc_deliver e c msg s = upd_env e ?f s" by (simp add: ipc_deliver_def)
  note u = call_post_upd_env [OF k e, of ?f, folded d]
  show "env_view i (ipc_deliver e c msg s) = env_view i s" "call_post e r s (ipc_deliver e c msg s)"
    by (rule u; simp)+
  show "delivered c e msg s (ipc_deliver e c msg s)"
    "env_ipc_perm (envs (ipc_deliver e c msg s) e) = env_ipc_perm (envs s e)"
    by (simp_all add: delivered_def d upd_env_def)
qed

text \<open>
  \<^verbatim>\<open>sys_ipc_try_send\<close> looks at the entry of the page offered before it knows that there is one. This
  does not fault for an aligned address only if the page is mapped or the uninitialised pointer happens
  to be one that can be read.
\<close>

definition offer_readable :: "u32 \<Rightarrow> nat \<Rightarrow> u32 \<Rightarrow> kstate \<Rightarrow> bool" where
  "offer_readable junk c srcva s \<longleftrightarrow>
     PGOFF srcva \<noteq> 0 \<or> env_view c s srcva AND PTE_P \<noteq> 0 \<or> vld32 junk s \<noteq> None"

lemma aligned_iff: "srcva = ROUNDDOWN srcva PGSIZE \<longleftrightarrow> PGOFF srcva = 0"
  by (metis ROUNDDOWN_page PGOFF_PTE_ADDR PTE_ADDR_aligned)

lemma ipc_send_page_absent:
  assumes "page_lookup (env_pgdir (envs s c)) srcva s = Some None" and "env_view c s srcva AND PTE_P = 0"
    and "offer_readable junk c srcva s"
  shows "ipc_send_page junk c e srcva perm s = Some (- E_INVAL, s)"
  using assms by (auto simp: ipc_send_page_def offer_readable_def aligned_iff)

lemma ipc_send_page_ok:
  assumes k: "kinv s" and c: "c \<in> in_use s" and e: "e \<in> in_use s" and room: "refs_room s" and perm: "perm < 4096"
    and src: "srcva < UTOP" "offer_readable junk c srcva s"
  shows "\<exists>r s'. ipc_send_page junk c e srcva perm s = Some (r, s') \<and> call_post e r s s' \<and>
    (r \<noteq> 0 \<longrightarrow> s' = s) \<and>
    (r = 0 \<longrightarrow> page_sent c e srcva perm s s' \<and> (\<forall>i. env_id (envs s' i) = env_id (envs s i)) \<and>
      (\<forall>i. i \<noteq> e \<longrightarrow> envs s' i = envs s i))"
proof (cases rule: env_lookup [OF k c src(1)])
  case 1
  from ipc_send_page_absent [OF 1 src(2)] k show ?thesis by simp
next
  case (2 pp)
  let ?w = "env_view c s srcva"
  note def = ipc_send_page_def [of junk c e srcva perm s, unfolded 2(1)]
  show ?thesis
  proof (cases "srcva \<noteq> ROUNDDOWN srcva PGSIZE \<or> ?w AND perm AND PTE_SYSCALL \<noteq> perm AND PTE_SYSCALL \<or>
      perm AND PTE_W \<noteq> 0 \<and> ?w AND PTE_W = 0")
    case True
    then show ?thesis using 2(2) k unfolding def by auto
  next
    case False
    then have ok: "srcva = ROUNDDOWN srcva PGSIZE" "?w AND perm AND PTE_SYSCALL = perm AND PTE_SYSCALL"
      "\<not> (perm AND PTE_W \<noteq> 0 \<and> ?w AND PTE_W = 0)" by blast+
    from ok(1) have al: "PGOFF srcva = 0" by (simp add: aligned_iff)
    show ?thesis
    proof (cases "env_ipc_dstva (envs s e) < UTOP")
      case nodst: False
      then show ?thesis using ok 2(2) k unfolding def by (auto simp: page_sent_def)
    next
      case True
      have "unat (pp_ref (pages s pp)) < 65535" using room by (simp add: refs_room_def)
      from env_insert [OF k e True 2(4) this perm] obtain r s1 where
        s1: "page_insert (env_pgdir (envs s e)) pp (env_ipc_dstva (envs s e)) perm s = Some (r, s1)" and
        r: "r = - E_NO_MEM \<and> s1 = s \<or> r = 0 \<and> call_post e 0 s s1 \<and> vm_frame s s1 \<and>
          (\<forall>w < UTOP. env_view e s1 w = (if PTE_ADDR w = PTE_ADDR (env_ipc_dstva (envs s e))
             then page2pa pp OR perm OR PTE_P else env_view e s w))" by metis
      from r show ?thesis
      proof (elim disjE conjE)
        assume "r = - E_NO_MEM" "s1 = s"
        then show ?thesis using ok 2(2) True s1 k unfolding def by auto
      next
        assume r: "r = 0" and cp: "call_post e 0 s s1" and fr: "vm_frame s s1"
          and vw: "\<forall>w < UTOP. env_view e s1 w = (if PTE_ADDR w = PTE_ADDR (env_ipc_dstva (envs s e))
             then page2pa pp OR perm OR PTE_P else env_view e s w)"
        define s' where "s' = upd_env e (\<lambda>v. v\<lparr>env_ipc_perm := perm\<rparr>) s1"
        have k1: "kinv s1" "e \<in> in_use s1" "envs s1 = envs s"
          using cp e vm_frame_fields(4) [OF fr] by (auto simp: call_post_def)
        have st: "env_status (envs s1 e) \<noteq> ENV_FREE" using k1(2) by (simp add: in_use_def)
        note u = call_post_upd_env [OF k1(1,2), of "\<lambda>v. v\<lparr>env_ipc_perm := perm\<rparr>", folded s'_def]
        have ev: "envs s' = (envs s)(e := (envs s e)\<lparr>env_ipc_perm := perm\<rparr>)"
          by (simp add: s'_def upd_env_def k1)
        have v': "env_view i s' = env_view i s1" for i by (rule u) (use st in simp_all)
        have "call_post e 0 s1 s'" by (rule u) (use st in simp_all)
        then have "call_post e 0 s s'" using call_post_trans [OF cp] by simp
        moreover have "ipc_send_page junk c e srcva perm s = Some (0, s')"
          using ok 2(2) True s1 r unfolding def by (auto simp: s'_def)
        moreover have "page_sent c e srcva perm s s'"
          using True src(1) al ok vw 2(5) v' by (auto simp: page_sent_def ev)
        ultimately show ?thesis using ev by auto
      qed
    qed
  qed
qed

lemma sys_ipc_try_send_ok:
  assumes k: "kinv s" and c: "curenv s = Some c"
    and src: "srcva < UTOP \<longrightarrow> refs_room s \<and> perm < 4096 \<and> offer_readable junk c srcva s"
  shows "\<exists>r s'. sys_ipc_try_send junk envid msg srcva perm s = Some (Returns r s') \<and>
    call_post (target c envid) r s s' \<and> (r \<noteq> 0 \<longrightarrow> s' = s) \<and>
    (r = 0 \<longrightarrow> target c envid \<in> in_use s \<and> env_ipc_recving (envs s (target c envid)) \<and>
      delivered c (target c envid) msg s s' \<and> page_sent c (target c envid) srcva perm s s')"
proof (cases rule: resolve [OF k c, of envid False])
  case 1
  then show ?thesis using k by (simp add: sys_ipc_try_send_def)
next
  case 2
  let ?e = "target c envid"
  note def = sys_ipc_try_send_def [of junk envid msg srcva perm s, unfolded 2(1)]
  have cu: "c \<in> in_use s" using kinvD(6) [OF k c] .
  show ?thesis
  proof (cases "env_ipc_recving (envs s ?e)")
    case False
    then show ?thesis using k unfolding def by simp
  next
    case True
    show ?thesis
    proof (cases "srcva < UTOP")
      case False
      note D = ipc_deliver_ok [OF k 2(2), where c = c and msg = msg]
      have "page_sent c ?e srcva perm s (ipc_deliver ?e c msg s)" using False D(3,4) by (simp add: page_sent_def)
      with True False c 2(2) D(1,2) show ?thesis unfolding def by simp
    next
      case lt: True
      with src have offer: "refs_room s" "perm < 4096" "offer_readable junk c srcva s" by simp_all
      from ipc_send_page_ok [OF k cu 2(2) offer(1,2) lt offer(3)] obtain r s1 where
        s1: "ipc_send_page junk c ?e srcva perm s = Some (r, s1)" "call_post ?e r s s1" "r \<noteq> 0 \<longrightarrow> s1 = s"
        "r = 0 \<longrightarrow> page_sent c ?e srcva perm s s1 \<and> (\<forall>i. env_id (envs s1 i) = env_id (envs s i)) \<and>
          (\<forall>i. i \<noteq> ?e \<longrightarrow> envs s1 i = envs s i)" by metis
      show ?thesis
      proof (cases "r = 0")
        case False
        then show ?thesis using True lt c s1 k unfolding def by simp
      next
        case r: True
        have k1: "kinv s1" "?e \<in> in_use s1" using s1(2) 2(2) by (auto simp: call_post_def)
        note D = ipc_deliver_ok [OF k1, where c = c and msg = msg]
        have "call_post ?e 0 s (ipc_deliver ?e c msg s1)" using call_post_trans [OF s1(2) D(1) [where r = 0]] r by simp
        moreover have "delivered c ?e msg s (ipc_deliver ?e c msg s1)"
          using D(2) s1(4) r by (auto simp: delivered_def Let_def)
        moreover have "page_sent c ?e srcva perm s (ipc_deliver ?e c msg s1)"
          using D(3,4) s1(4) r by (simp add: page_sent_def)
        ultimately show ?thesis using True lt c s1(1) r 2(2) unfolding def by simp
      qed
    qed
  qed
qed

section \<open>Sequences of system calls\<close>

lemma sys_env_set_pgfault_upcall_ok:
  assumes k: "kinv s" and c: "curenv s = Some c"
  shows "\<exists>r s'. sys_env_set_pgfault_upcall envid func s = Some (Returns r s') \<and> call_post (target c envid) (- E_INVAL) s s'"
proof (cases rule: resolve [OF k c, of envid True])
  case 1
  then show ?thesis using k by (simp add: sys_env_set_pgfault_upcall_def)
next
  case 2
  let ?f = "\<lambda>v. v\<lparr>env_pgfault_upcall := func\<rparr>"
  have "env_status (envs s (target c envid)) \<noteq> ENV_FREE" using 2(2) by (simp add: in_use_def)
  then have "call_post (target c envid) (- E_INVAL) s (upd_env (target c envid) ?f s)"
    by (intro call_post_upd_env [OF k 2(2)]) simp_all
  with 2 show ?thesis by (auto simp: sys_env_set_pgfault_upcall_def)
qed

text \<open>A request: the call number and its five arguments.\<close>

type_synonym request = "u32 \<times> u32 \<times> u32 \<times> u32 \<times> u32 \<times> u32"

fun sys_step :: "u32 \<Rightarrow> request \<Rightarrow> kstate \<Rightarrow> kstate option" where
  "sys_step junk (n, a1, a2, a3, a4, a5) s =
     (case syscall junk n a1 a2 a3 a4 a5 s of Some (Returns _ s') \<Rightarrow> Some s' | _ \<Rightarrow> None)"

fun sys_target :: "nat \<Rightarrow> request \<Rightarrow> nat" where
  "sys_target c (n, a1, a2, a3, a4, a5) = (if n = SYS_page_map then target c a3 else target c a1)"

text \<open>
  The calls the sequence may make. Left out are those that block (\<^verbatim>\<open>sys_yield\<close>, \<^verbatim>\<open>sys_ipc_recv\<close>) or
  may destroy an environment (\<^verbatim>\<open>sys_env_destroy\<close>, and \<^verbatim>\<open>sys_cputs\<close>, which destroys its caller for a
  bad range and reads a byte behind the range). Where a page is shared or sent, no sixteen-bit
  reference count may be at its limit, which the code does not check; with a page to send,
  the permission word must lie in the low twelve bits and the entry of the page be readable.
\<close>

fun sys_admissible :: "u32 \<Rightarrow> nat \<Rightarrow> request \<Rightarrow> kstate \<Rightarrow> bool" where
  "sys_admissible junk c (n, a1, a2, a3, a4, a5) s \<longleftrightarrow>
     n \<notin> {SYS_cputs, SYS_env_destroy, SYS_yield, SYS_ipc_recv} \<and>
     (n = SYS_page_map \<longrightarrow> refs_room s) \<and>
     (n = SYS_ipc_try_send \<and> a3 < UTOP \<longrightarrow> refs_room s \<and> a4 < 4096 \<and> offer_readable junk c a3 s)"

lemma call_post_console:
  assumes "kinv s"
  shows "call_post e r s (s\<lparr>cons := con\<rparr>)"
proof -
  let ?s = "s\<lparr>cons := con\<rparr>"
  have c: "npages ?s = npages s" "pages ?s = pages s" "page_free_list ?s = page_free_list s" "phys ?s = phys s"
    "kern_pgdir ?s = kern_pgdir s" "envs ?s = envs s" "env_free_list ?s = env_free_list s" "curenv ?s = curenv s"
    by (simp_all add: curenv_def)
  have d: "dirs ?s = dirs s" "in_use ?s = in_use s" by (simp_all add: dirs_def in_use_def)
  have v: "env_view i ?s = env_view i s" for i using spaces_cong(2) [OF c(1-4)] by (simp add: env_view_def)
  have "env_mem i ?s = env_mem i s" for i by (rule env_mem_cong [OF c(4) v])
  moreover have "kinv ?s"
    using assms unfolding kinv_def d
    by (simp add: c spaces_cong [OF c(1-4)] envs_ok_cong [OF c(6,7)])
  moreover have "cpu_kept s ?s" by (simp add: cpu_kept_def)
  ultimately show ?thesis by (simp add: call_post_def v d c)
qed

lemma sys_cgetc_ok: "kinv s \<Longrightarrow> \<exists>r s'. sys_cgetc s = Some (Returns r s') \<and> call_post e 0 s s'"
proof -
  assume k: "kinv s"
  obtain con1 con2 where "serial_intr (cons s) = Some con1" "kbd_intr con1 = Some con2"
    using serial_intr_ends kbd_intr_ends by metis
  then have "\<exists>r. cons_getc (cons s) = Some r" by (simp add: cons_getc_def Let_def)
  then obtain r where "cons_getc (cons s) = Some r" ..
  then show ?thesis using call_post_console [OF k] by (cases r) (auto simp: sys_cgetc_def)
qed

definition sys_inv :: "nat \<Rightarrow> nat set \<Rightarrow> kstate \<Rightarrow> bool" where
  "sys_inv c K s \<longleftrightarrow> kinv s \<and> curenv s = Some c \<and> K \<subseteq> in_use s"

lemma sys_step_post:
  assumes k: "kinv s" and c: "curenv s = Some c" and adm: "sys_admissible junk c x s"
  shows "\<exists>r s'. sys_step junk x s = Some s' \<and> call_post (sys_target c x) r s s'"
proof -
  obtain n a1 a2 a3 a4 a5 where x: "x = (n, a1, a2, a3, a4, a5)" by (cases x)
  consider "n = SYS_getenvid" | "n = SYS_exofork" | "n = SYS_env_set_status" | "n = SYS_page_alloc"
    | "n = SYS_page_map" "refs_room s" | "n = SYS_page_unmap" | "n = SYS_env_set_pgfault_upcall"
    | "n = SYS_ipc_try_send" "a3 < UTOP \<longrightarrow> refs_room s \<and> a4 < 4096 \<and> offer_readable junk c a3 s"
    | "n = SYS_cgetc"
    | "n \<notin> {0,1,2,3,4,5,6,7,8,9,10,11,12}" using adm unfolding x by auto
  then show ?thesis
  proof cases
    case 1
    with c k show ?thesis by (auto simp: x syscall_def sys_getenvid_def)
  next
    case 2
    from sys_exofork_ok [OF k c] show ?thesis
    proof (elim disjE exE conjE)
      fix e s'
      assume "sys_exofork s = Some (Returns (env_id (envs s' e)) s')" "child_made c e s s'"
      with 2 show ?thesis
        by (intro exI [of _ 0] exI [of _ s']) (auto simp: x syscall_def call_post_def child_made_def)
    qed (use 2 k in \<open>auto simp: x syscall_def\<close>)
  next
    case 3
    with sys_env_set_status_ok [OF k c, of a1 a2] show ?thesis by (auto simp: x syscall_def)
  next
    case 4
    with sys_page_alloc_ok [OF k c, of a1 a2 a3] show ?thesis by (auto simp: x syscall_def)
  next
    case 5
    with sys_page_map_ok [OF k c 5(2), of a1 a2 a3 a4 a5] show ?thesis by (auto simp: x syscall_def)
  next
    case 6
    with sys_page_unmap_ok [OF k c, of a1 a2] show ?thesis by (auto simp: x syscall_def)
  next
    case 7
    with sys_env_set_pgfault_upcall_ok [OF k c, of a1 a2] show ?thesis by (auto simp: x syscall_def)
  next
    case 8
    with sys_ipc_try_send_ok [OF k c 8(2), of a1 a2] show ?thesis by (auto simp: x syscall_def)
  next
    case 9
    with sys_cgetc_ok [OF k, of "target c a1"] show ?thesis by (auto simp: x syscall_def)
  next
    case 10
    then have "syscall junk n a1 a2 a3 a4 a5 s = Some (Returns (- E_INVAL) s)" unfolding syscall_def by simp
    with k show ?thesis by (auto simp: x)
  qed
qed

lemma sys_step_ok:
  assumes "sys_inv c K s" and "sys_admissible junk c x s"
  shows "\<exists>s'. sys_step junk x s = Some s' \<and> sys_inv c K s' \<and>
    (\<forall>e\<in>K. e \<noteq> sys_target c x \<longrightarrow> env_space e s' = env_space e s)"
proof -
  have k: "kinv s" "curenv s = Some c" "K \<subseteq> in_use s" using assms(1) by (simp_all add: sys_inv_def)
  from sys_step_post [OF k(1,2) assms(2)] obtain r s' where
    "sys_step junk x s = Some s'" "call_post (sys_target c x) r s s'" by blast
  with k show ?thesis by (intro exI [of _ s']) (auto simp: call_post_def sys_inv_def env_space_def)
qed

interpretation sys_calls: isolated_ops "sys_inv c K" "sys_admissible junk c" "sys_step junk" "sys_target c" K env_space
  for c :: nat and K :: "nat set" and junk :: u32
  by unfold_locales (rule sys_step_ok)

end
