(* ===== verification/Userlib.thy ===== *)
theory Userlib
  imports Trap
begin

text \<open>
  The library of user programs: system call stubs (\<^verbatim>\<open>lib/syscall.c\<close>), start-up and exit
  (\<^verbatim>\<open>lib/libmain.c\<close>, \<^verbatim>\<open>lib/exit.c\<close>), panic, console, page fault handler (\<^verbatim>\<open>lib/pgfault.c\<close>),
  copy-on-write \<^verbatim>\<open>fork\<close> (\<^verbatim>\<open>lib/fork.c\<close>) and message passing (\<^verbatim>\<open>lib/ipc.c\<close>).

  The code runs in the current environment; its state is the kernel's, whose memory it sees
  through the page tables, and its own globals \<open>ulib\<close>. A stub is the system call it asks for: what
  \<^verbatim>\<open>trap\<close> adds on the way in and out (saving the frame, taking and releasing the lock) cancels out.
  A call that leaves the kernel elsewhere does not come back here; where the code goes on after it
  was scheduled again, the states it is resumed in are an argument. A user panic is a breakpoint
  trap, which ends in the kernel's monitor; the message it prints before is left out. A memory access that faults is \<^term>\<open>None\<close>.
\<close>

section \<open>Stubs\<close>

definition upanic :: "kstate \<Rightarrow> 'a kout option" where
  "upanic s = Some (Leaves InMonitor s)"

definition stub :: "u32 \<Rightarrow> u32 \<Rightarrow> bool \<Rightarrow> u32 \<Rightarrow> u32 \<Rightarrow> u32 \<Rightarrow> u32 \<Rightarrow> u32 \<Rightarrow> kstate \<Rightarrow> u32 kout option" where
  "stub junk num check a1 a2 a3 a4 a5 s =
     kbind (syscall junk num a1 a2 a3 a4 a5 s) (\<lambda>ret s.
       if check \<and> sint ret > 0 then upanic s else Some (Returns ret s))"

definition usys_cputs :: "u32 \<Rightarrow> u32 \<Rightarrow> kstate \<Rightarrow> u32 kout option" where
  "usys_cputs str len = stub 0 SYS_cputs False str len 0 0 0"

definition usys_cgetc :: "kstate \<Rightarrow> u32 kout option" where
  "usys_cgetc = stub 0 SYS_cgetc False 0 0 0 0 0"

definition usys_env_destroy :: "u32 \<Rightarrow> kstate \<Rightarrow> u32 kout option" where
  "usys_env_destroy envid = stub 0 SYS_env_destroy True envid 0 0 0 0"

definition usys_getenvid :: "kstate \<Rightarrow> u32 kout option" where
  "usys_getenvid = stub 0 SYS_getenvid False 0 0 0 0 0"

definition usys_yield :: "kstate \<Rightarrow> u32 kout option" where
  "usys_yield = stub 0 SYS_yield False 0 0 0 0 0"

definition usys_page_alloc :: "u32 \<Rightarrow> u32 \<Rightarrow> u32 \<Rightarrow> kstate \<Rightarrow> u32 kout option" where
  "usys_page_alloc envid va perm = stub 0 SYS_page_alloc True envid va perm 0 0"

definition usys_page_map :: "u32 \<Rightarrow> u32 \<Rightarrow> u32 \<Rightarrow> u32 \<Rightarrow> u32 \<Rightarrow> kstate \<Rightarrow> u32 kout option" where
  "usys_page_map srcenv srcva dstenv dstva perm = stub 0 SYS_page_map True srcenv srcva dstenv dstva perm"

definition usys_page_unmap :: "u32 \<Rightarrow> u32 \<Rightarrow> kstate \<Rightarrow> u32 kout option" where
  "usys_page_unmap envid va = stub 0 SYS_page_unmap True envid va 0 0 0"

definition usys_exofork :: "kstate \<Rightarrow> u32 kout option" where
  "usys_exofork = stub 0 SYS_exofork False 0 0 0 0 0"

definition usys_env_set_status :: "u32 \<Rightarrow> u32 \<Rightarrow> kstate \<Rightarrow> u32 kout option" where
  "usys_env_set_status envid status = stub 0 SYS_env_set_status True envid status 0 0 0"

definition usys_env_set_pgfault_upcall :: "u32 \<Rightarrow> u32 \<Rightarrow> kstate \<Rightarrow> u32 kout option" where
  "usys_env_set_pgfault_upcall envid upcall = stub 0 SYS_env_set_pgfault_upcall True envid upcall 0 0 0"

definition usys_ipc_try_send :: "u32 \<Rightarrow> u32 \<Rightarrow> u32 \<Rightarrow> u32 \<Rightarrow> u32 \<Rightarrow> kstate \<Rightarrow> u32 kout option" where
  "usys_ipc_try_send junk envid msg srcva perm = stub junk SYS_ipc_try_send False envid msg srcva perm 0"

definition usys_ipc_recv :: "u32 \<Rightarrow> kstate \<Rightarrow> u32 kout option" where
  "usys_ipc_recv dstva = stub 0 SYS_ipc_recv True dstva 0 0 0 0"

section \<open>Start-up, exit and console\<close>

text \<open>The globals of the library: \<^verbatim>\<open>thisenv\<close> as an index into \<^verbatim>\<open>envs\<close>, and the fault handler.\<close>

record ulib =
  thisenv :: nat
  pgfault_handler :: u32

definition exit :: "kstate \<Rightarrow> u32 kout option" where
  "exit = usys_env_destroy 0"

text \<open>\<open>umain\<close> is the program.\<close>

definition libmain :: "(ulib \<Rightarrow> kstate \<Rightarrow> ulib kout option) \<Rightarrow> ulib \<Rightarrow> kstate \<Rightarrow> u32 kout option" where
  "libmain umain u s =
     kbind (usys_getenvid s) (\<lambda>envid s.
     kbind (umain (u\<lparr>thisenv := ENVX envid\<rparr>) s) (\<lambda>_ s. exit s))"

text \<open>\<^verbatim>\<open>cputchar\<close> passes the address of a byte on its stack; \<open>c_addr\<close> is that address.\<close>

definition ucputchar :: "u32 \<Rightarrow> u32 \<Rightarrow> kstate \<Rightarrow> u32 kout option" where
  "ucputchar c_addr ch s = do { s \<leftarrow> vst8 c_addr (ucast ch) s; usys_cputs c_addr 1 s }"

text \<open>\<^verbatim>\<open>getchar\<close> yields until a character is there; it goes on in the states it is resumed in.\<close>

fun ugetchar :: "kstate list \<Rightarrow> kstate \<Rightarrow> u32 kout option" where
  "ugetchar resumed s =
     kbind (usys_cgetc s) (\<lambda>r s.
       if r \<noteq> 0 then Some (Returns r s)
       else do {
         y \<leftarrow> usys_yield s;
         case resumed of [] \<Rightarrow> Some y | s' # resumed \<Rightarrow> ugetchar resumed s'})"

declare ugetchar.simps [simp del]

section \<open>Page faults and fork\<close>

abbreviation (input) PTE_COW :: u32 where "PTE_COW \<equiv> 0x800"
abbreviation (input) PTE_SHARE :: u32 where "PTE_SHARE \<equiv> 0x400"

text \<open>The process's own page tables, as mapped at \<^verbatim>\<open>UVPT\<close>.\<close>

definition uvpt :: "u32 \<Rightarrow> kstate \<Rightarrow> u32 option" where
  "uvpt pn s = vld32 (UVPT + 4 * pn) s"

definition uvpd :: "u32 \<Rightarrow> kstate \<Rightarrow> u32 option" where
  "uvpd i s = vld32 (UVPT + drop_bit 12 UVPT * 4 + 4 * i) s"

text \<open>The first registration allocates the exception stack and tells the kernel the entry point.\<close>

definition set_pgfault_handler :: "u32 \<Rightarrow> u32 \<Rightarrow> ulib \<Rightarrow> kstate \<Rightarrow> ulib kout option" where
  "set_pgfault_handler upcall handler u s =
     kbind (if pgfault_handler u = 0
            then kbind (usys_page_alloc 0 (UXSTACKTOP - PGSIZE) (PTE_U OR PTE_W OR PTE_P) s) (\<lambda>r s.
                   if sint r < 0 then upanic s else usys_env_set_pgfault_upcall 0 upcall s)
            else Some (Returns 0 s)) (\<lambda>_ s.
       Some (Returns (u\<lparr>pgfault_handler := handler\<rparr>) s))"

definition pgfault :: "u32 \<Rightarrow> u32 \<Rightarrow> kstate \<Rightarrow> unit kout option" where
  "pgfault fault_va err s =
     (if err AND FEC_WR = 0 then upanic s
      else do {
        pte \<leftarrow> uvpt (PGNUM fault_va) s;
        if pte AND PTE_COW = 0 then upanic s
        else
          let addr = ROUNDDOWN fault_va PGSIZE in
          kbind (usys_page_map 0 addr 0 PFTEMP (PTE_U OR PTE_P) s) (\<lambda>r s.
          if sint r < 0 then upanic s
          else kbind (usys_page_alloc 0 addr (PTE_W OR PTE_U OR PTE_P) s) (\<lambda>r s.
          if sint r < 0 then upanic s
          else do {
            s \<leftarrow> memmove addr PFTEMP PGSIZE s;
            kbind (usys_page_unmap 0 PFTEMP s) (\<lambda>r s.
            if sint r < 0 then upanic s else Some (Returns () s))}))})"

definition duppage :: "u32 \<Rightarrow> u32 \<Rightarrow> kstate \<Rightarrow> u32 kout option" where
  "duppage envid pn s = do {
     let addr = pn * PGSIZE;
     pte \<leftarrow> uvpt pn s;
     if pte AND PTE_SHARE \<noteq> 0
     then kbind (usys_page_map 0 addr envid addr PTE_SYSCALL s) (\<lambda>_ s. Some (Returns 0 s))
     else if pte AND PTE_W \<noteq> 0 \<or> pte AND PTE_COW \<noteq> 0
     then kbind (usys_page_map 0 addr envid addr (PTE_COW OR PTE_U OR PTE_P) s) (\<lambda>r s.
       if sint r < 0 then upanic s
       else kbind (usys_page_map 0 addr 0 addr (PTE_COW OR PTE_U OR PTE_P) s) (\<lambda>r s.
         if sint r < 0 then upanic s else Some (Returns 0 s)))
     else kbind (usys_page_map 0 addr envid addr (PTE_U OR PTE_P) s) (\<lambda>_ s. Some (Returns 0 s))}"

text \<open>One address of the loop in \<^verbatim>\<open>fork\<close>, and the loop over a list of them.\<close>

definition fork_page :: "u32 \<Rightarrow> u32 \<Rightarrow> kstate \<Rightarrow> u32 kout option" where
  "fork_page envid addr s = do {
     pde \<leftarrow> uvpd (PDX addr) s;
     if pde AND PTE_P = 0 then Some (Returns 0 s)
     else do {
       pte \<leftarrow> uvpt (PGNUM addr) s;
       if pte AND PTE_P \<noteq> 0 \<and> pte AND PTE_U \<noteq> 0 then duppage envid (PGNUM addr) s
       else Some (Returns 0 s)}}"

primrec fork_pages :: "u32 \<Rightarrow> u32 list \<Rightarrow> kstate \<Rightarrow> u32 kout option" where
  "fork_pages envid [] s = Some (Returns 0 s)"
| "fork_pages envid (addr # addrs) s = kbind (fork_page envid addr s) (\<lambda>_ s. fork_pages envid addrs s)"

definition fork :: "u32 \<Rightarrow> u32 \<Rightarrow> ulib \<Rightarrow> kstate \<Rightarrow> (u32 \<times> ulib) kout option" where
  "fork upcall pgfault_addr u s =
     kbind (set_pgfault_handler upcall pgfault_addr u s) (\<lambda>u s.
     kbind (usys_exofork s) (\<lambda>envid s.
       if sint envid < 0 then upanic s
       else if envid = 0 then
         kbind (usys_getenvid s) (\<lambda>self s. Some (Returns (0, u\<lparr>thisenv := ENVX self\<rparr>) s))
       else
         kbind (fork_pages envid (map (\<lambda>k. of_nat k * PGSIZE) [0..<unat (USTACKTOP div PGSIZE)]) s) (\<lambda>_ s.
         kbind (usys_page_alloc envid (UXSTACKTOP - PGSIZE) (PTE_P OR PTE_W OR PTE_U) s) (\<lambda>r s.
         if sint r < 0 then upanic s
         else kbind (usys_env_set_pgfault_upcall envid upcall s) (\<lambda>r s.
         if sint r < 0 then upanic s
         else kbind (usys_env_set_status envid ENV_RUNNABLE s) (\<lambda>r s.
         if sint r < 0 then upanic s
         else Some (Returns (envid, u) s)))))))"

definition sfork :: "kstate \<Rightarrow> u32 kout option" where
  "sfork s = upanic s"

section \<open>Messages\<close>

text \<open>
  A receiver that waits gives up its CPU, to another environment or to the halt loop, and goes on in
  \<open>resumed\<close> with the value the delivery stored in its saved \<^verbatim>\<open>eax\<close>, which the stub then checks; when the
  kernel went into its monitor instead, the receiver does not come back. The result is the value, and
  what is stored through the two pointers when they are not null.
\<close>

definition ipc_received :: "ulib \<Rightarrow> u32 \<Rightarrow> kstate \<Rightarrow> (u32 \<times> u32 \<times> u32) kout option" where
  "ipc_received u r s =
     Some (if sint r < 0 then Returns (r, 0, 0) s
           else let v = envs s (thisenv u) in Returns (env_ipc_value v, env_ipc_from v, env_ipc_perm v) s)"

definition ipc_recv :: "u32 \<Rightarrow> (kstate \<Rightarrow> kstate) \<Rightarrow> ulib \<Rightarrow> kstate \<Rightarrow> (u32 \<times> u32 \<times> u32) kout option" where
  "ipc_recv pg resumed u s = do {
     let pg = (if pg = 0 then - 1 else pg);
     out \<leftarrow> usys_ipc_recv pg s;
     (case out of
        Returns r s \<Rightarrow> ipc_received u r s
      | Leaves x s \<Rightarrow>
          if (case x of ToUser _ \<Rightarrow> True | Halted \<Rightarrow> True | _ \<Rightarrow> False) then
            let s = resumed s; r = reg_eax (tf_regs (env_tf (envs s (thisenv u)))) in
            if sint r > 0 then upanic s else ipc_received u r s
          else Some (Leaves x s))}"

text \<open>A sender yields as long as the receiver is not ready.\<close>

fun ipc_send :: "u32 \<Rightarrow> u32 \<Rightarrow> u32 \<Rightarrow> u32 \<Rightarrow> u32 \<Rightarrow> kstate list \<Rightarrow> kstate \<Rightarrow> unit kout option" where
  "ipc_send junk to_env msg pg perm resumed s =
     kbind (usys_ipc_try_send junk to_env msg (if pg = 0 then - 1 else pg) perm s) (\<lambda>r s.
       if r = 0 then Some (Returns () s)
       else if r = - E_IPC_NOT_RECV then
         kbind (usys_yield s) (\<lambda>_ s. Some (Returns () s)) \<bind> (\<lambda>y.
         case resumed of [] \<Rightarrow> Some y | s' # resumed \<Rightarrow> ipc_send junk to_env msg pg perm resumed s')
       else upanic s)"

declare ipc_send.simps [simp del]

definition ipc_find_env :: "u32 \<Rightarrow> kstate \<Rightarrow> u32" where
  "ipc_find_env type s =
     (case find (\<lambda>i. env_type (envs s i) = type) [0..<NENV] of Some i \<Rightarrow> env_id (envs s i) | None \<Rightarrow> 0)"

end
