(* ===== verification/Demo.thy ===== *)
theory Demo
  imports Regions
begin

text \<open>
  A small concrete kernel state on which the properties are instantiated: sixteen pages of
  memory, all zero; the kernel's directory in page 6 and the directory of the one environment
  in page 8; pages 9, 10 and 11 free; page 12 in use for data. Environment 0 runs on CPU 0,
  which holds the kernel lock.
\<close>

definition demo_page :: "nat \<Rightarrow> PageInfo" where
  "demo_page i =
     (if i = 9 then \<lparr>pp_link = Some 10, pp_ref = 0\<rparr>
      else if i = 10 then \<lparr>pp_link = Some 11, pp_ref = 0\<rparr>
      else if i = 11 then \<lparr>pp_link = None, pp_ref = 0\<rparr>
      else \<lparr>pp_link = None, pp_ref = 1\<rparr>)"

definition demo_env :: "nat \<Rightarrow> Env" where
  "demo_env i =
     (if i = 0 then env_zero\<lparr>env_id := 0x1000, env_status := ENV_RUNNING, env_pgdir := 0xF0008000\<rparr>
      else env_zero\<lparr>env_link := (if i + 1 < NENV then Some (i + 1) else None)\<rparr>)"

definition ts_zero :: Taskstate where
  "ts_zero = \<lparr>ts_link = 0, ts_esp0 = 0, ts_ss0 = 0, ts_padding1 = 0, ts_esp1 = 0, ts_ss1 = 0,
     ts_padding2 = 0, ts_esp2 = 0, ts_ss2 = 0, ts_padding3 = 0, ts_cr3 = 0, ts_eip = 0,
     ts_eflags = 0, ts_eax = 0, ts_ecx = 0, ts_edx = 0, ts_ebx = 0, ts_esp = 0, ts_ebp = 0,
     ts_esi = 0, ts_edi = 0, ts_es = 0, ts_padding4 = 0, ts_cs = 0, ts_padding5 = 0, ts_ss = 0,
     ts_padding6 = 0, ts_ds = 0, ts_padding7 = 0, ts_fs = 0, ts_padding8 = 0, ts_gs = 0,
     ts_padding9 = 0, ts_ldt = 0, ts_padding10 = 0, ts_t = 0, ts_iomb = 0\<rparr>"

definition demo_cpu :: "nat \<Rightarrow> CpuInfo" where
  "demo_cpu i = \<lparr>cpu_id = of_nat i, cpu_status = (if i = 0 then CPU_STARTED else CPU_UNUSED),
     cpu_env = (if i = 0 then Some 0 else None), cpu_ts = ts_zero\<rparr>"

definition demo_cons :: console where
  "demo_cons = \<lparr>serial_exists = True, serial_rx = [], serial_tx = [], lpt_tx = [], addr_6845 = 0x3D4,
     crt_buf = (\<lambda>_. 0), crt_pos = 0, crt_cursor = 0, kbd_rx = [], kbd_shift = 0, rebooted = False,
     cbuf = (\<lambda>_. 0), rpos = 0, wpos = 0\<rparr>"

definition demo_gate :: Gatedesc where
  "demo_gate = \<lparr>gd_off_15_0 = 0, gd_sel = 0, gd_args = 0, gd_rsv1 = 0, gd_type = 0, gd_s = 0,
     gd_dpl = 0, gd_p = 0, gd_off_31_16 = 0\<rparr>"

definition demo :: kstate where
  "demo = \<lparr>npages = 16, npages_basemem = 16, kern_pgdir = 0xF0006000, pages_va = 0xF0001000,
     pages = demo_page, page_free_list = Some 9, nextfree = 0xF0009000, mmio_base = MMIOBASE,
     user_mem_check_addr = 0, phys = (\<lambda>_. 0), envs_va = 0xF0002000, envs = demo_env,
     env_free_list = Some 1, cpus = demo_cpu, cpunum_reg = 0,
     cr3 = (\<lambda>i. if i = 0 then 0x8000 else 0x6000), invlpg_log = [],
     kernel_lock = \<lparr>locked = 1, lk_cpu = Some 0\<rparr>, cons = demo_cons, gdt = gdt_init,
     idt = (\<lambda>_. demo_gate), task_reg = (\<lambda>_. 0)\<rparr>"

lemma demo_fields [simp]:
  "npages demo = 16" "kern_pgdir demo = 0xF0006000" "pages demo = demo_page"
  "page_free_list demo = Some 9" "mmio_base demo = MMIOBASE" "phys demo = (\<lambda>_. 0)"
  "envs demo = demo_env" "env_free_list demo = Some 1" "cpus demo = demo_cpu"
  "cpunum_reg demo = 0" "kernel_lock demo = \<lparr>locked = 1, lk_cpu = Some 0\<rparr>"
  "cons demo = demo_cons" "cr3 demo 0 = 0x8000" "nextfree demo = 0xF0009000"
  by (simp_all add: demo_def)

lemma demo_curenv [simp]: "curenv demo = Some 0"
  by (simp add: curenv_def demo_cpu_def)

lemma demo_pages_ok: "pages_ok demo" and demo_free: "free_pages demo = [9, 10, 11]"
proof -
  have "pages_ok demo \<and> free_pages demo = [9, 10, 11]"
    by (rule pages_okI) (simp_all add: demo_page_def)
  then show "pages_ok demo" "free_pages demo = [9, 10, 11]" by simp_all
qed

lemma demo_no_pt [simp]: "\<not> has_pt demo pgdir i" "pde_of demo pgdir i = 0" "pte_of demo pgdir va = 0"
  by (simp_all add: has_pt_def pde_of_def pte_of_def)

lemma demo_pgdir_ok: "pgdir_ok demo 0xF0008000" "pgdir_ok demo 0xF0006000"
  by (simp_all add: pgdir_ok_def frame_ok_def demo_free PGOFF_def PGNUM_def drop_bit_eq_div)

lemma demo_dir_in_range: "dir_in_range demo pgdir"
  by (simp add: dir_in_range_def)

lemma demo_data_page: "data_page demo 0xF0008000 12" "data_page demo 0xF0006000 12"
  by (simp_all add: data_page_def demo_free demo_page_def page2pa_def push_bit_eq_mult)

end
