(* ===== verification/Env_Props.thy ===== *)
theory Env_Props
  imports Env_Facts Sched Demo
begin

text \<open>
  The properties of environments: the table, identifiers, allocation with its fresh address
  space, the switch to user mode, the scheduler's choice and the kernel lock.
\<close>

section \<open>Instances\<close>

lemma demo_chain:
  assumes "1 \<le> k"
  shows "chain (\<lambda>i. env_link (envs demo i)) (if k < NENV then Some k else None) [k..<NENV]"
  using assms
proof (induction "NENV - k" arbitrary: k)
  case 0
  then show ?case by simp
next
  case (Suc m)
  then have "m = NENV - Suc k" and k: "k < NENV" by auto
  from Suc.hyps(1) [OF this(1)] have IH: "chain (\<lambda>i. env_link (envs demo i)) (if Suc k < NENV then Some (Suc k) else None) [Suc k..<NENV]"
    by simp
  have "env_link (envs demo k) = (if Suc k < NENV then Some (Suc k) else None)"
    using Suc.prems by (simp add: demo_env_def)
  then show ?case unfolding upt_conv_Cons [OF k] using IH k by simp
qed

lemma demo_envs_ok: "envs_ok demo" and demo_free_envs: "free_envs demo = 1 # [2..<NENV]"
proof -
  have "envs_ok demo \<and> free_envs demo = [1..<NENV]"
  proof (rule envs_okI)
    from demo_chain [of 1] show "chain (\<lambda>i. env_link (envs demo i)) (env_free_list demo) [1..<NENV]"
      by (simp del: upt_rec_numeral)
    show "\<forall>i\<in>set [1..<NENV]. i < NENV \<and> env_status (envs demo i) = ENV_FREE"
      unfolding set_upt by (auto simp: demo_env_def env_zero_def)
  qed
  moreover have u: "[1..<n] = 1 # [2..<n]" if "1 < n" for n :: nat
    using that by (simp add: upt_conv_Cons numeral_2_eq_2)
  have "[1..<NENV] = 1 # [2..<NENV]" by (rule u) simp
  ultimately show "envs_ok demo" "free_envs demo = 1 # [2..<NENV]" by (simp_all only:)
qed

lemma demo_kern_space: "spaces_ok demo {0xF0006000}"
  by (simp add: spaces_ok_def demo_pages_ok demo_pgdir_ok mapped_def)

section \<open>The table and identifiers\<close>

text \<open>
  C19. Resolving an identifier when an environment is current never panics. Zero names the current
  environment. Any other identifier resolves to a slot exactly when that slot is the one it
  encodes, is in use under this very identifier and, if permission is to be checked, belongs to
  the current environment itself or to a child of it; in all other cases the answer is
  \<^verbatim>\<open>-E_BAD_ENV\<close>.
\<close>

theorem envid2env_correct:
  assumes "curenv s = Some c"
  shows "envid2env 0 checkperm s = Some (Inr (Some c)) \<and>
    (envid \<noteq> 0 \<longrightarrow>
      (\<forall>e. envid2env envid checkperm s = Some (Inr (Some e)) \<longleftrightarrow>
        e = ENVX envid \<and> env_status (envs s e) \<noteq> ENV_FREE \<and> env_id (envs s e) = envid \<and>
        (checkperm \<longrightarrow> e = c \<or> env_parent_id (envs s e) = env_id (envs s c))) \<and>
      ((\<nexists>e. envid2env envid checkperm s = Some (Inr (Some e))) \<longrightarrow>
        envid2env envid checkperm s = Some (Inl (- E_BAD_ENV))))"
  using assms by (auto simp: envid2env_def Let_def)

theorem envid2env_correct_witness:
  "envid2env 0x1000 True demo = Some (Inr (Some 0)) \<and> envid2env 0x1001 True demo = Some (Inl (- E_BAD_ENV))"
proof -
  note p = envid2env_correct [OF demo_curenv, of True, THEN conjunct2, rule_format]
  have x: "ENVX 0x1000 = 0" "ENVX 0x1001 = 1" by (simp_all add: ENVX_def)
  show ?thesis using p [of "0x1000"] p [of "0x1001"] by (simp add: x demo_env_def env_zero_def)
qed

section \<open>Allocation\<close>

text \<open>
  C7. Allocating an environment takes the head of the free list and one free page. The new
  address space is empty below \<^verbatim>\<open>UTOP\<close>, shares the kernel's page tables above it, joins the
  invariant of all spaces and leaves every existing space's user part as it was. The environment
  is runnable, with a clean user-mode frame and no upcall; its identifier is positive, differs
  from the slot's previous one and encodes the slot. No other environment changes.
\<close>

theorem env_alloc_correct:
  assumes "envs_ok s" and "free_envs s = e # es" and "spaces_ok s D" and "kern_pgdir s \<in> D"
    and "free_pages s = p # ps" and "unat (npages s) \<le> 65536"
  shows "\<exists>s' d. env_alloc parent s = Some (Inr e, s') \<and> env_pgdir (envs s' e) = d \<and>
    envs_ok s' \<and> free_envs s' = es \<and> spaces_ok s' (insert d D) \<and> d \<notin> D \<and>
    (\<forall>v < UTOP. pte_of s' d v = 0) \<and>
    (\<forall>i. tree_slot i \<and> PDX UTOP \<le> i \<longrightarrow> pde_of s' d i = pde_of s (kern_pgdir s) i) \<and>
    (\<forall>c\<in>D. user_view c s' = user_view c s) \<and>
    env_status (envs s' e) = ENV_RUNNABLE \<and> env_tf (envs s' e) = tf_user \<and>
    env_parent_id (envs s' e) = parent \<and> env_pgfault_upcall (envs s' e) = 0 \<and>
    env_id (envs s' e) \<noteq> env_id (envs s e) \<and> ENVX (env_id (envs s' e)) = e \<and>
    0 < sint (env_id (envs s' e) AND NOT 1023) \<and>
    (\<forall>i. i \<noteq> e \<longrightarrow> envs s' i = envs s i)"
proof -
  have e: "e < NENV" using envs_okD(2) [OF assms(1), of e] assms(2) by simp
  let ?d = "page2pa p + KERNBASE"
  from env_alloc_result [OF assms, of parent] obtain s' where
    s': "env_alloc parent s = Some (Inr e, s')" "envs s' = (envs s)(e := new_env parent e ?d (envs s e))"
    "envs_ok s'" "free_envs s' = es" "spaces_ok s' (insert ?d D)" "?d \<notin> D" "\<forall>v < UTOP. pte_of s' ?d v = 0"
    "\<forall>i. tree_slot i \<longrightarrow> PDX UTOP \<le> i \<longrightarrow> pde_of s' ?d i = pde_of s (kern_pgdir s) i"
    "\<forall>c\<in>D. user_view c s' = user_view c s" by blast
  note id = envid_parts [OF env_generation_low e] env_generation_fresh [OF e] env_generation_pos
  show ?thesis
    by (rule exI [of _ s'], rule exI [of _ ?d], intro conjI)
      (use s' id in \<open>simp_all add: new_env_def del: not_less\<close>)
qed

theorem env_alloc_correct_witness:
  "\<exists>s'. env_alloc 0x1000 demo = Some (Inr 1, s') \<and> env_status (envs s' 1) = ENV_RUNNABLE \<and>
     pte_of s' (env_pgdir (envs s' 1)) 0x800000 = 0"
  using env_alloc_correct [OF demo_envs_ok demo_free_envs demo_kern_space _ demo_free, of "0x1000"] by auto

end
