(* ===== verification/Userlib_Props.thy ===== *)
theory Userlib_Props
  imports Userlib Sys_Facts Env_Props
begin

text \<open>
  How a program sees its own mappings: it reads its page directory and page tables through the
  self-map of the directory; and what its system calls that map pages do to reference counts.
\<close>

section \<open>The self-map\<close>

lemma PTE_ADDR_or_add: "y < 4096 \<Longrightarrow> PTE_ADDR x OR y = PTE_ADDR x + y"
proof -
  assume "y < 4096"
  then have "unat (y AND mask 12) = unat y" by (simp add: unat_and_mask word_less_nat_alt)
  then have y: "y = y AND mask 12" by (metis word_eq_unatI)
  have "PTE_ADDR x + (y AND mask 12) = PTE_ADDR x OR (y AND mask 12)"
    by (rule disjunctive_add) (auto simp: PTE_ADDR_def mask12_eq bit_simps)
  then show ?thesis using y by simp
qed

lemma aligned_byte:
  assumes "unat q mod 4 = 0" and "unat k < 4"
  shows "(q + k) AND 3 = k" and "(q + k) AND NOT 3 = (q :: u32)"
proof -
  have three: "(3 :: u32) = mask 2" by (simp add: mask_eq_exp_minus_1)
  have "unat q + 4 \<le> 4294967296" using assms(1) unat_u32_less [of q] by presburger
  then have u: "unat (q + k) = unat q + unat k" using assms(2) by (simp add: unat_word_ariths)
  then have m: "unat (q + k) mod 4 = unat k" using assms by presburger
  show "(q + k) AND 3 = k" by (rule word_eq_unatI) (simp add: three unat_and_mask m)
  have "unat (q + k) - unat (q + k) mod 4 = unat q" using m u by linarith
  then show "(q + k) AND NOT 3 = q" by (intro word_eq_unatI) (simp add: three unat_and_not_mask)
qed

lemma word_of_bytes:
  "ucast (ucast w :: u8) OR push_bit 8 (ucast (ucast (drop_bit 8 w) :: u8)) OR
   push_bit 16 (ucast (ucast (drop_bit 16 w) :: u8)) OR push_bit 24 (ucast (ucast (drop_bit 24 w) :: u8)) = (w :: u32)"
proof (rule bit_word_eqI)
  fix n assume "n < LENGTH(32)"
  then have n: "n < 32" by simp
  consider "n < 8" | "8 \<le> n" "n < 16" | "16 \<le> n" "n < 24" | "24 \<le> n" by linarith
  then show "bit (ucast (ucast w :: u8) OR push_bit 8 (ucast (ucast (drop_bit 8 w) :: u8)) OR
      push_bit 16 (ucast (ucast (drop_bit 16 w) :: u8)) OR push_bit 24 (ucast (ucast (drop_bit 24 w) :: u8)) :: u32) n = bit w n"
    by cases (use n in \<open>auto simp: bit_simps\<close>)
qed

text \<open>The environment \<open>c\<close> runs on the executing CPU, with its directory loaded and mapped into itself.\<close>

definition running :: "nat \<Rightarrow> kstate \<Rightarrow> bool" where
  "running c s \<longleftrightarrow> curenv s = Some c \<and>
     (let d = env_pgdir (envs s c) in
      cr3 s (cpunum_reg s) = d - KERNBASE \<and> pde_of s d (PDX UVPT) = (d - KERNBASE) OR PTE_U OR PTE_P)"

lemma uvpt_mmu:
  assumes "running c s" and "pgdir_ok s (env_pgdir (envs s c))" and "unat pn < 1048576" and "unat k < 4"
    and "pde_of s (env_pgdir (envs s c)) (PDX (pn * PGSIZE)) AND PTE_P \<noteq> 0"
  shows "mmu False (UVPT + 4 * pn + k) s =
    Some (PTE_ADDR (pde_of s (env_pgdir (envs s c)) (PDX (pn * PGSIZE))) + (4 * PTX (pn * PGSIZE) + k))"
proof -
  let ?d = "env_pgdir (envs s c)" and ?v = "UVPT + 4 * pn + k" and ?a = "pn * PGSIZE"
  obtain q r where p: "unat pn = 1024 * q + r" "r < 1024" "q < 1024"
    using that [of "unat pn div 1024" "unat pn mod 1024"] assms(3) by (auto simp: div_less_iff_less_mult)
  have "unat ?v = 4013948928 + 4 * unat pn + unat k" using assms(3,4) by (simp add: unat_word_ariths)
  then have v: "unat ?v = (979968 + q) * 4096 + (4 * r + unat k)" by (simp add: p(1))
  have small: "4 * r + unat k < 4096" using p(2) assms(4) by simp
  have vd: "unat ?v div 4096 = 979968 + q" "unat ?v mod 4096 = 4 * r + unat k"
    unfolding v using small by (simp_all only: mod_mult_self3 div_mult_self3 mod_less div_less)
  have a: "unat ?a = 4194304 * q + 4096 * r" using p assms(3) by (simp add: unat_word_ariths)
  have pdx_a: "unat (PDX ?a) = q" and ptx_a: "unat (PTX ?a) = r"
  proof -
    show "unat (PDX ?a) = q" using p(2) by (simp add: unat_PDX a)
    have "unat ?a div 4096 = 1024 * q + r" by (simp add: a)
    then show "unat (PTX ?a) = r" using p(2) by (simp add: unat_PTX)
  qed
  have "unat (PDX ?v) = unat ?v div 4096 div 1024" by (simp add: unat_PDX div_mult2_eq [symmetric])
  then have "unat (PDX ?v) = 957" using p(3) vd(1) by simp
  then have pdx: "PDX ?v = PDX UVPT" by (intro word_eq_unatI) (simp add: unat_PDX)
  have ptx: "PTX ?v = PDX ?a"
    by (rule word_eq_unatI) (use mod_mult_self3 [of 957 1024 q] p(3) in \<open>simp add: unat_PTX vd pdx_a\<close>)
  have "unat (4 * PTX ?a + k) = 4 * r + unat k" using p(2) assms(4) by (simp add: unat_word_ariths ptx_a)
  then have off: "PGOFF ?v = 4 * PTX ?a + k" by (intro word_eq_unatI) (simp only: unat_PGOFF vd)
  have d: "PTE_ADDR (?d - KERNBASE) = ?d - KERNBASE" using pgdir_okD(1) [OF assms(2)] by simp
  define w where "w = (?d - KERNBASE) OR PTE_U OR PTE_P"
  have w: "PTE_ADDR w = ?d - KERNBASE" "w AND PTE_P \<noteq> 0"
  proof -
    show "PTE_ADDR w = ?d - KERNBASE" by (simp add: w_def PTE_ADDR_or d)
    have "w = ((?d - KERNBASE) OR PTE_U) OR PTE_P" by (simp only: w_def or.assoc)
    then show "w AND PTE_P \<noteq> 0" by (simp only: present_or) simp
  qed
  have pde: "phys s (?d - KERNBASE + 4 * PDX UVPT) = w"
    and pt: "phys s (?d - KERNBASE + 4 * PDX ?a) = pde_of s ?d (PDX ?a)"
    using assms(1) by (simp_all only: running_def Let_def pde_of_def w_def)
  have "4 * PTX ?a + k < 4096" by (metis PGOFF_less off)
  then have "PTE_ADDR (pde_of s ?d (PDX ?a)) OR (4 * PTX ?a + k) = PTE_ADDR (pde_of s ?d (PDX ?a)) + (4 * PTX ?a + k)"
    by (rule PTE_ADDR_or_add)
  moreover have "cr3 s (cpunum_reg s) = ?d - KERNBASE" using assms(1) by (simp add: running_def Let_def)
  ultimately show ?thesis
    using assms(5) w(2) by (simp only: mmu_def pdx ptx off d pde pt w(1) Let_def) simp
qed

lemma uvpt_word:
  assumes "running c s" and "pgdir_ok s (env_pgdir (envs s c))" and "unat pn < 1048576"
    and "pde_of s (env_pgdir (envs s c)) (PDX (pn * PGSIZE)) AND PTE_P \<noteq> 0"
  shows "uvpt pn s = Some (phys s (PTE_ADDR (pde_of s (env_pgdir (envs s c)) (PDX (pn * PGSIZE))) + 4 * PTX (pn * PGSIZE)))"
proof -
  let ?d = "env_pgdir (envs s c)" and ?a = "pn * PGSIZE"
  define q where "q = PTE_ADDR (pde_of s ?d (PDX ?a)) + 4 * PTX ?a"
  let ?x = "unat (pde_of s ?d (PDX ?a)) div 4096"
  have "?x < 1048576" using unat_u32_less [of "pde_of s ?d (PDX ?a)"] by (simp add: div_less_iff_less_mult)
  moreover have "unat (PTX ?a) < 1024" by (simp add: unat_PTX)
  ultimately have "unat q = 4 * (1024 * ?x + unat (PTX ?a))"
    by (simp add: q_def unat_word_ariths unat_PTE_ADDR minus_mod_eq_mult_div)
  then have al: "unat q mod 4 = 0" by simp
  have b: "vld8 (UVPT + 4 * pn + k) s = Some (ucast (drop_bit (8 * unat k) (phys s q)))" if "unat k < 4" for k
  proof -
    have "mmu False (UVPT + 4 * pn + k) s = Some (q + k)"
      using uvpt_mmu [OF assms(1-3) that assms(4)] by (simp add: q_def add.assoc)
    then show ?thesis using aligned_byte [OF al that] by (simp add: vld8_def ld8_def byte_of_def)
  qed
  show ?thesis
    using b [of 0] b [of 1] b [of 2] b [of 3] by (simp add: uvpt_def vld32_def word_of_bytes q_def [symmetric])
qed

lemma uvpt_reads:
  assumes "running c s" and "pgdir_ok s (env_pgdir (envs s c))" and "unat pn < 1048576"
    and "has_pt s (env_pgdir (envs s c)) (PDX (pn * PGSIZE))"
  shows "uvpt pn s = Some (pte_of s (env_pgdir (envs s c)) (pn * PGSIZE))"
  using assms(4) uvpt_word [OF assms(1-3)] by (simp add: has_pt_def pte_of_def)

lemma uvpd_reads:
  assumes r: "running c s" and pd: "pgdir_ok s (env_pgdir (envs s c))" and i: "i < 1024"
  shows "uvpd i s = Some (pde_of s (env_pgdir (envs s c)) i)"
proof -
  let ?d = "env_pgdir (envs s c)"
  define pn where "pn = 0xEF400 + i"
  have ui: "unat i < 1024" using i by (simp add: word_less_nat_alt)
  then have pn: "unat pn = 979968 + unat i" by (simp add: pn_def unat_word_ariths)
  then have a: "unat (pn * PGSIZE) = (979968 + unat i) * 4096" using ui by (simp add: unat_word_ariths)
  have q: "(979968 + unat i) div 1024 = 957" "(979968 + unat i) mod 1024 = unat i"
    using ui div_mult_self3 [of 1024 957 "unat i"] mod_mult_self3 [of 957 1024 "unat i"] by simp_all
  have x: "PDX (pn * PGSIZE) = PDX UVPT" "PTX (pn * PGSIZE) = i"
  proof -
    have "unat (pn * PGSIZE) div 4096 = 979968 + unat i" by (simp only: a nonzero_mult_div_cancel_right)
    moreover have "unat (pn * PGSIZE) div 4194304 = unat (pn * PGSIZE) div 4096 div 1024" by (simp flip: div_mult2_eq)
    ultimately have "unat (PDX (pn * PGSIZE)) = 957" "unat (PTX (pn * PGSIZE)) = unat i"
      using q by (simp_all only: unat_PDX unat_PTX)
    then show "PDX (pn * PGSIZE) = PDX UVPT" "PTX (pn * PGSIZE) = i"
      by (auto intro!: word_eq_unatI simp: unat_PDX)
  qed
  have d: "PTE_ADDR (?d - KERNBASE) = ?d - KERNBASE" using pgdir_okD(1) [OF pd] by simp
  have u: "pde_of s ?d (PDX UVPT) = (?d - KERNBASE) OR PTE_U OR PTE_P" using r by (simp add: running_def Let_def)
  have p: "PTE_ADDR (pde_of s ?d (PDX UVPT)) = ?d - KERNBASE" "pde_of s ?d (PDX UVPT) AND PTE_P \<noteq> 0"
  proof -
    show "PTE_ADDR (pde_of s ?d (PDX UVPT)) = ?d - KERNBASE" unfolding u by (simp add: PTE_ADDR_or d)
    show "pde_of s ?d (PDX UVPT) AND PTE_P \<noteq> 0" unfolding u by (metis or.assoc present_or one_neq_zero)
  qed
  have "drop_bit 12 UVPT = (0xEF400 :: u32)" by simp
  then have "uvpd i s = uvpt pn s" by (simp only: uvpd_def uvpt_def pn_def) (simp add: algebra_simps)
  also have "\<dots> = Some (phys s (?d - KERNBASE + 4 * i))"
    using uvpt_word [OF r pd, of pn] ui pn p unfolding x by simp
  finally show ?thesis by (simp add: pde_of_def)
qed

section \<open>Copy-on-write sharing\<close>

lemma page_addr: "unat pn < 1048576 \<Longrightarrow> PGOFF (pn * PGSIZE) = 0"
  by (rule word_eq_unatI) (simp add: unat_PGOFF unat_word_ariths)

lemma usys_page_map_eq:
  "usys_page_map srcid srcva dstid dstva perm s =
     kbind (sys_page_map srcid srcva dstid dstva perm s) (\<lambda>ret s.
       if sint ret > 0 then upanic s else Some (Returns ret s))"
  by (simp add: usys_page_map_def stub_def syscall_def)

lemma usys_page_alloc_eq:
  "usys_page_alloc envid va perm s =
     kbind (sys_page_alloc envid va perm s) (\<lambda>ret s. if sint ret > 0 then upanic s else Some (Returns ret s))"
  by (simp add: usys_page_alloc_def stub_def syscall_def)

lemma usys_page_unmap_eq:
  "usys_page_unmap envid va s =
     kbind (sys_page_unmap envid va s) (\<lambda>ret s. if sint ret > 0 then upanic s else Some (Returns ret s))"
  by (simp add: usys_page_unmap_def stub_def syscall_def)

lemma env_view_has_pt:
  assumes "v < UTOP" and "env_view e s v AND PTE_P \<noteq> 0"
  shows "has_pt s (env_pgdir (envs s e)) (PDX v)"
proof (rule ccontr)
  assume "\<not> ?thesis"
  with pte_of_no_pt [OF user_slot(1) [OF assms(1)]] assms show False by (simp add: env_view_def user_view_def)
qed

text \<open>Reference counts after an insertion.\<close>

lemma insert_cost_refs:
  assumes k: "kinv s" and e: "e \<in> in_use s" and va: "va < UTOP"
    and cost: "insert_cost (env_pgdir (envs s e)) va pp s s'" and i: "i \<notin> set (free_pages s)"
  shows "i = pp \<longrightarrow> unat (pp_ref (pages s pp)) < 65535 \<Longrightarrow>
      unat (pp_ref (pages s' i)) \<le> unat (pp_ref (pages s i)) + (if i = pp then 1 else 0)"
    and "env_view e s va AND PTE_P \<noteq> 0 \<Longrightarrow> pte_page (env_view e s va) = pp \<Longrightarrow>
      pp_ref (pages s' i) = pp_ref (pages s i)"
proof -
  let ?d = "env_pgdir (envs s e)" and ?w = "env_view e s va"
  have w: "pte_of s ?d va = ?w" using va by (simp add: env_view_def user_view_def)
  let ?old = "?w AND PTE_P \<noteq> 0 \<and> i = pte_page ?w"
  have r: "pp_ref (pages s' i) = pp_ref (pages s i) + (if i = pp then 1 else 0) - (if ?old then 1 else 0)"
    using cost i by (simp add: insert_cost_def w)
  have pos: "0 < unat (pp_ref (pages s i))" if ?old
  proof -
    have "PTE_ADDR va \<in> mapped s ?d i" using that mapped_at [OF va, of s ?d i] by (simp add: w)
    then have "0 < card (mapped s ?d i)" by (auto simp: card_gt_0_iff)
    with mapped_le_ref [OF kinvD(1,4) [OF k], OF e, of i] show ?thesis by simp
  qed
  show "pp_ref (pages s' i) = pp_ref (pages s i)" if "?w AND PTE_P \<noteq> 0" "pte_page ?w = pp"
    using r that by (cases "i = pp") auto
  show "unat (pp_ref (pages s' i)) \<le> unat (pp_ref (pages s i)) + (if i = pp then 1 else 0)"
    if "i = pp \<longrightarrow> unat (pp_ref (pages s pp)) < 65535"
    using r pos that by (cases ?old; cases "i = pp") (auto simp: ref_increment ref_decrement)
qed

text \<open>A mapped page is not free.\<close>

lemma view_not_free:
  assumes "kinv s" and "e \<in> in_use s" and "va < UTOP" and "env_view e s va AND PTE_P \<noteq> 0"
  shows "pte_page (env_view e s va) \<notin> set (free_pages s)"
proof -
  have d: "env_pgdir (envs s e) \<in> dirs s" using kinvD(4) [OF assms(1,2)] .
  have "env_view e s va = pte_of s (env_pgdir (envs s e)) va" using assms(3) by (simp add: env_view_def user_view_def)
  with assms d have "shared_data s (dirs s) (pte_page (env_view e s va))"
    using kinvD(1) [OF assms(1)] by (simp add: spaces_ok_def)
  with d show ?thesis by (auto simp: shared_data_def data_page_def)
qed

text \<open>A mapping replaced by one of the same page: it cannot fail.\<close>

lemma remap_self:
  assumes k: "kinv s" and c: "curenv s = Some c" and ok: "map_valid c va va perm s"
    and room: "unat (pp_ref (pages s (pte_page (env_view c s va)))) < 65535"
  shows "\<exists>s'. sys_page_map 0 va 0 va perm s = Some (Returns 0 s') \<and> call_post c 0 s s' \<and> map_done c va c va perm s s'"
proof -
  have self: "envid2env 0 True s = Some (Inr (Some c))" using c by (simp add: envid2env_def)
  have u: "c \<in> in_use s" using kinvD(6) [OF k c] .
  have "va < UTOP" "env_view c s va AND PTE_P \<noteq> 0" using ok by (auto simp: map_valid_def bad_va_def not_le)
  then have "has_pt s (env_pgdir (envs s c)) (PDX va)" by (rule env_view_has_pt)
  with sys_page_map_valid [OF k c self u self u ok room] show ?thesis by auto
qed

end
