(* ===== verification/Cow_Demo.thy ===== *)
theory Cow_Demo
  imports Userlib_Props Env_Props
begin

text \<open>
  A concrete state for the properties of copy-on-write: that of \<open>Demo\<close> with page 13 free as well,
  the directory of environment 0 mapped into itself, and its page at \<open>0x800000\<close> mapped with the
  given entry, whose page table is page 14 and whose frame is page 12.
\<close>

definition cow_phys :: "u32 \<Rightarrow> u32 \<Rightarrow> u32" where
  "cow_phys w a = (if a = 0x8EF4 then 0x8005 else if a = 0x8008 then 0xE007 else if a = 0xE000 then w else 0)"

definition cow_page :: "nat \<Rightarrow> PageInfo" where
  "cow_page = demo_page(13 := \<lparr>pp_link = Some 9, pp_ref = 0\<rparr>)"

definition cow_demo :: "u32 \<Rightarrow> kstate" where
  "cow_demo w = demo\<lparr>phys := cow_phys w, pages := cow_page, page_free_list := Some 13\<rparr>"

lemma cow_fields [simp]:
  "npages (cow_demo w) = 16" "kern_pgdir (cow_demo w) = 0xF0006000" "pages (cow_demo w) = cow_page"
  "page_free_list (cow_demo w) = Some 13" "phys (cow_demo w) = cow_phys w" "envs (cow_demo w) = demo_env"
  "env_free_list (cow_demo w) = Some 1" "cpunum_reg (cow_demo w) = 0" "cr3 (cow_demo w) 0 = 0x8000"
  "curenv (cow_demo w) = Some 0"
  by (simp_all add: cow_demo_def) (simp add: curenv_def demo_cpu_def)

lemma cow_pages: "pages_ok (cow_demo w)" "free_pages (cow_demo w) = [13, 9, 10, 11]"
proof -
  have "pages_ok (cow_demo w) \<and> free_pages (cow_demo w) = [13, 9, 10, 11]"
    by (rule pages_okI) (simp_all add: cow_page_def demo_page_def)
  then show "pages_ok (cow_demo w)" "free_pages (cow_demo w) = [13, 9, 10, 11]" by simp_all
qed

lemma cow_in_use: "in_use (cow_demo w) = {0}"
  by (auto simp: in_use_def demo_env_def env_zero_def)

lemma cow_dirs: "dirs (cow_demo w) = {0xF0006000, 0xF0008000}"
  by (auto simp: dirs_def cow_in_use demo_env_def)

text \<open>A word of memory at an index of a page is one of the three only at the right page and index.\<close>

lemma cow_phys_index:
  assumes "i < 1024" and "b \<in> {0x6000, 0x8000, 0xE000}"
  shows "cow_phys w (b + 4 * i) =
    (if b = 0x8000 \<and> i = 957 then 0x8005 else if b = 0x8000 \<and> i = 2 then 0xE007
     else if b = 0xE000 \<and> i = 0 then w else 0)"
proof -
  have i: "unat i < 1024" using assms(1) by (simp add: word_less_nat_alt)
  have u: "unat (b + 4 * i) = unat b + 4 * unat i" using i assms(2) by (auto simp: unat_word_ariths)
  show ?thesis
    using i assms(2) by (auto simp: cow_phys_def word_unat_eq_iff u)
qed

lemma cow_pde:
  "i < 1024 \<Longrightarrow> pde_of (cow_demo w) 0xF0008000 i = (if i = 957 then 0x8005 else if i = 2 then 0xE007 else 0)"
  "i < 1024 \<Longrightarrow> pde_of (cow_demo w) 0xF0006000 i = 0"
  by (simp_all add: pde_of_def cow_phys_index)

lemma cow_has_pt: "has_pt (cow_demo w) 0xF0008000 i \<longleftrightarrow> i = 2" "\<not> has_pt (cow_demo w) 0xF0006000 i"
proof -
  have uvpt: "PDX UVPT = 957" by (simp add: word_unat_eq_iff unat_PDX)
  show "has_pt (cow_demo w) 0xF0008000 i \<longleftrightarrow> i = 2"
    by (cases "i < 1024") (auto simp: has_pt_def tree_slot_def uvpt cow_pde)
  show "\<not> has_pt (cow_demo w) 0xF0006000 i"
    by (cases "i < 1024"; auto simp: has_pt_def tree_slot_def cow_pde)
qed

lemma cow_pte:
  assumes "v < UTOP"
  shows "pte_of (cow_demo w) 0xF0008000 v = (if PTE_ADDR v = 0x800000 then w else 0)"
    and "pte_of (cow_demo w) 0xF0006000 v = 0"
proof -
  have a: "PTE_ADDR v = 0x800000 \<longleftrightarrow> PDX v = 2 \<and> PTX v = 0"
    using same_page_iff [of v "0x800000"] by (simp add: PTE_ADDR_def PDX_def PTX_def drop_bit_eq_div)
  have "PTE_ADDR 0xE007 = 0xE000" "cow_phys w 0xE000 = w" by (simp_all add: PTE_ADDR_def cow_phys_def)
  moreover have "PDX v \<noteq> 957" using user_slot(1) [OF assms] by (simp add: tree_slot_def word_unat_eq_iff unat_PDX)
  ultimately show "pte_of (cow_demo w) 0xF0008000 v = (if PTE_ADDR v = 0x800000 then w else 0)"
    unfolding a by (simp add: pte_of_def Let_def cow_pde cow_phys_index)
  show "pte_of (cow_demo w) 0xF0006000 v = 0"
    by (simp add: pte_of_def Let_def cow_pde)
qed

lemma cow_view: "v < UTOP \<Longrightarrow> env_view 0 (cow_demo w) v = (if PTE_ADDR v = 0x800000 then w else 0)"
  by (simp add: env_view_def user_view_def demo_env_def cow_pte)

lemma cow_mapped:
  assumes "pte_page w = 12"
  shows "mapped (cow_demo w) 0xF0008000 i \<subseteq> (if i = 12 then {0x800000} else {})" "mapped (cow_demo w) 0xF0006000 i = {}"
  using assms by (auto simp: mapped_def cow_pte PGNUM_def split: if_splits)

lemma cow_card: "pte_page w = 12 \<Longrightarrow> card (mapped (cow_demo w) 0xF0008000 i) \<le> (if i = 12 then 1 else 0)"
  using card_mono [OF _ cow_mapped(1) [of w i]] by (auto split: if_splits)

lemma cow_spaces_ok:
  assumes "pte_page w = 12"
  shows "spaces_ok (cow_demo w) {0xF0006000, 0xF0008000}"
proof -
  have "card (mapped (cow_demo w) 0xF0008000 i) \<le> unat (pp_ref (pages (cow_demo w) i))" for i
    using cow_card [OF assms, of i] by (auto simp: cow_page_def demo_page_def split: if_splits)
  moreover have "shared_data (cow_demo w) {0xF0006000, 0xF0008000} 12"
    by (auto simp: shared_data_def data_page_def cow_pages cow_has_pt cow_pde cow_page_def demo_page_def
        page2pa_def push_bit_eq_mult PTE_ADDR_def)
  moreover have "pgdir_ok (cow_demo w) d" if "d \<in> {0xF0006000, 0xF0008000}" for d
    using that by (auto simp: pgdir_ok_def frame_ok_def cow_pages cow_has_pt cow_pde PGOFF_def PGNUM_def drop_bit_eq_div PTE_ADDR_def)
  ultimately show ?thesis
    unfolding spaces_ok_def using assms
    by (auto simp: cow_pages own_frames_def frames_def cow_has_pt cow_pde cow_mapped cow_pte PTE_ADDR_def)
qed

lemma cow_kinv:
  assumes "pte_page w = 12"
  shows "kinv (cow_demo w)" and "free_envs (cow_demo w) \<noteq> []"
proof -
  have c: "envs_ok (cow_demo w) \<and> free_envs (cow_demo w) = [1..<NENV]"
  proof (rule envs_okI)
    show "chain (\<lambda>i. env_link (envs (cow_demo w) i)) (env_free_list (cow_demo w)) [1..<NENV]"
      using demo_chain [of 1] by (simp del: upt_rec_numeral)
    show "\<forall>i\<in>set [1..<NENV]. i < NENV \<and> env_status (envs (cow_demo w) i) = ENV_FREE"
      unfolding set_upt by (auto simp: demo_env_def env_zero_def)
  qed
  then show "kinv (cow_demo w)"
    unfolding kinv_def cow_dirs cow_in_use using cow_spaces_ok [OF assms]
    by (auto simp: demo_env_def env_zero_def ENVX_def)
  show "free_envs (cow_demo w) \<noteq> []" using c by (simp del: upt_rec_numeral)
qed

lemma cow_running: "running 0 (cow_demo w)"
  by (simp add: running_def demo_env_def) (simp add: cow_pde PDX_def drop_bit_eq_div)

end
