(* ===== verification/Sys_Errors.thy ===== *)
theory Sys_Errors
  imports Sys_Facts Cow_Demo
begin

text \<open>
  The results of the system calls: for each, which error it returns under which condition, so that
  every other call succeeds. The conditions are tested in the order of the code.
\<close>

section \<open>Memory\<close>

lemma sys_page_alloc_result:
  assumes k: "kinv s" and c: "curenv s = Some c" and run: "sys_page_alloc envid va perm s = Some (Returns r s')"
  shows "if envid2env envid True s = Some (Inl (- E_BAD_ENV)) then r = - E_BAD_ENV
    else if bad_va va \<or> bad_perm perm \<or> free_pages s = [] then r = - E_INVAL
    else r = 0 \<or> r = - E_NO_MEM \<and> length (free_pages s) = 1"
proof (cases rule: resolve [OF k c, of envid True])
  case 1
  with run show ?thesis by (simp add: sys_page_alloc_def)
next
  case 2
  note def = run [unfolded sys_page_alloc_def 2(1)]
  have ok: "pages_ok s" using kinvD(1) [OF k] by (simp add: spaces_ok_def)
  show ?thesis
  proof (cases "bad_va va \<or> bad_perm perm \<or> free_pages s = []")
    case True
    with def 2(1) page_alloc_empty [OF ok, of ALLOC_ZERO] show ?thesis by (auto split: if_splits)
  next
    case False
    then obtain p ps where f: "free_pages s = p # ps" and v: "\<not> bad_va va" "\<not> bad_perm perm" by (auto simp: neq_Nil_conv)
    from alloc_page_step [OF k 2(2) v f] obtain s1 r1 s2 where
      s1: "page_alloc ALLOC_ZERO s = Some (Some p, s1)"
      "page_insert (env_pgdir (envs s1 (target c envid))) p va perm s1 = Some (r1, s2)" and
      r: "sint r1 < 0 \<and> ps = [] \<and> (\<exists>s3. page_free p s2 = Some s3) \<or> r1 = 0" by metis
    from r show ?thesis using def 2(1) s1 v f by (elim disjE exE conjE) simp_all
  qed
qed

lemma sys_page_map_result:
  assumes k: "kinv s" and c: "curenv s = Some c" and room: "refs_room s"
    and run: "sys_page_map srcid srcva dstid dstva perm s = Some (Returns r s')"
  shows "if envid2env srcid True s = Some (Inl (- E_BAD_ENV)) \<or> envid2env dstid True s = Some (Inl (- E_BAD_ENV))
      then r = - E_BAD_ENV
    else if \<not> map_valid (target c srcid) srcva dstva perm s then r = - E_INVAL
    else r = 0 \<or> r = - E_INVAL \<and> free_pages s = [] \<and> \<not> has_pt s (env_pgdir (envs s (target c dstid))) (PDX dstva)"
proof (cases rule: resolve [OF k c, of srcid True])
  case 1
  with run show ?thesis by (simp add: sys_page_map_def)
next
  case src: 2
  show ?thesis
  proof (cases rule: resolve [OF k c, of dstid True])
    case 1
    with src run show ?thesis by (simp add: sys_page_map_def)
  next
    case dst: 2
    show ?thesis
    proof (cases "map_valid (target c srcid) srcva dstva perm s")
      case True
      have "unat (pp_ref (pages s (pte_page (env_view (target c srcid) s srcva)))) < 65535"
        using room by (simp add: refs_room_def)
      from sys_page_map_valid [OF k c src dst True this] run src dst True show ?thesis by auto
    next
      case False
      from sys_page_map_invalid [OF k c src dst(1) False] run src dst False show ?thesis by simp
    qed
  qed
qed

lemma sys_page_unmap_result:
  assumes k: "kinv s" and c: "curenv s = Some c" and run: "sys_page_unmap envid va s = Some (Returns r s')"
  shows "r = (if envid2env envid True s = Some (Inl (- E_BAD_ENV)) then - E_BAD_ENV
    else if bad_va va then - E_INVAL else 0)"
proof (cases rule: resolve [OF k c, of envid True])
  case 1
  with run show ?thesis by (simp add: sys_page_unmap_def)
next
  case 2
  with run show ?thesis by (auto simp: sys_page_unmap_def bind_eq_Some_conv split: if_splits)
qed

section \<open>Messages\<close>

text \<open>
  What is wrong with a page offered by \<^verbatim>\<open>sys_ipc_try_send\<close>, as the code tests it: of the permission
  word it looks only at the bits of \<^verbatim>\<open>PTE_SYSCALL\<close>, which the entry of the page must have.
\<close>

definition bad_offer :: "nat \<Rightarrow> u32 \<Rightarrow> u32 \<Rightarrow> kstate \<Rightarrow> bool" where
  "bad_offer c srcva perm s \<longleftrightarrow> (let w = env_view c s srcva in
     PGOFF srcva \<noteq> 0 \<or> w AND PTE_P = 0 \<or> w AND perm AND PTE_SYSCALL \<noteq> perm AND PTE_SYSCALL \<or>
     perm AND PTE_W \<noteq> 0 \<and> w AND PTE_W = 0)"

lemma ipc_send_page_result:
  assumes k: "kinv s" and c: "c \<in> in_use s" and e: "e \<in> in_use s" and room: "refs_room s" and perm: "perm < 4096"
    and src: "srcva < UTOP" "offer_readable junk c srcva s"
    and run: "ipc_send_page junk c e srcva perm s = Some (r, s')"
  shows "if bad_offer c srcva perm s then r = - E_INVAL
    else r = 0 \<or> r = - E_NO_MEM \<and> env_ipc_dstva (envs s e) < UTOP \<and> free_pages s = [] \<and>
      \<not> has_pt s (env_pgdir (envs s e)) (PDX (env_ipc_dstva (envs s e)))"
proof (cases rule: env_lookup [OF k c src(1)])
  case 1
  from ipc_send_page_absent [OF 1 src(2)] 1(2) run show ?thesis by (simp add: bad_offer_def)
next
  case (2 pp)
  note def = run [unfolded ipc_send_page_def 2(1)]
  note al = aligned_iff [of srcva]
  show ?thesis
  proof (cases "bad_offer c srcva perm s")
    case True
    with def 2(2,3) show ?thesis by (auto simp: bad_offer_def al Let_def split: if_splits)
  next
    case False
    then have ok: "PGOFF srcva = 0" "env_view c s srcva AND perm AND PTE_SYSCALL = perm AND PTE_SYSCALL"
      "\<not> (perm AND PTE_W \<noteq> 0 \<and> env_view c s srcva AND PTE_W = 0)" by (auto simp: bad_offer_def Let_def)
    show ?thesis
    proof (cases "env_ipc_dstva (envs s e) < UTOP")
      case nodst: False
      with False ok 2(2) def show ?thesis by (auto simp: al)
    next
      case True
      have "unat (pp_ref (pages s pp)) < 65535" using room by (simp add: refs_room_def)
      from env_insert [OF k e True 2(4) this perm] obtain r1 s1 where
        s1: "page_insert (env_pgdir (envs s e)) pp (env_ipc_dstva (envs s e)) perm s = Some (r1, s1)" and
        r: "r1 = - E_NO_MEM \<and> \<not> has_pt s (env_pgdir (envs s e)) (PDX (env_ipc_dstva (envs s e))) \<and> free_pages s = [] \<or> r1 = 0"
        by metis
      from r show ?thesis using False ok 2(2) True s1 def by (elim disjE conjE) (auto simp: al)
    qed
  qed
qed

lemma sys_ipc_try_send_result:
  assumes k: "kinv s" and c: "curenv s = Some c"
    and src: "srcva < UTOP \<longrightarrow> refs_room s \<and> perm < 4096 \<and> offer_readable junk c srcva s"
    and run: "sys_ipc_try_send junk envid msg srcva perm s = Some (Returns r s')"
  shows "if envid2env envid False s = Some (Inl (- E_BAD_ENV)) then r = - E_BAD_ENV
    else if \<not> env_ipc_recving (envs s (target c envid)) then r = - E_IPC_NOT_RECV
    else if srcva < UTOP \<and> bad_offer c srcva perm s then r = - E_INVAL
    else r = 0 \<or> r = - E_NO_MEM \<and> srcva < UTOP \<and> env_ipc_dstva (envs s (target c envid)) < UTOP \<and> free_pages s = [] \<and>
      \<not> has_pt s (env_pgdir (envs s (target c envid))) (PDX (env_ipc_dstva (envs s (target c envid))))"
proof (cases rule: resolve [OF k c, of envid False])
  case 1
  with run show ?thesis by (simp add: sys_ipc_try_send_def)
next
  case 2
  note def = run [unfolded sys_ipc_try_send_def 2(1)]
  have cu: "c \<in> in_use s" using kinvD(6) [OF k c] .
  show ?thesis
  proof (cases "env_ipc_recving (envs s (target c envid)) \<and> srcva < UTOP")
    case False
    with def 2(1) c show ?thesis by (auto split: if_splits)
  next
    case True
    then obtain r1 s1 where s1: "ipc_send_page junk c (target c envid) srcva perm s = Some (r1, s1)"
      using def c by (auto simp: bind_eq_Some_conv)
    have "r = r1" using def c True s1 by (auto split: if_splits)
    moreover have "refs_room s" "perm < 4096" "offer_readable junk c srcva s" using src True by simp_all
    ultimately show ?thesis
      using ipc_send_page_result [OF k cu 2(2) _ _ _ _ s1] True 2(1) by simp
  qed
qed

text \<open>
  The comment asks for \<^verbatim>\<open>-E_INVAL\<close> where \<^verbatim>\<open>sys_page_alloc\<close> would refuse the permissions, that is without
  \<^verbatim>\<open>PTE_U | PTE_P\<close> or with a bit outside of \<^verbatim>\<open>PTE_SYSCALL\<close>. The code lets such a word pass.
\<close>

lemma ipc_perm_unchecked:
  assumes "PGOFF srcva = 0" and "env_view c s srcva AND PTE_P \<noteq> 0" and "perm AND PTE_SYSCALL = 0"
  shows "bad_perm perm \<and> \<not> bad_offer c srcva perm s"
proof -
  have "perm AND q = 0" if "PTE_SYSCALL AND q = q" for q :: u32
    using that assms(3) by (metis and.assoc zero_and_eq)
  then have "perm AND PTE_W = 0" "perm AND PTE_U = 0" by simp_all
  then show ?thesis using assms by (simp add: bad_offer_def bad_perm_def and.assoc)
qed

end
