(* ===== verification/Run_Props.thy ===== *)
theory Run_Props
  imports Exits Env_Props
begin

text \<open>
  Running environments: the switch to user mode, the round-robin scheduler and its fairness,
  what every exit of the trap handler establishes, and mutual exclusion of the kernel lock.
\<close>

section \<open>Round robin\<close>

lemma find_round_robin:
  "find P (map (\<lambda>i. (b + i) mod n) [0..<n]) = Some x \<longleftrightarrow>
     (\<exists>k<n. x = (b + k) mod n \<and> P x \<and> (\<forall>j<k. \<not> P ((b + j) mod n)))"
  by (auto simp: find_Some_iff)

lemma find_round_robin_None:
  "(\<And>i. i < n \<Longrightarrow> \<not> P i) \<Longrightarrow> find P (map (\<lambda>i. (b + i) mod n) [0..<n]) = None"
  by (auto simp: find_None_iff)

lemma mod_unique: "(b + x) mod n = (b + y) mod n \<Longrightarrow> x < n \<Longrightarrow> y < n \<Longrightarrow> x = (y :: nat)"
proof (induction x y rule: linorder_wlog)
  case (le x y)
  then have "n dvd y - x" using mod_eq_dvd_iff_nat [of "b + x" "b + y" n] by simp
  with le show ?case by (auto dest: dvd_imp_le)
qed simp

text \<open>How many choices of the scheduler lie before an environment.\<close>

definition sched_distance :: "kstate \<Rightarrow> nat \<Rightarrow> nat" where
  "sched_distance s e = (e + NENV - sched_begin s mod NENV) mod NENV"

lemma sched_distance_iff:
  assumes "e < NENV" and "k < NENV"
  shows "sched_distance s e = k \<longleftrightarrow> (sched_begin s + k) mod NENV = e"
proof -
  have b: "sched_begin s mod NENV < NENV" by simp
  have "(sched_begin s + sched_distance s e) mod NENV =
      (sched_begin s mod NENV + (e + NENV - sched_begin s mod NENV)) mod NENV"
    unfolding sched_distance_def by (simp only: mod_add_left_eq mod_add_right_eq)
  also have "sched_begin s mod NENV + (e + NENV - sched_begin s mod NENV) = e + NENV" using b by linarith
  finally have d: "(sched_begin s + sched_distance s e) mod NENV = e" using assms(1) by simp
  have "sched_distance s e < NENV" by (simp add: sched_distance_def)
  with d assms show ?thesis using mod_unique [of "sched_begin s" "sched_distance s e" NENV k] by metis
qed

definition sched_choice :: "kstate \<Rightarrow> nat option" where
  "sched_choice s = find (\<lambda>index. env_status (envs s index) = ENV_RUNNABLE)
     (map (\<lambda>i. (sched_begin s + i) mod NENV) [0..<NENV])"

lemma sched_yield_choice:
  "sched_yield s = (case sched_choice s of
        Some index \<Rightarrow> env_run index s
      | None \<Rightarrow>
          (case curenv s of
             Some c \<Rightarrow> if env_status (envs s c) = ENV_RUNNING then env_run c s else sched_halt s
           | None \<Rightarrow> sched_halt s))"
  unfolding sched_yield_def sched_choice_def by (rule refl)

lemma sched_yield_picks:
  assumes "e < NENV" and "env_status (envs s e) = ENV_RUNNABLE"
  obtains k where "k \<le> sched_distance s e" "sched_choice s = Some ((sched_begin s + k) mod NENV)"
    "env_status (envs s ((sched_begin s + k) mod NENV)) = ENV_RUNNABLE"
    "\<forall>j<k. env_status (envs s ((sched_begin s + j) mod NENV)) \<noteq> ENV_RUNNABLE"
proof -
  let ?P = "\<lambda>i. env_status (envs s i) = ENV_RUNNABLE"
  let ?m = "sched_distance s e"
  have m: "?m < NENV" "(sched_begin s + ?m) mod NENV = e"
    using sched_distance_iff [OF assms(1), of ?m s] by (simp_all add: sched_distance_def)
  define k where "k = (LEAST k. ?P ((sched_begin s + k) mod NENV))"
  have k: "?P ((sched_begin s + k) mod NENV)" "k \<le> ?m"
    using m assms(2) LeastI [of "\<lambda>k. ?P ((sched_begin s + k) mod NENV)" ?m]
      Least_le [of "\<lambda>k. ?P ((sched_begin s + k) mod NENV)" ?m] by (simp_all add: k_def)
  have least: "\<forall>j<k. \<not> ?P ((sched_begin s + j) mod NENV)" unfolding k_def by (blast dest: not_less_Least)
  have "sched_choice s = Some ((sched_begin s + k) mod NENV)"
    unfolding sched_choice_def find_round_robin using k least m(1) by (intro exI [of _ k]) auto
  with k least show thesis by (intro that [of k]) auto
qed

section \<open>Switching to user mode\<close>

text \<open>
  C20. Running an environment, with the kernel lock held and its directory in kernel memory, always
  leaves for user mode in that environment: it is current, marked running on this CPU with its
  run count increased, its directory is loaded, the lock is free again, the environment that had
  the CPU before is runnable again if it was running, and nothing else of any environment changes.
\<close>

theorem env_run_correct:
  assumes "holding (kernel_lock s) (cpunum_reg s)" and "KERNBASE \<le> env_pgdir (envs s e)"
  shows "\<exists>s'. env_run e s = Some (Leaves (ToUser e) s') \<and> curenv s' = Some e \<and>
    env_status (envs s' e) = ENV_RUNNING \<and> env_runs (envs s' e) = env_runs (envs s e) + 1 \<and>
    env_cpunum (envs s' e) = cpunum_reg s \<and> env_tf (envs s' e) = env_tf (envs s e) \<and>
    cr3 s' (cpunum_reg s') = env_pgdir (envs s e) - KERNBASE \<and>
    kernel_lock s' = \<lparr>locked = 0, lk_cpu = None\<rparr> \<and>
    (\<forall>i. i \<noteq> e \<longrightarrow> envs s' i = (if curenv s = Some i \<and> env_status (envs s i) = ENV_RUNNING
       then (envs s i)\<lparr>env_status := ENV_RUNNABLE\<rparr> else envs s i))"
  using assms by (auto simp: env_run_eq run_state_def curenv_def preempted_def)

theorem env_run_correct_witness:
  "\<exists>s'. env_run 0 demo = Some (Leaves (ToUser 0) s') \<and> curenv s' = Some 0 \<and>
     kernel_lock s' = \<lparr>locked = 0, lk_cpu = None\<rparr>"
  using env_run_correct [of demo 0] by (auto simp: holding_def demo_env_def)

section \<open>Scheduling\<close>

text \<open>What \<^verbatim>\<open>sched_halt\<close> does when it does not fall into the monitor.\<close>

lemma sched_halt_state:
  assumes "holding (kernel_lock s) (cpunum_reg s)" and "KERNBASE \<le> kern_pgdir s"
  shows "if \<exists>e<NENV. env_status (envs s e) \<in> {ENV_RUNNABLE, ENV_RUNNING, ENV_DYING}
    then \<exists>s'. (sched_halt s :: unit kout option) = Some (Leaves Halted s') \<and> curenv s' = None \<and> envs s' = envs s \<and>
      cpu_status (cpus s' (cpunum_reg s')) = CPU_HALTED \<and> cr3 s' (cpunum_reg s') = kern_pgdir s - KERNBASE \<and>
      kernel_lock s' = \<lparr>locked = 0, lk_cpu = None\<rparr>
    else (sched_halt s :: unit kout option) = Some (Leaves InMonitor s)"
proof (cases "\<exists>e<NENV. env_status (envs s e) \<in> {ENV_RUNNABLE, ENV_RUNNING, ENV_DYING}")
  case True
  then have "\<not> (\<forall>i\<in>set [0..<NENV]. \<not> (env_status (envs s i) = ENV_RUNNABLE \<or>
           env_status (envs s i) = ENV_RUNNING \<or> env_status (envs s i) = ENV_DYING))"
    unfolding set_upt by auto
  with assms have "(sched_halt s :: unit kout option) = Some (Leaves Halted
      ((cpu_set_status CPU_HALTED (lcr3 (kern_pgdir s - KERNBASE) (set_curenv None s)))
         \<lparr>kernel_lock := \<lparr>locked = 0, lk_cpu = None\<rparr>\<rparr>))"
    unfolding sched_halt_def
    by (simp add: PADDR_def not_less [symmetric] unlock_kernel_def cpu_set_status_def lcr3_def set_curenv_def
        del: upt_rec_numeral)
  then show ?thesis unfolding if_P [OF True]
    by - (rule exI, rule conjI, assumption, simp add: cpu_set_status_def lcr3_def set_curenv_def curenv_def)
next
  case False
  then have "\<forall>i\<in>set [0..<NENV]. \<not> (env_status (envs s i) = ENV_RUNNABLE \<or>
           env_status (envs s i) = ENV_RUNNING \<or> env_status (envs s i) = ENV_DYING)"
    unfolding set_upt by auto
  then have "(sched_halt s :: unit kout option) = Some (Leaves InMonitor s)" unfolding sched_halt_def by (rule if_P)
  with False show ?thesis by simp
qed

text \<open>
  C21. With the kernel lock held and all directories in kernel memory, the scheduler goes round the
  table starting after the slot of the current environment, or at slot 0 if there is none. If some
  environment is runnable it leaves for user mode in the first such one in that order. Otherwise it goes
  on with the current environment if that is still running. Otherwise it halts this CPU, with no
  current environment, the kernel's directory loaded and the lock free, or enters the monitor when no
  environment is running or dying on another CPU either.
\<close>

theorem sched_yield_round_robin:
  assumes "holding (kernel_lock s) (cpunum_reg s)" and "KERNBASE \<le> kern_pgdir s"
    and "\<forall>e<NENV. env_status (envs s e) \<noteq> ENV_FREE \<longrightarrow> KERNBASE \<le> env_pgdir (envs s e)"
    and "\<forall>c. curenv s = Some c \<longrightarrow> c < NENV"
  shows "let start = (case curenv s of None \<Rightarrow> 0 | Some c \<Rightarrow> ENVX (env_id (envs s c)) + 1);
      runnable = (\<lambda>e. env_status (envs s e) = ENV_RUNNABLE);
      to_user = (\<lambda>e. \<exists>s'. (sched_yield s :: unit kout option) = Some (Leaves (ToUser e) s') \<and> curenv s' = Some e \<and>
        env_status (envs s' e) = ENV_RUNNING \<and> env_runs (envs s' e) = env_runs (envs s e) + 1)
    in (\<exists>k<NENV. runnable ((start + k) mod NENV) \<and> (\<forall>j\<in>{..<k}. \<not> runnable ((start + j) mod NENV)) \<and>
         to_user ((start + k) mod NENV)) \<or>
       (\<forall>e<NENV. \<not> runnable e) \<and>
         (\<exists>c. curenv s = Some c \<and> env_status (envs s c) = ENV_RUNNING \<and> to_user c) \<or>
       (\<forall>e<NENV. \<not> runnable e) \<and> \<not> (\<exists>c. curenv s = Some c \<and> env_status (envs s c) = ENV_RUNNING) \<and>
         (if \<exists>e<NENV. env_status (envs s e) \<in> {ENV_RUNNING, ENV_DYING}
          then \<exists>s'. (sched_yield s :: unit kout option) = Some (Leaves Halted s') \<and> curenv s' = None \<and> envs s' = envs s \<and>
            cpu_status (cpus s' (cpunum_reg s')) = CPU_HALTED \<and>
            cr3 s' (cpunum_reg s') = kern_pgdir s - KERNBASE \<and> kernel_lock s' = \<lparr>locked = 0, lk_cpu = None\<rparr>
          else (sched_yield s :: unit kout option) = Some (Leaves InMonitor s))"
proof -
  define start where "start = (case curenv s of None \<Rightarrow> 0 | Some c \<Rightarrow> ENVX (env_id (envs s c)) + 1)"
  define to_user where "to_user e \<longleftrightarrow> (\<exists>s'. (sched_yield s :: unit kout option) = Some (Leaves (ToUser e) s') \<and> curenv s' = Some e \<and>
        env_status (envs s' e) = ENV_RUNNING \<and> env_runs (envs s' e) = env_runs (envs s e) + 1)" for e
  let ?run = "\<lambda>e. env_status (envs s e) = ENV_RUNNABLE"
  have start: "sched_begin s = start" by (simp add: start_def sched_begin_def)
  have to: "to_user e" if "(sched_yield s :: unit kout option) = env_run e s" "e < NENV" "env_status (envs s e) \<noteq> ENV_FREE" for e
    using that env_run_runs [OF assms(1), of e] assms(3) by (auto simp: to_user_def runs_def)
  show ?thesis
  proof (cases "sched_choice s")
    case (Some x)
    then obtain k where "k < NENV" "x = (start + k) mod NENV" "?run x" "\<forall>j<k. \<not> ?run ((start + j) mod NENV)"
      unfolding sched_choice_def find_round_robin start by blast
    moreover from this to [of x] Some have "to_user x" by (simp add: sched_yield_choice)
    ultimately show ?thesis unfolding Let_def start_def [symmetric] to_user_def [symmetric] by blast
  next
    case None
    have no: "\<not> ?run e" if e: "e < NENV" for e
    proof
      assume "?run e"
      from sched_yield_picks [OF e this] None show False by (metis option.distinct(1))
    qed
    show ?thesis
    proof (cases "\<exists>c. curenv s = Some c \<and> env_status (envs s c) = ENV_RUNNING")
      case True
      then obtain c where c: "curenv s = Some c" "env_status (envs s c) = ENV_RUNNING" by blast
      with None to [of c] assms(4) have "to_user c" by (simp add: sched_yield_choice)
      with c no show ?thesis unfolding Let_def start_def [symmetric] to_user_def [symmetric] by blast
    next
      case False
      then have y: "(sched_yield s :: unit kout option) = sched_halt s" using None by (auto simp: sched_yield_choice split: option.split)
      have "(\<exists>e<NENV. env_status (envs s e) \<in> {ENV_RUNNABLE, ENV_RUNNING, ENV_DYING}) \<longleftrightarrow>
          (\<exists>e<NENV. env_status (envs s e) \<in> {ENV_RUNNING, ENV_DYING})" using no by auto
      with sched_halt_state [OF assms(1,2)] False no y show ?thesis unfolding Let_def by simp
    qed
  qed
qed

theorem sched_yield_round_robin_witness:
  "\<exists>s'. (sched_yield demo :: unit kout option) = Some (Leaves (ToUser 0) s') \<and> curenv s' = Some 0"
proof -
  have no: "\<not> env_status (envs demo e) = ENV_RUNNABLE" for e by (simp add: demo_env_def env_zero_def)
  have d: "\<forall>e<NENV. env_status (envs demo e) \<noteq> ENV_FREE \<longrightarrow> KERNBASE \<le> env_pgdir (envs demo e)"
    by (simp add: demo_env_def env_zero_def)
  have "holding (kernel_lock demo) (cpunum_reg demo)" "KERNBASE \<le> kern_pgdir demo" "\<forall>c. curenv demo = Some c \<longrightarrow> c < NENV"
    by (simp_all add: holding_def)
  moreover have cur: "curenv demo = Some 0" "env_status (envs demo 0) = ENV_RUNNING" by (simp_all add: demo_env_def)
  ultimately have cur: "\<exists>c. curenv demo = Some c \<and> env_status (envs demo c) = ENV_RUNNING"
    "holding (kernel_lock demo) (cpunum_reg demo)" "KERNBASE \<le> kern_pgdir demo" "\<forall>c. curenv demo = Some c \<longrightarrow> c < NENV"
    by blast+
  from sched_yield_round_robin [OF cur(2,3) d cur(4)] no cur(1)
  have "\<exists>c. curenv demo = Some c \<and> env_status (envs demo c) = ENV_RUNNING \<and>
      (\<exists>s'. (sched_yield demo :: unit kout option) = Some (Leaves (ToUser c) s') \<and> curenv s' = Some c)"
    unfolding Let_def by blast
  then show ?thesis using demo_curenv by auto
qed

text \<open>
  Rounds in which environment \<open>e\<close> is runnable and another one is chosen, counted from state \<open>s\<close>. Between
  two choices the kernel and the programs may do anything that leaves \<open>e\<close> runnable and the environment
  chosen last current in its slot. (An environment that is destroyed, or a CPU that halts, clears
  \<^verbatim>\<open>curenv\<close>, and the scan starts over at slot 0.)
\<close>

inductive passed_over :: "nat \<Rightarrow> nat \<Rightarrow> kstate \<Rightarrow> kstate \<Rightarrow> bool" for e :: nat where
  no_round: "env_status (envs s e) = ENV_RUNNABLE \<Longrightarrow> passed_over e 0 s s"
| one_round: "passed_over e n s s1 \<Longrightarrow> sched_yield s1 = Some (Leaves (ToUser i) s2 :: unit kout) \<Longrightarrow> i \<noteq> e \<Longrightarrow>
    curenv s' = Some i \<Longrightarrow> ENVX (env_id (envs s' i)) = i \<Longrightarrow> env_status (envs s' e) = ENV_RUNNABLE \<Longrightarrow>
    passed_over e (Suc n) s s'"

lemma passed_over_runnable: "passed_over e n s s' \<Longrightarrow> env_status (envs s' e) = ENV_RUNNABLE"
  by (induction rule: passed_over.induct)

lemma round_distance:
  assumes "e < NENV" and "env_status (envs s e) = ENV_RUNNABLE"
    and "sched_yield s = Some (Leaves (ToUser i) s1 :: unit kout)" and "i \<noteq> e"
    and "curenv s' = Some i" and "ENVX (env_id (envs s' i)) = i"
  shows "sched_distance s' e < sched_distance s e"
proof -
  let ?b = "sched_begin s" and ?m = "sched_distance s e"
  from sched_yield_picks [OF assms(1,2)] obtain k where
    k: "k \<le> ?m" "sched_choice s = Some ((?b + k) mod NENV)"
    "env_status (envs s ((?b + k) mod NENV)) = ENV_RUNNABLE" by metis
  have m: "?m < NENV" "(?b + ?m) mod NENV = e"
    using sched_distance_iff [OF assms(1), of ?m s] by (simp_all add: sched_distance_def)
  note run_eq = assms(3) [unfolded sched_yield_choice k(2) option.case]
  have run: "i = (?b + k) mod NENV" by (rule env_run_cases [OF run_eq]) simp
  have km: "k < ?m" using assms(4) run m(2) k(1) by (metis le_neq_implies_less)
  have "sched_begin s' = i + 1" using assms(5,6) by (simp add: sched_begin_def)
  then have "(sched_begin s' + (?m - k - 1)) mod NENV = ((?b + k) mod NENV + (1 + (?m - k - 1))) mod NENV"
    by (simp only: run add.assoc)
  also have "\<dots> = (?b + k + (1 + (?m - k - 1))) mod NENV" by (simp only: mod_add_left_eq)
  also have "?b + k + (1 + (?m - k - 1)) = ?b + ?m" using km by simp
  finally have "sched_distance s' e = ?m - k - 1"
    using m sched_distance_iff [OF assms(1), of "?m - k - 1" s'] by simp
  then show ?thesis using km by simp
qed

lemma passed_over_distance:
  assumes "passed_over e n s s'" and "e < NENV"
  shows "n + sched_distance s' e \<le> sched_distance s e"
  using assms
proof (induction rule: passed_over.induct)
  case (one_round n s s1 i s2 s')
  from round_distance [OF one_round(8) passed_over_runnable [OF one_round(1)] one_round(2-5)] one_round(7,8)
  show ?case by simp
qed simp

text \<open>
  C12. Fairness: as long as the environment chosen last stays the current one of its CPU, a runnable
  environment is passed over at most 1023 times. Each round moves it closer to its turn, every choice is
  made among the slots of the table, and it is chosen at the latest after 1023 choices of others.
\<close>

theorem sched_yield_fair:
  assumes "e < NENV" and "passed_over e n s s'"
  shows "n \<le> 1023 \<and> n + sched_distance s' e \<le> sched_distance s e \<and>
    (\<exists>i<NENV. (sched_yield s' :: unit kout option) = env_run i s' \<and>
       (n = 1023 \<or> sched_distance s' e = 0 \<longrightarrow> i = e))"
proof -
  note d = passed_over_distance [OF assms(2,1)]
  from sched_yield_picks [OF assms(1) passed_over_runnable [OF assms(2)]] obtain k where
    k: "k \<le> sched_distance s' e" "sched_choice s' = Some ((sched_begin s' + k) mod NENV)" by metis
  have bound: "sched_distance s e < NENV" by (simp add: sched_distance_def)
  then have n: "n \<le> 1023" "n = 1023 \<longrightarrow> sched_distance s' e = 0" using d by simp_all
  have "(sched_begin s' + k) mod NENV = e" if "sched_distance s' e = 0"
    using that k(1) sched_distance_iff [OF assms(1), of 0 s'] by simp
  with k(2) n d show ?thesis
    by (intro conjI exI [of _ "(sched_begin s' + k) mod NENV"]) (auto simp: sched_yield_choice)
qed

theorem sched_yield_fair_witness:
  "\<exists>s s'. passed_over 2 1 s s' \<and> (sched_yield s' :: unit kout option) = env_run 2 s'"
proof -
  define s where "s = demo\<lparr>envs := (\<lambda>i. if i = 0 then demo_env 0
    else env_zero\<lparr>env_status := (if i = 1 \<or> i = 2 then ENV_RUNNABLE else ENV_FREE),
      env_id := of_nat i, env_pgdir := 0xF0008000\<rparr>)\<rparr>"
  have b: "sched_begin s = 1" by (simp add: s_def sched_begin_def curenv_def demo_cpu_def demo_env_def ENVX_def)
  have st: "env_status (envs s i) = (if i = 0 then ENV_RUNNING else if i = 1 \<or> i = 2 then ENV_RUNNABLE else ENV_FREE)"
    for i by (simp add: s_def demo_env_def env_zero_def)
  have "sched_choice s = Some 1"
    unfolding sched_choice_def find_round_robin using b st by (intro exI [of _ 0]) simp
  then have y: "sched_yield s = (env_run 1 s :: unit kout option)" by (simp add: sched_yield_choice)
  have "holding (kernel_lock s) (cpunum_reg s)" "KERNBASE \<le> env_pgdir (envs s 1)"
    by (simp_all add: s_def holding_def env_zero_def)
  then have r: "sched_yield s = Some (Leaves (ToUser 1) (run_state 1 s) :: unit kout)"
    by (simp add: y env_run_eq)
  have f: "curenv (run_state 1 s) = Some 1" "ENVX (env_id (envs (run_state 1 s) 1)) = 1"
    "env_status (envs (run_state 1 s) 2) = ENV_RUNNABLE"
    using st [of 2] by (simp_all add: run_state_def curenv_def preempted_def) (simp_all add: s_def ENVX_def)
  have p: "passed_over 2 (Suc 0) s (run_state 1 s)"
    by (rule one_round [OF no_round r]) (use f st in simp_all)
  have "sched_distance (run_state 1 s) 2 = 0" using f by (simp add: sched_distance_def sched_begin_def)
  with sched_yield_fair [OF _ p] have "(sched_yield (run_state 1 s) :: unit kout option) = env_run 2 (run_state 1 s)"
    by simp
  with p show ?thesis by (intro exI [of _ s] exI [of _ "run_state 1 s"]) simp
qed

section \<open>Leaving the kernel\<close>

text \<open>
  C2. The trap handler never returns to its caller, and whichever way it leaves the kernel it leaves
  it in order. On the way to user mode the environment it resumes is current, marked running on
  this CPU, its own directory is loaded and the kernel lock is free. A CPU that halts has no
  current environment, has loaded the kernel's directory, is marked halted and has freed the
  lock. A CPU that spins does so on a lock that is held and not by itself.
\<close>

theorem kernel_exit_safe:
  assumes "trap panicked eflags cr2 junk tf s = Some r"
  shows "\<exists>x s'. r = Leaves x s' \<and>
    (\<forall>e. x = ToUser e \<longrightarrow> curenv s' = Some e \<and> env_status (envs s' e) = ENV_RUNNING \<and>
       env_cpunum (envs s' e) = cpunum_reg s' \<and> KERNBASE \<le> env_pgdir (envs s' e) \<and>
       cr3 s' (cpunum_reg s') = env_pgdir (envs s' e) - KERNBASE \<and>
       kernel_lock s' = \<lparr>locked = 0, lk_cpu = None\<rparr>) \<and>
    (x = Halted \<longrightarrow> curenv s' = None \<and> cpu_status (cpus s' (cpunum_reg s')) = CPU_HALTED \<and>
       cr3 s' (cpunum_reg s') = kern_pgdir s' - KERNBASE \<and>
       kernel_lock s' = \<lparr>locked = 0, lk_cpu = None\<rparr>) \<and>
    (x = Spinning \<longrightarrow> locked (kernel_lock s') \<noteq> 0 \<and> lk_cpu (kernel_lock s') \<noteq> Some (cpunum_reg s'))"
proof -
  from trap_exit(2) [of panicked eflags cr2 junk tf s] assms obtain x s' where r: "r = Leaves x s'"
    by (cases r) (auto simp: no_return_def)
  with trap_exit(1) [of panicked eflags cr2 junk tf s] assms have "exit_ok x s'" by (simp add: good_def)
  with r show ?thesis by (auto simp: exit_ok_def)
qed

theorem kernel_exit_safe_witness:
  "\<exists>s'. trap False 0 0 0 (tf_user\<lparr>tf_trapno := IRQ_OFFSET + IRQ_TIMER\<rparr>)
       (demo\<lparr>kernel_lock := \<lparr>locked = 0, lk_cpu = None\<rparr>\<rparr>) = Some (Leaves (ToUser 0) s') \<and>
     curenv s' = Some 0 \<and> kernel_lock s' = \<lparr>locked = 0, lk_cpu = None\<rparr>"
proof -
  let ?tf = "tf_user\<lparr>tf_trapno := IRQ_OFFSET + IRQ_TIMER\<rparr>"
  let ?s = "demo\<lparr>kernel_lock := \<lparr>locked = 0, lk_cpu = None\<rparr>\<rparr>"
  define s1 where "s1 = (upd_env 0 (\<lambda>v. v\<lparr>env_tf := ?tf\<rparr>) (cpu_set_status CPU_STARTED demo))"
  have cs: "tf_cs ?tf AND 3 = 3" by (simp add: tf_user_def)
  have "sched_choice s1 = None"
    unfolding sched_choice_def
    by (intro find_round_robin_None) (simp add: s1_def upd_env_def cpu_set_status_def demo_env_def env_zero_def)
  then have "sched_yield s1 = (env_run 0 s1 :: unit kout option)"
    by (simp add: sched_yield_choice s1_def upd_env_def cpu_set_status_def curenv_def demo_cpu_def demo_env_def)
  moreover have "holding (kernel_lock s1) (cpunum_reg s1)" "KERNBASE \<le> env_pgdir (envs s1 0)"
    by (simp_all add: s1_def upd_env_def cpu_set_status_def holding_def demo_env_def)
  ultimately have y: "sched_yield s1 = (Some (Leaves (ToUser 0) (run_state 0 s1)) :: unit kout option)"
    by (simp add: env_run_eq)
  have t: "get_tf (EnvTf 0) s1 = ?tf" by (simp add: get_tf_def s1_def upd_env_def cpu_set_status_def)
  have l: "lock_kernel (cpu_set_status CPU_STARTED ?s) = Some (Returns () (cpu_set_status CPU_STARTED demo))"
    by (simp add: lock_kernel_def holding_def cpu_set_status_def demo_def)
  have cur: "curenv (cpu_set_status CPU_STARTED ?s) = Some 0"
    and st: "cpu_status (cpus ?s (cpunum_reg ?s)) = CPU_STARTED"
    and ns: "env_status (envs (cpu_set_status CPU_STARTED demo) 0) = ENV_RUNNING"
    by (simp_all add: cpu_set_status_def curenv_def demo_cpu_def demo_env_def)
  have "trap_user_entry ?tf (cpu_set_status CPU_STARTED ?s) = Some (Returns (EnvTf 0) s1)"
    by (simp only: trap_user_entry_def cur l ns option.case kbind_simps s1_def) simp
  moreover have "trap_dispatch 0 0 (EnvTf 0) s1 = Some (Leaves (ToUser 0) (run_state 0 s1))"
    unfolding trap_dispatch_def t Let_def by (simp add: y)
  ultimately have "trap False 0 0 0 ?tf ?s = Some (Leaves (ToUser 0) (run_state 0 s1))"
    unfolding trap_def Let_def st using cs by simp
  from kernel_exit_safe [OF this] this show ?thesis by auto
qed

section \<open>The kernel lock\<close>

text \<open>
  C11. In every interleaving of CPUs that take and release the lock, at most one CPU is past the
  exchange that took it, the lock word is zero exactly when there is none, and neither of the two
  debugging checks ever panics.
\<close>

theorem lock_mutual_exclusion:
  assumes "lreach s"
  shows "(\<forall>c d. owns (lpc_of s c) \<and> owns (lpc_of s d) \<longrightarrow> c = d) \<and>
    (locked (lk s) = 0 \<longleftrightarrow> (\<forall>c. \<not> owns (lpc_of s c))) \<and> (\<forall>c. lpc_of s c \<noteq> Panicked)"
proof -
  note inv = lock_inv_reach [OF assms]
  from inv have "locked (lk s) = 0 \<longleftrightarrow> (\<forall>c. \<not> owns (lpc_of s c))"
    unfolding lock_inv_def owner_def by (cases "locked (lk s) = 0") auto
  with inv show ?thesis using lock_inv_exclusive [OF inv] by (auto simp: lock_inv_def)
qed

theorem lock_mutual_exclusion_witness:
  "\<exists>s. lreach s \<and> lpc_of s 0 = Acquired \<and> \<not> owns (lpc_of s 1)"
proof -
  define i where "i = \<lparr>lk = \<lparr>locked = 0, lk_cpu = None\<rparr>, lpc_of = (\<lambda>_. Outside)\<rparr>"
  define s1 where "s1 = goto 0 Trying i"
  define s2 where "s2 = goto 0 Acquired (s1\<lparr>lk := (lk s1)\<lparr>locked := 1\<rparr>\<rparr>)"
  have "lreach i" unfolding i_def by (rule lreach.init)
  moreover have "lstep i s1" unfolding s1_def by (rule lock_call) (simp_all add: i_def holding_def)
  moreover have "lstep s1 s2" unfolding s2_def by (rule xchg_free) (simp_all add: s1_def i_def goto_def)
  ultimately have r: "lreach s2" by (blast intro: lreach.step)
  have "lpc_of s2 0 = Acquired" by (simp add: s2_def goto_def)
  with r lock_mutual_exclusion [OF r] show ?thesis by (intro exI [of _ s2]) (metis owns_simps(1) zero_neq_one)
qed

end
