(* ===== verification/Vm_Props.thy ===== *)
theory Vm_Props
  imports Spaces Demo
begin

text \<open>
  The properties of the memory subsystem: the page allocator, mapping and unmapping across
  address spaces, the static regions and the check of user pointers. Each is instantiated on the
  concrete state of the demonstration theory.
\<close>

section \<open>Instances\<close>

abbreviation (input) demo_dirs :: "u32 set" where "demo_dirs \<equiv> {0xF0008000, 0xF0006000}"

lemma demo_spaces_ok: "spaces_ok demo demo_dirs"
  by (simp add: spaces_ok_def demo_pages_ok demo_pgdir_ok own_frames_def frames_def mapped_def)

lemma demo_shared: "shared_data demo demo_dirs 12"
  by (simp add: shared_data_def demo_data_page)

section \<open>Mapping\<close>

text \<open>
  C3. Mapping a page in one of several well-formed address spaces either reports that no page
  table could be allocated and changes nothing, or returns 0 with exactly the requested entry at
  that page, every other entry of the space as before, the invariant of all spaces kept
  (disjoint page tables, no mapped page on the free list, reference counts not below the number
  of mappings) and the user part of every other space unchanged.
\<close>

theorem page_insert_correct:
  assumes "spaces_ok s D" and "d \<in> D" and "va < UTOP" and "shared_data s D pp"
    and "unat (pp_ref (pages s pp)) < 65535" and "perm < 4096"
  shows "page_insert d pp va perm s = Some (- E_NO_MEM, s) \<and> \<not> has_pt s d (PDX va) \<and> free_pages s = [] \<or>
    (\<exists>s'. page_insert d pp va perm s = Some (0, s') \<and> spaces_ok s' D \<and>
      (\<forall>v < UTOP. pte_of s' d v =
         (if PTE_ADDR v = PTE_ADDR va then page2pa pp OR perm OR PTE_P else pte_of s d v)) \<and>
      (\<forall>d'\<in>D. d' \<noteq> d \<longrightarrow> user_view d' s' = user_view d' s))"
  using assms
proof (cases rule: insert_local_change)
  case no_mem
  then show ?thesis by blast
next
  case (inserted s')
  with local_change_ok [OF assms(1) inserted(2) assms(2)] user_view_other [OF assms(1) inserted(2) assms(2)]
    user_slot(1)
  show ?thesis by (intro disjI2 exI [of _ s']) auto
qed

theorem page_insert_correct_witness:
  "\<exists>s'. page_insert 0xF0008000 12 0x800000 PTE_U demo = Some (0, s') \<and> spaces_ok s' demo_dirs \<and>
     pte_of s' 0xF0008000 0x800000 = 0xC005 \<and> user_view 0xF0006000 s' = user_view 0xF0006000 demo"
proof -
  have "\<exists>s'. page_insert 0xF0008000 12 0x800000 PTE_U demo = Some (0, s') \<and> spaces_ok s' demo_dirs \<and>
      (\<forall>v < UTOP. pte_of s' 0xF0008000 v =
         (if PTE_ADDR v = PTE_ADDR 0x800000 then page2pa 12 OR PTE_U OR PTE_P else pte_of demo 0xF0008000 v)) \<and>
      (\<forall>d'\<in>demo_dirs. d' \<noteq> 0xF0008000 \<longrightarrow> user_view d' s' = user_view d' demo)"
    using page_insert_correct [OF demo_spaces_ok _ _ demo_shared, of "0xF0008000" "0x800000" PTE_U]
    by (simp add: demo_free demo_page_def)
  then show ?thesis by (auto simp: page2pa_def push_bit_eq_mult)
qed

text \<open>
  C14. Unmapping a user page always completes: nothing happens when no page is mapped there;
  otherwise exactly that entry is cleared, the reference count of the page that was mapped drops
  by one, the page is free if that was the last reference, no free page is lost, the invariant of all
  spaces is kept and the other spaces are unchanged.
\<close>

theorem page_remove_correct:
  assumes "spaces_ok s D" and "d \<in> D" and "va < UTOP"
  shows "\<exists>s'. page_remove d va s = Some s' \<and> spaces_ok s' D \<and>
    (pte_of s d va AND PTE_P = 0 \<longrightarrow> s' = s) \<and>
    (pte_of s d va AND PTE_P \<noteq> 0 \<longrightarrow>
      (\<forall>v < UTOP. pte_of s' d v = (if PTE_ADDR v = PTE_ADDR va then 0 else pte_of s d v)) \<and>
      (\<forall>i. pp_ref (pages s' i) = pp_ref (pages s i) - (if i = unat (PGNUM (pte_of s d va)) then 1 else 0)) \<and>
      (pp_ref (pages s (unat (PGNUM (pte_of s d va)))) = 1 \<longrightarrow> unat (PGNUM (pte_of s d va)) \<in> set (free_pages s')) \<and>
      set (free_pages s) \<subseteq> set (free_pages s')) \<and>
    (\<forall>d'\<in>D. d' \<noteq> d \<longrightarrow> user_view d' s' = user_view d' s)"
proof (cases "pte_of s d va AND PTE_P = 0")
  case True
  then show ?thesis
    using assms page_remove_unmapped [of s d va] user_slot(1) by (auto simp: spaces_ok_def)
next
  case False
  from remove_local_change [OF assms False] obtain s' where
    s': "page_remove d va s = Some s'" "local_change d D s s'"
    "\<And>v. tree_slot (PDX v) \<Longrightarrow> pte_of s' d v = (if PTE_ADDR v = PTE_ADDR va then 0 else pte_of s d v)"
    "\<And>i. pp_ref (pages s' i) = pp_ref (pages s i) - (if i = pte_page (pte_of s d va) then 1 else 0)"
    "pp_ref (pages s (pte_page (pte_of s d va))) = 1 \<Longrightarrow> pte_page (pte_of s d va) \<in> set (free_pages s')"
    "set (free_pages s) \<subseteq> set (free_pages s')"
    by metis
  with False local_change_ok [OF assms(1) s'(2) assms(2)] user_view_other [OF assms(1) s'(2) assms(2)]
    user_slot(1)
  show ?thesis by (intro exI [of _ s']) auto
qed

lemma demo_inserted:
  obtains s where "page_insert 0xF0008000 12 0x800000 PTE_U demo = Some (0, s)" "spaces_ok s demo_dirs"
    "pte_of s 0xF0008000 0x800000 = 0xC005"
proof -
  have r: "unat (pp_ref (pages demo 12)) < 65535" "PTE_U < 4096" "(0x800000 :: u32) < UTOP" "0xF0008000 \<in> demo_dirs"
    by (simp_all add: demo_page_def)
  from demo_spaces_ok r(4,3) demo_shared r(1,2) show thesis
  proof (cases rule: insert_local_change)
    case no_mem
    then show thesis by (simp add: demo_free)
  next
    case (inserted s')
    from inserted(5) [OF user_slot(1) [OF r(3)]] have "pte_of s' 0xF0008000 0x800000 = 0xC005"
      by (simp add: page2pa_def push_bit_eq_mult)
    with that inserted(1) local_change_ok [OF demo_spaces_ok inserted(2) r(4)] show thesis by blast
  qed
qed

theorem page_remove_correct_witness:
  "\<exists>s s'. page_insert 0xF0008000 12 0x800000 PTE_U demo = Some (0, s) \<and> pte_of s 0xF0008000 0x800000 = 0xC005 \<and>
     page_remove 0xF0008000 0x800000 s = Some s' \<and> spaces_ok s' demo_dirs \<and> pte_of s' 0xF0008000 0x800000 = 0 \<and>
     pp_ref (pages s' 12) = pp_ref (pages s 12) - 1"
proof -
  obtain s where s: "page_insert 0xF0008000 12 0x800000 PTE_U demo = Some (0, s)" "spaces_ok s demo_dirs"
    "pte_of s 0xF0008000 0x800000 = 0xC005" by (rule demo_inserted)
  have n: "unat (PGNUM 0xC005) = 12" by (simp add: PGNUM_def drop_bit_eq_div)
  from page_remove_correct [OF s(2), of "0xF0008000" "0x800000"] obtain s' where
    s': "page_remove 0xF0008000 0x800000 s = Some s'" "spaces_ok s' demo_dirs"
    "\<forall>v < UTOP. pte_of s' 0xF0008000 v = (if PTE_ADDR v = PTE_ADDR 0x800000 then 0 else pte_of s 0xF0008000 v)"
    "\<forall>i. pp_ref (pages s' i) = pp_ref (pages s i) - (if i = 12 then 1 else 0)"
    by (auto simp: s(3) n)
  with s show ?thesis by (intro exI [of _ s] exI [of _ s']) simp
qed

text \<open>C15. Looking up a page just mapped finds that page and the place of its entry.\<close>

theorem lookup_after_insert:
  assumes "spaces_ok s D" and "d \<in> D" and "va < UTOP" and "shared_data s D pp"
    and "unat (pp_ref (pages s pp)) < 65535" and "perm < 4096"
    and "page_insert d pp va perm s = Some (0, s')"
  shows "page_lookup d va s' = Some (Some (pp, pte_ptr s' d va)) \<and>
    ld s' (pte_ptr s' d va) = page2pa pp OR perm OR PTE_P"
  using assms(1-6)
proof (cases rule: insert_local_change)
  case no_mem
  with assms(7) show ?thesis by simp
next
  case (inserted s'')
  with assms(7) have s: "s'' = s'" by simp
  note t = user_slot(1) [OF assms(3)]
  have pte: "pte_of s' d va = page2pa pp OR perm OR PTE_P" using inserted(5) [OF t] s by simp
  have "spaces_ok s' D" using local_change_ok [OF assms(1) inserted(2) assms(2)] s by simp
  then have pd: "pgdir_ok s' d" using assms(2) by (simp add: spaces_ok_def)
  have dp: "data_page s d pp" using assms(2,4) by (simp add: shared_data_def)
  have lt: "pp < 1048576" using dp pages_okD(4) [of s] assms(1) by (auto simp: data_page_def spaces_ok_def)
  note e = entry_page [OF lt assms(6)]
  have n: "npages s' = npages s" using vm_frame_fields(1) [OF inserted(4)] s by simp
  have "has_pt s' d (PDX va)" using pte e(2) pte_of_no_pt [OF t] by fastforce
  with ld_pte have "ld s' (pte_ptr s' d va) = page2pa pp OR perm OR PTE_P" using pte by simp
  moreover have "\<not> npages s' \<le> PGNUM (page2pa pp OR perm OR PTE_P)"
    using dp e(1) n by (simp add: data_page_def word_le_nat_alt)
  ultimately show ?thesis using page_lookup_eq [OF pd t] pte e by simp
qed

theorem lookup_after_insert_witness:
  "\<exists>s'. page_insert 0xF0008000 12 0x800000 PTE_U demo = Some (0, s') \<and>
     page_lookup 0xF0008000 0x800000 s' = Some (Some (12, pte_ptr s' 0xF0008000 0x800000))"
proof -
  from page_insert_spec [OF demo_pages_ok demo_pgdir_ok(1) user_slot(1) demo_data_page(1), of "0x800000" PTE_U]
  obtain s' where s': "page_insert 0xF0008000 12 0x800000 PTE_U demo = Some (0, s')"
    by (auto simp: demo_free)
  with lookup_after_insert [OF demo_spaces_ok _ _ demo_shared, of "0xF0008000" "0x800000" PTE_U s']
  show ?thesis by (auto simp: demo_page_def)
qed

text \<open>
  C13. Isolation over time: every sequence of admissible mappings and unmappings in a set of
  address spaces runs to completion, keeps the invariant, and leaves the user part of every space
  that no operation of the sequence names exactly as it was.
\<close>

theorem vm_run_isolated:
  assumes "spaces_ok s D" and "admissible_run (vm_admissible D) vm_step ops s"
  shows "\<exists>s'. foldM vm_step ops s = Some s' \<and> spaces_ok s' D \<and>
    (\<forall>d\<in>D. d \<notin> vm_target ` set ops \<longrightarrow> user_view d s' = user_view d s)"
  using assms by (rule vm_spaces.run_ok)

theorem vm_run_isolated_witness:
  "\<exists>s'. foldM vm_step [Remove 0xF0008000 0, Insert 0xF0008000 12 0x800000 PTE_U] demo = Some s' \<and>
     spaces_ok s' demo_dirs \<and> user_view 0xF0006000 s' = user_view 0xF0006000 demo"
proof -
  have "page_remove 0xF0008000 0 demo = Some demo"
    by (rule page_remove_unmapped [OF demo_pgdir_ok(1)]) (simp_all add: user_slot(1))
  then have "admissible_run (vm_admissible demo_dirs) vm_step
      [Remove 0xF0008000 0, Insert 0xF0008000 12 0x800000 PTE_U] demo"
    by (simp add: demo_shared demo_page_def split: option.split)
  from vm_run_isolated [OF demo_spaces_ok this] show ?thesis by auto
qed

section \<open>The page allocator\<close>

text \<open>
  As long as enough pages are free, \<open>n\<close> successive allocations all succeed and return \<open>n\<close>
  pairwise different pages, none of which is on the free list afterwards; the allocator's
  invariant is kept.
\<close>

theorem page_alloc_distinct:
  assumes "pages_ok s" and "n \<le> length (free_pages s)"
  shows "\<exists>ps s'. free_store.alloc_n (page_alloc flags) n s = Some (ps, s') \<and> pages_ok s' \<and>
    distinct ps \<and> length ps = n \<and> set ps \<inter> set (free_pages s') = {}"
proof -
  from page_store.alloc_n_takes [OF assms, of flags] obtain s' where
    s': "free_store.alloc_n (page_alloc flags) n s = Some (take n (free_pages s), s')" "pages_ok s'" by blast
  from page_store.alloc_n_distinct [OF assms(1) s'(1) assms(2)] s' show ?thesis by blast
qed

theorem page_alloc_distinct_witness:
  "\<exists>ps s'. free_store.alloc_n (page_alloc 0) 3 demo = Some (ps, s') \<and> distinct ps \<and> length ps = 3"
  using page_alloc_distinct [OF demo_pages_ok, of 3 0] by (auto simp: demo_free)

text \<open>
  An allocation with \<^verbatim>\<open>ALLOC_ZERO\<close> takes the head of the free list, clears every word of that
  page and no other memory, leaves its reference count at zero and unlinks it; with an empty
  list it returns null and changes nothing.
\<close>

theorem page_alloc_zeroes:
  assumes "pages_ok s"
  shows "(case free_pages s of
      [] \<Rightarrow> page_alloc ALLOC_ZERO s = Some (None, s)
    | x # xs \<Rightarrow> \<exists>s'. page_alloc ALLOC_ZERO s = Some (Some x, s') \<and> pages_ok s' \<and> free_pages s' = xs \<and>
        page_idle s' x \<and> (\<forall>a. phys s' a = (if PTE_ADDR a = page2pa x then 0 else phys s a)))"
proof (cases "free_pages s")
  case Nil
  with page_alloc_empty [OF assms] show ?thesis by simp
next
  case (Cons x xs)
  note h = page_alloc_hd [OF assms Cons, of ALLOC_ZERO]
  from page_alloc_takes [OF assms Cons h] h Cons show ?thesis by simp
qed

theorem page_alloc_zeroes_witness:
  "\<exists>s'. page_alloc ALLOC_ZERO demo = Some (Some 9, s') \<and> free_pages s' = [10, 11] \<and> phys s' 0x9000 = 0"
proof -
  have "\<exists>s'. page_alloc ALLOC_ZERO demo = Some (Some 9, s') \<and> free_pages s' = [10, 11] \<and>
      (\<forall>a. phys s' a = (if PTE_ADDR a = page2pa 9 then 0 else phys demo a))"
    using page_alloc_zeroes [OF demo_pages_ok] by (auto simp: demo_free)
  then show ?thesis by auto
qed

text \<open>
  A page whose last reference is dropped goes back to the free list and is the next page
  handed out; the rest of the list is as it was.
\<close>

theorem page_decref_recycles:
  assumes "pages_ok s" and "pp < unat (npages s)" and "pp \<notin> set (free_pages s)"
    and "pp_ref (pages s pp) = 1" and "pp_link (pages s pp) = None"
  shows "\<exists>s1 s2. page_decref pp s = Some s1 \<and> free_pages s1 = pp # free_pages s \<and>
    page_alloc flags s1 = Some (Some pp, s2) \<and> pages_ok s2 \<and> free_pages s2 = free_pages s"
proof -
  from page_decref_last [OF assms] obtain s1 where
    s1: "page_decref pp s = Some s1" "pages_ok s1" "free_pages s1 = pp # free_pages s" by blast
  from page_store.alloc_hd [OF s1(2,3), of flags] s1 show ?thesis by blast
qed

theorem page_decref_recycles_witness:
  "\<exists>s1 s2. page_decref 12 demo = Some s1 \<and> page_alloc 0 s1 = Some (Some 12, s2) \<and>
     free_pages s2 = [9, 10, 11]"
  using page_decref_recycles [OF demo_pages_ok, of 12 0] by (auto simp: demo_free demo_page_def)

text \<open>
  C22. \<^verbatim>\<open>page_init\<close> puts exactly the usable pages on the free list (not page 0, not the I/O hole and
  the kernel image above it up to the boot allocator's mark, not the page of the startup code of
  the other CPUs) and gives every other page the reference count 1.
\<close>

theorem page_init_correct:
  assumes "page_free_list s = None" and "unat (npages s) \<le> 1048576"
    and "boot_alloc kend 0 s = Some (a, s1)" and "PADDR a = Some pa"
  shows "\<exists>s'. page_init kend s = Some s' \<and> pages_ok s' \<and>
    (\<forall>i. i \<in> set (free_pages s') \<longleftrightarrow> i < unat (npages s) \<and> i \<noteq> 0 \<and> i \<noteq> 7 \<and>
       \<not> (unat (IOPHYSMEM div PGSIZE) \<le> i \<and> i < unat (pa div PGSIZE))) \<and>
    (\<forall>i < unat (npages s). pp_ref (pages s' i) = (if i \<in> set (free_pages s') then 0 else 1))"
proof -
  from page_init_result [OF assms] obtain s' where
    s': "page_init kend s = Some s'" "pages_ok s'"
    "free_pages s' = rev (filter (page_usable (unat (pa div PGSIZE))) [0..<unat (npages s)])"
    "\<forall>i < unat (npages s). pp_ref (pages s' i) = (if i \<in> set (free_pages s') then 0 else 1)" by blast
  moreover have "i \<in> set (free_pages s') \<longleftrightarrow> i < unat (npages s) \<and> page_usable (unat (pa div PGSIZE)) i" for i
    unfolding s'(3) by auto
  ultimately show ?thesis by (intro exI [of _ s']) (auto simp: page_usable_def)
qed

theorem page_init_correct_witness:
  "\<exists>s'. page_init 0xF0009000 (demo\<lparr>page_free_list := None\<rparr>) = Some s' \<and> pages_ok s' \<and>
     8 \<in> set (free_pages s') \<and> 7 \<notin> set (free_pages s')"
proof -
  have b: "boot_alloc 0xF0009000 0 (demo\<lparr>page_free_list := None\<rparr>) =
      Some (0xF0009000, demo\<lparr>page_free_list := None\<rparr>)"
    by (simp add: boot_alloc_def ROUNDUP_def ROUNDDOWN_def demo_def)
  from page_init_correct [OF _ _ b, of "0x9000"] show ?thesis
    by (auto simp: PADDR_def)
qed

section \<open>Regions\<close>

text \<open>
  C23. When the free list holds enough pages for the page tables that are missing, mapping a
  region of \<open>n\<close> pages completes, every page of the region gets its entry with the given
  permissions, no other entry of the directory changes, and no reference count of a page that
  was in use changes.
\<close>

theorem boot_map_region_correct:
  assumes "pages_ok s" and "pgdir_ok s pgdir" and "PGOFF va = 0" and "n < 1048576"
    and "\<forall>k<n. tree_slot (PDX (va + of_nat k * PGSIZE))"
    and "card (missing_pts s pgdir va n) \<le> length (free_pages s)"
  shows "\<exists>s'. boot_map_region pgdir va (of_nat n * PGSIZE) pa perm s = Some s' \<and>
    pages_ok s' \<and> pgdir_ok s' pgdir \<and>
    (\<forall>k<n. pte_of s' pgdir (va + of_nat k * PGSIZE) = (pa + of_nat k * PGSIZE) OR perm OR PTE_P) \<and>
    (\<forall>va'. tree_slot (PDX va') \<longrightarrow> (\<forall>k<n. PTE_ADDR va' \<noteq> PTE_ADDR (va + of_nat k * PGSIZE)) \<longrightarrow>
       pte_of s' pgdir va' = pte_of s pgdir va') \<and>
    (\<forall>i. i \<notin> set (free_pages s) \<longrightarrow> pages s' i = pages s i)"
  using boot_map_region_total [OF assms] unfolding region_post_def by blast

theorem boot_map_region_correct_witness:
  "\<exists>s'. boot_map_region 0xF0006000 0xEF000000 (of_nat 2 * PGSIZE) 0x3000 PTE_U demo = Some s' \<and>
     pte_of s' 0xF0006000 0xEF001000 = 0x4005"
proof -
  have ps: "PDX 0xEF000000 = 956" "PDX 0xEF001000 = 956" "PDX UVPT = 957"
    by (simp_all add: word_unat_eq_iff unat_PDX)
  have sl: "\<forall>k<2. tree_slot (PDX (0xEF000000 + of_nat k * PGSIZE))"
    by (auto simp: less_2_cases_iff tree_slot_def ps)
  have "missing_pts demo 0xF0006000 0xEF000000 2 \<subseteq> {956}"
    by (auto simp: missing_pts_def ps less_2_cases_iff)
  then have "card (missing_pts demo 0xF0006000 0xEF000000 2) \<le> card {956 :: u32}" by (intro card_mono) auto
  then have c: "card (missing_pts demo 0xF0006000 0xEF000000 2) \<le> length (free_pages demo)"
    by (simp add: demo_free)
  from boot_map_region_correct [OF demo_pages_ok demo_pgdir_ok(2) _ _ sl c, of "0x3000" PTE_U]
  obtain s' where s': "boot_map_region 0xF0006000 0xEF000000 (of_nat 2 * PGSIZE) 0x3000 PTE_U demo = Some s'"
    and p: "\<forall>k<2. pte_of s' 0xF0006000 (0xEF000000 + of_nat k * PGSIZE) = (0x3000 + of_nat k * PGSIZE) OR PTE_U OR PTE_P"
    by (auto simp: PGOFF_def)
  from p [rule_format, of 1] s' show ?thesis by auto
qed

text \<open>
  Reserving device memory returns the old start of the free part of the MMIO window, advances
  it by the whole pages that the physical range touches, and maps those pages uncached, in order,
  for the kernel only.
\<close>

theorem mmio_map_region_correct:
  assumes "pages_ok s" and "pgdir_ok s (kern_pgdir s)" and "PGOFF (mmio_base s) = 0"
    and "unat pa + unat sz + 4095 < 4294967296"
    and "MMIOBASE \<le> mmio_base s" and "unat (mmio_base s) + 4096 * range_pages pa sz < unat MMIOLIM"
    and "card (missing_pts s (kern_pgdir s) (mmio_base s) (range_pages pa sz)) \<le> length (free_pages s)"
  shows "\<exists>s'. mmio_map_region pa sz s = Some (mmio_base s, s') \<and>
    mmio_base s' = mmio_base s + of_nat (range_pages pa sz) * PGSIZE \<and>
    (\<forall>k < range_pages pa sz. pte_of s' (kern_pgdir s) (mmio_base s + of_nat k * PGSIZE) =
       (PTE_ADDR pa + of_nat k * PGSIZE) OR (PTE_PCD OR PTE_PWT OR PTE_W) OR PTE_P)"
proof -
  from mmio_map_region_total [OF assms] obtain s1 where
    r: "mmio_map_region pa sz s = Some (mmio_base s, s1\<lparr>mmio_base := mmio_base s + of_nat (range_pages pa sz) * PGSIZE\<rparr>)"
    and p: "region_post (kern_pgdir s) (mmio_base s) (range_pages pa sz) (PTE_ADDR pa)
      (PTE_PCD OR PTE_PWT OR PTE_W) s s1" by blast
  let ?s' = "s1\<lparr>mmio_base := mmio_base s + of_nat (range_pages pa sz) * PGSIZE\<rparr>"
  have "pte_of ?s' = pte_of s1" by (rule view_phys) simp
  with r p show ?thesis by (intro exI [of _ ?s']) (simp add: region_post_def)
qed

theorem mmio_map_region_correct_witness:
  "\<exists>s'. mmio_map_region 0xFEE00000 4096 demo = Some (MMIOBASE, s') \<and> mmio_base s' = MMIOBASE + 4096 \<and>
     pte_of s' 0xF0006000 MMIOBASE = 0xFEE0001B"
proof -
  have n: "range_pages 0xFEE00000 4096 = 1" by (simp add: range_pages_def)
  have "missing_pts demo 0xF0006000 MMIOBASE 1 \<subseteq> {PDX MMIOBASE}"
    by (auto simp: missing_pts_def)
  then have "card (missing_pts demo 0xF0006000 MMIOBASE 1) \<le> card {PDX MMIOBASE}" by (intro card_mono) auto
  then show ?thesis
    using mmio_map_region_correct [OF demo_pages_ok, of "0xFEE00000" 4096] demo_pgdir_ok(2)
    by (auto simp: n demo_free PGOFF_def PTE_ADDR_def)
qed

section \<open>User pointers\<close>

text \<open>
  C24. For a non-empty byte range whose end does not come within a page of the top of the address
  space, the check returns 0 without changing the state exactly when every byte of the range passes the
  code's test: it is below \<^verbatim>\<open>ULIM\<close>, has a page table, and its entry has all the bits of \<open>perm\<close>. Otherwise
  it returns \<^verbatim>\<open>-E_FAULT\<close> and records the first offending address of the range. The comment asks for
  \<^verbatim>\<open>perm | PTE_P\<close>, which the code does not test; the two tests agree on an address if \<open>perm\<close> contains
  \<^verbatim>\<open>PTE_P\<close>, or if \<open>perm\<close> is not 0 and the entry, when absent, is zero, as the kernel leaves it.
\<close>

theorem user_mem_check_correct:
  assumes "dir_in_range s (env_pgdir (envs s e))"
    and "unat va + unat len + 4095 < 4294967296" and "0 < len"
  shows "(user_mem_check e va len perm s = Some (0, s) \<and>
      (\<forall>a. unat va \<le> unat a \<and> unat a < unat va + unat len \<longrightarrow> user_ok s (env_pgdir (envs s e)) perm a) \<or>
    (\<exists>b. user_mem_check e va len perm s = Some (- E_FAULT, s\<lparr>user_mem_check_addr := b\<rparr>) \<and>
      unat va \<le> unat b \<and> unat b < unat va + unat len \<and> \<not> user_ok s (env_pgdir (envs s e)) perm b \<and>
      (\<forall>a. unat va \<le> unat a \<and> unat a < unat b \<longrightarrow> user_ok s (env_pgdir (envs s e)) perm a))) \<and>
    (\<forall>a. perm AND PTE_P \<noteq> 0 \<or>
        perm \<noteq> 0 \<and> (pte_of s (env_pgdir (envs s e)) a AND PTE_P = 0 \<longrightarrow> pte_of s (env_pgdir (envs s e)) a = 0) \<longrightarrow>
      user_ok s (env_pgdir (envs s e)) perm a = may_access s (env_pgdir (envs s e)) perm a)"
  by (intro conjI allI impI user_mem_check_bytes [OF assms] user_ok_may_access)

theorem user_mem_check_correct_witness:
  "user_mem_check 0 0x800010 16 PTE_U demo = Some (- E_FAULT, demo\<lparr>user_mem_check_addr := 0x800010\<rparr>)"
proof -
  have no: "\<not> user_ok demo d perm a" for d perm a by (simp add: user_ok_def)
  have p: "unat (0x800010 :: u32) + unat (16 :: u32) + 4095 < 4294967296" "(0 :: u32) < 16" by simp_all
  from user_mem_check_correct [where e = 0 and perm = PTE_U, OF demo_dir_in_range p, THEN conjunct1] show ?thesis
  proof (elim disjE exE conjE)
    assume "\<forall>a. unat (0x800010 :: u32) \<le> unat a \<and> unat a < unat (0x800010 :: u32) + unat (16 :: u32) \<longrightarrow>
        user_ok demo (env_pgdir (envs demo 0)) PTE_U a"
    from this [rule_format, of "0x800010"] no show ?thesis by simp
  next
    fix b
    assume r: "user_mem_check 0 0x800010 16 PTE_U demo = Some (- E_FAULT, demo\<lparr>user_mem_check_addr := b\<rparr>)"
      and le: "unat (0x800010 :: u32) \<le> unat b"
      and all: "\<forall>a. unat (0x800010 :: u32) \<le> unat a \<and> unat a < unat b \<longrightarrow> user_ok demo (env_pgdir (envs demo 0)) PTE_U a"
    from all [rule_format, of "0x800010"] le no have "unat b = unat (0x800010 :: u32)" by fastforce
    then have "b = 0x800010" by (rule word_eq_unatI)
    with r show ?thesis by simp
  qed
qed

text \<open>
  The absence of the test of \<^verbatim>\<open>PTE_P\<close> shows for \<open>perm\<close> 0: a page that is not mapped is accepted if its page
  table exists.
\<close>

lemma user_mem_check_absent:
  assumes "dir_in_range s (env_pgdir (envs s e))" and "pde_of s (env_pgdir (envs s e)) (PDX va) AND PTE_P \<noteq> 0"
    and "pte_of s (env_pgdir (envs s e)) va = 0" and "va < ULIM" and "PGOFF va = 0"
  shows "user_mem_check e va PGSIZE 0 s = Some (0, s) \<and> \<not> may_access s (env_pgdir (envs s e)) 0 va"
proof
  let ?ok = "user_ok s (env_pgdir (envs s e)) 0"
  have va: "PTE_ADDR va = va" using assms(5) by simp
  have u: "unat va mod 4096 = 0" using arg_cong [OF assms(5), of unat] by (simp add: unat_PGOFF)
  have lt: "unat va < 4018143232" using assms(4) by (simp add: word_less_nat_alt)
  have ok: "?ok va" using assms(2-4) by (simp add: user_ok_def)
  obtain k where "unat va = 4096 * k" using u by (metis mod_0_imp_dvd dvdE)
  then have "range_pages va PGSIZE = 1" by (simp add: range_pages_def)
  then show "user_mem_check e va PGSIZE 0 s = Some (0, s)"
    using user_mem_check_find [OF assms(1), of va PGSIZE 0] lt ok va by (simp add: upt_rec)
  show "\<not> may_access s (env_pgdir (envs s e)) 0 va" using assms(3) by (simp add: may_access_def)
qed

text \<open>
  C25. The check is blind to ranges that reach the top of the address space: when the rounded-up end
  wraps around to an address not above the first page of the range, it accepts the range whatever it
  covers, although the range contains kernel addresses. A system call that relies on it can be made to
  read kernel memory. (If the end wraps around to an address above the first page, the loop tests the
  pages up to there only.)
\<close>

theorem user_mem_check_wraps:
  assumes "0 < len" and "2 ^ 32 \<le> unat va + unat len + 4095"
    and "unat va + unat len + 4095 - 2 ^ 32 < 4096 * (unat va div 4096 + 1)"
  shows "user_mem_check e va len perm s = Some (0, s) \<and>
    (\<exists>b. unat va \<le> unat b \<and> unat b < unat va + unat len \<and> ULIM \<le> b \<and>
      \<not> user_ok s (env_pgdir (envs s e)) perm b)"
proof
  have bounds: "unat va < 2 ^ 32" "unat len < 2 ^ 32" using unat_u32_less [of va] unat_u32_less [of len] by simp_all
  have "unat (va + len + 4095) = (unat va + unat len + 4095) mod 2 ^ 32"
    by (simp add: unat_word_ariths mod_simps)
  also have "\<dots> = (unat va + unat len + 4095 - 2 ^ 32) mod 2 ^ 32" using assms(2) by (simp add: le_mod_geq)
  also have "\<dots> = unat va + unat len + 4095 - 2 ^ 32" 
  proof (rule mod_less)
    have "unat va div 4096 < 1048576" using bounds(1) by (simp add: less_mult_imp_div_less)
    then have "4096 * (unat va div 4096 + 1) \<le> 2 ^ 32" by simp
    with assms(3) show "unat va + unat len + 4095 - 2 ^ 32 < 2 ^ 32" by (rule less_le_trans)
  qed
  finally have u: "unat (va + len + 4095) = unat va + unat len + 4095 - 2 ^ 32" .
  have "unat (ROUNDUP (va + len) PGSIZE) \<le> unat (ROUNDDOWN va PGSIZE)"
  proof -
    have "va + len + PGSIZE - 1 = va + len + 4095" by (simp add: algebra_simps)
    then have "unat (ROUNDUP (va + len) PGSIZE) = 4096 * (unat (va + len + 4095) div 4096)"
      by (simp add: ROUNDUP_def ROUNDDOWN_page unat_PTE_ADDR minus_mod_eq_mult_div ac_simps)
    moreover have "unat (va + len + 4095) div 4096 < unat va div 4096 + 1"
      using assms(3) unfolding u [symmetric] by (intro less_mult_imp_div_less) (simp add: mult.commute)
    ultimately show ?thesis by (simp add: ROUNDDOWN_page unat_PTE_ADDR minus_mod_eq_mult_div)
  qed
  then have "\<not> ROUNDDOWN va PGSIZE < ROUNDUP (va + len) PGSIZE" by (simp add: word_less_nat_alt)
  then show "user_mem_check e va len perm s = Some (0, s)"
    by (simp add: user_mem_check_def user_mem_check_loop.simps)
  define b where "b = (if unat va + unat len \<le> 2 ^ 32 then va + (len - 1) else 0xFFFFFFFF)"
  have "unat (len - 1) = unat len - 1" using assms(1) by (simp add: unat_sub word_le_nat_alt word_less_nat_alt)
  then have ub: "unat b = min (unat va + unat len - 1) (2 ^ 32 - 1)"
    using assms(1) bounds by (simp add: b_def unat_word_ariths word_less_nat_alt)
  have l: "0 < unat len" "4294963201 \<le> unat va + unat len" "unat va < 4294967296"
    using assms(1,2) unat_u32_less [of va] by (simp_all add: word_less_nat_alt)
  from ub have "unat b = min (unat va + unat len - 1) 4294967295" by simp
  with l have "unat va \<le> unat b" "unat b < unat va + unat len" "4294963200 \<le> unat b" by linarith+
  moreover from this(3) have "ULIM \<le> b" by (simp add: word_le_nat_alt)
  moreover from this have "\<not> user_ok s (env_pgdir (envs s e)) perm b" by (simp add: user_ok_def not_less)
  ultimately show "\<exists>b. unat va \<le> unat b \<and> unat b < unat va + unat len \<and> ULIM \<le> b \<and>
      \<not> user_ok s (env_pgdir (envs s e)) perm b" by blast
qed

theorem user_mem_check_wraps_witness:
  "user_mem_check 0 0xF0000000 0x10000000 PTE_U demo = Some (0, demo) \<and>
   user_mem_check 0 0xEFFFF123 0xFFFFF000 PTE_U demo = Some (0, demo)"
  using user_mem_check_wraps [of "0x10000000" "0xF0000000" 0 PTE_U demo]
    user_mem_check_wraps [of "0xFFFFF000" "0xEFFFF123" 0 PTE_U demo] by simp

end
