(* ===== verification/Sys_Props.thy ===== *)
theory Sys_Props
  imports Sys_Errors Run_Props Vm_Props
begin

text \<open>
  The properties of the system calls: isolation of environments over any sequence of calls, the
  effect and the errors of the memory calls, creation of a child, and messages.
\<close>

section \<open>Instances\<close>

lemma demo_in_use: "in_use demo = {0}"
  by (auto simp: in_use_def demo_env_def env_zero_def)

lemma demo_dirs_eq: "dirs demo = demo_dirs"
  by (auto simp: dirs_def demo_in_use demo_env_def)

lemma demo_kinv: "kinv demo"
  unfolding kinv_def demo_dirs_eq demo_in_use
  using demo_spaces_ok demo_envs_ok by (simp add: demo_env_def ENVX_def)

lemma demo_refs_room: "refs_room demo"
  by (simp add: refs_room_def demo_page_def)

lemma demo_view: "env_view 0 demo v = 0"
  by (simp add: env_view_def user_view_def)

text \<open>The state with a copy-on-write page at \<open>0x800000\<close>.\<close>

lemma cow_addrs: "PTE_ADDR 0x800000 = 0x800000" "PTE_ADDR 0x900000 = 0x900000"
  by (simp_all add: PTE_ADDR_def)

lemma cow_ready: "kinv (cow_demo 0xC805)" "curenv (cow_demo 0xC805) = Some 0" "refs_room (cow_demo 0xC805)"
  using cow_kinv(1) [of "0xC805"] by (simp_all add: PGNUM_def drop_bit_eq_div refs_room_def cow_page_def demo_page_def)

lemma cow_self: "envid2env 0 p (cow_demo w) = Some (Inr (Some 0))"
  by (simp add: envid2env_def)

section \<open>Isolation\<close>

text \<open>
  C1. Whatever sequence of system calls other than \<^verbatim>\<open>sys_cputs\<close>, \<^verbatim>\<open>sys_env_destroy\<close>, \<^verbatim>\<open>sys_yield\<close> and
  \<^verbatim>\<open>sys_ipc_recv\<close> the current environment makes, unknown call numbers included, none panics, the
  invariant of the kernel is kept throughout, and every environment that no call of the sequence
  names as its target keeps its space: its user mappings stay exactly as they were, and so does every
  byte it reads through them. The arguments are arbitrary, with three exceptions where the code does
  not protect itself: when \<^verbatim>\<open>sys_page_map\<close> is called or a page is sent, no reference count is at its
  sixteen-bit limit; a page is sent with a permission word below 4096; and the page sent is mapped, or
  its address misaligned, or the uninitialised pointer the code reads in its place is readable.
\<close>

theorem syscall_run_isolated:
  assumes "kinv s" and "curenv s = Some c" and "K \<subseteq> in_use s"
    and "admissible_run (sys_admissible junk c) (sys_step junk) calls s"
  shows "\<exists>s'. foldM (sys_step junk) calls s = Some s' \<and> kinv s' \<and> curenv s' = Some c \<and>
    (\<forall>e\<in>K. e \<notin> sys_target c ` set calls \<longrightarrow> env_space e s' = env_space e s)"
proof -
  have "sys_inv c K s" using assms(1-3) by (simp add: sys_inv_def)
  from sys_calls.run_ok [OF this assms(4)] show ?thesis by (auto simp: sys_inv_def)
qed

text \<open>
  The only environment makes a child, gives it a page and changes it; its own page stays as it is.
\<close>

theorem syscall_run_isolated_witness:
  "\<exists>s'. foldM (sys_step 0) [(SYS_exofork, 1, 0, 0, 0, 0), (SYS_page_alloc, 0x1001, 0x900000, 7, 0, 0),
       (SYS_env_set_status, 0x1001, ENV_RUNNABLE, 0, 0, 0), (SYS_cgetc, 1, 0, 0, 0, 0), (99, 1, 0, 0, 0, 0)]
     (cow_demo 0xC805) = Some s' \<and> kinv s' \<and> curenv s' = Some 0 \<and> env_view 0 s' 0x800000 = 0xC805"
proof -
  let ?calls = "[(SYS_exofork, 1, 0, 0, 0, 0), (SYS_page_alloc, 0x1001, 0x900000, 7, 0, 0),
       (SYS_env_set_status, 0x1001, ENV_RUNNABLE, 0, 0, 0), (SYS_cgetc, 1, 0, 0, 0, 0), (99, 1, 0, 0, 0, 0)] :: request list"
  have "admissible_run (sys_admissible 0 0) (sys_step 0) ?calls (cow_demo 0xC805)"
    by (simp split: option.split)
  moreover have "0 \<notin> sys_target 0 ` set ?calls" by (simp add: target_def ENVX_def)
  ultimately show ?thesis
    using syscall_run_isolated [OF cow_ready(1,2), of "{0}" 0 ?calls]
    by (auto simp: cow_in_use env_space_def cow_view cow_addrs simp del: foldM.simps)
qed

section \<open>Memory calls\<close>

text \<open>
  C4. \<^verbatim>\<open>sys_page_alloc\<close> always returns. A result other than 0 leaves the spaces of all environments as
  they were, mappings and bytes. On 0 the caller was allowed to change the target, address and
  permissions were legal, and a page that was free is now mapped there with exactly these
  permissions, all its bytes zero; no other mapping and no other byte of any environment changed.
  Each error is returned on its own condition, in the order of the checks, and a legal call with two
  free pages succeeds.
\<close>

theorem sys_page_alloc_correct:
  assumes "kinv s" and "curenv s = Some c"
  shows "\<exists>r s'. sys_page_alloc envid va perm s = Some (Returns r s') \<and>
    (if envid2env envid True s = Some (Inl (- E_BAD_ENV)) then r = - E_BAD_ENV
     else if bad_va va \<or> bad_perm perm \<or> free_pages s = [] then r = - E_INVAL
     else r = 0 \<or> r = - E_NO_MEM \<and> length (free_pages s) = 1) \<and>
    kinv s' \<and> curenv s' = Some c \<and>
    (r \<noteq> 0 \<longrightarrow> (\<forall>e\<in>in_use s. env_space e s' = env_space e s)) \<and>
    (r = 0 \<longrightarrow> (\<exists>e p. envid2env envid True s = Some (Inr (Some e)) \<and> e \<in> in_use s \<and>
      va < UTOP \<and> PGOFF va = 0 \<and> \<not> bad_perm perm \<and>
      p \<in> set (free_pages s) \<and> p \<notin> set (free_pages s') \<and>
      (\<forall>v < UTOP. env_view e s' v = (if PTE_ADDR v = va then page2pa p OR perm else env_view e s v)) \<and>
      (\<forall>v. env_mem e s' v = (if PTE_ADDR v = va then 0 else env_mem e s v)) \<and>
      (\<forall>e'\<in>in_use s. e' \<noteq> e \<longrightarrow> env_space e' s' = env_space e' s)))"
proof -
  from sys_page_alloc_ok [OF assms, of envid va perm] obtain r s' where
    s': "sys_page_alloc envid va perm s = Some (Returns r s')" "call_post (target c envid) r s s'"
    "r = 0 \<longrightarrow> envid2env envid True s = Some (Inr (Some (target c envid))) \<and> target c envid \<in> in_use s \<and>
      \<not> bad_va va \<and> \<not> bad_perm perm \<and> alloc_done (target c envid) va perm s s'" by blast
  from s'(2) assms(2) have post: "kinv s'" "curenv s' = Some c"
    "\<forall>e'\<in>in_use s. e' \<noteq> target c envid \<or> r \<noteq> 0 \<longrightarrow> env_space e' s' = env_space e' s"
    by (simp_all add: call_post_def env_space_def)
  note result = conjI [OF s'(1) conjI [OF sys_page_alloc_result [OF assms s'(1)]]]
  show ?thesis
  proof (cases "r = 0")
    case True
    with s'(3) have "\<forall>v. env_mem (target c envid) s' v = (if PTE_ADDR v = va then 0 else env_mem (target c envid) s v)"
      using alloc_done_mem [OF assms(1)] by blast
    moreover from True s'(3) obtain p where "p \<in> set (free_pages s)" "p \<notin> set (free_pages s')"
      "\<forall>v < UTOP. env_view (target c envid) s' v =
         (if PTE_ADDR v = va then page2pa p OR perm else env_view (target c envid) s v)"
      unfolding alloc_done_def by blast
    ultimately show ?thesis using True s'(3) post
      by - (rule exI [of _ r], rule exI [of _ s'], rule result, auto simp: bad_va_def not_le)
  next
    case False
    with post show ?thesis by - (rule exI [of _ r], rule exI [of _ s'], rule result, auto)
  qed
qed

theorem sys_page_alloc_correct_witness:
  "\<exists>p s'. sys_page_alloc 0 0x900000 7 (cow_demo 0xC805) = Some (Returns 0 s') \<and> kinv s' \<and>
     p \<in> {13, 9, 10, 11} \<and> env_view 0 s' 0x900000 = page2pa p OR 7 \<and> env_view 0 s' 0x800000 = 0xC805"
proof -
  let ?s = "cow_demo 0xC805"
  from sys_page_alloc_correct [OF cow_ready(1,2), of 0 "0x900000" 7] obtain r s' where
    s': "sys_page_alloc 0 0x900000 7 ?s = Some (Returns r s')" "kinv s'" "r = 0 \<or> length (free_pages ?s) = 1"
    "r = 0 \<longrightarrow> (\<exists>e p. envid2env 0 True ?s = Some (Inr (Some e)) \<and> p \<in> set (free_pages ?s) \<and>
      (\<forall>v < UTOP. env_view e s' v = (if PTE_ADDR v = 0x900000 then page2pa p OR 7 else env_view e ?s v)))"
    by (auto simp: cow_self cow_pages bad_va_def bad_perm_def PGOFF_def)
  then have "r = 0" by (simp add: cow_pages)
  with s' obtain p where "p \<in> {13, 9, 10, 11}"
    "\<forall>v < UTOP. env_view 0 s' v = (if PTE_ADDR v = 0x900000 then page2pa p OR 7 else env_view 0 ?s v)"
    by (auto simp: cow_self cow_pages)
  with s'(1,2) \<open>r = 0\<close> show ?thesis by (intro exI [of _ p] exI [of _ s']) (simp add: cow_view cow_addrs)
qed

text \<open>
  C5. \<^verbatim>\<open>sys_page_map\<close> always returns, and on a result other than 0 changes no mapping and no byte. On 0
  the caller was allowed to act for both environments, the source page was mapped, and the target now
  has the same physical page at the new address with the permissions asked for and reads the source's
  bytes there; write permission is only ever given if the source mapping had it. No other mapping and
  no other byte changed. The errors are those of the checks, and of a page table that cannot be
  allocated; every other call succeeds.
\<close>

theorem sys_page_map_correct:
  assumes "kinv s" and "curenv s = Some c" and "refs_room s"
  shows "\<exists>r s'. sys_page_map srcid srcva dstid dstva perm s = Some (Returns r s') \<and>
    (if envid2env srcid True s = Some (Inl (- E_BAD_ENV)) \<or> envid2env dstid True s = Some (Inl (- E_BAD_ENV))
       then r = - E_BAD_ENV
     else if \<not> map_valid (target c srcid) srcva dstva perm s then r = - E_INVAL
     else r = 0 \<or> r = - E_INVAL \<and> free_pages s = [] \<and>
       \<not> has_pt s (env_pgdir (envs s (target c dstid))) (PDX dstva)) \<and>
    kinv s' \<and> curenv s' = Some c \<and>
    (r \<noteq> 0 \<longrightarrow> (\<forall>e\<in>in_use s. env_space e s' = env_space e s)) \<and>
    (r = 0 \<longrightarrow> (\<exists>src dst. envid2env srcid True s = Some (Inr (Some src)) \<and>
      envid2env dstid True s = Some (Inr (Some dst)) \<and> \<not> bad_va srcva \<and> \<not> bad_va dstva \<and> \<not> bad_perm perm \<and>
      env_view src s srcva AND PTE_P \<noteq> 0 \<and>
      (perm AND PTE_W \<noteq> 0 \<longrightarrow> env_view src s srcva AND PTE_W \<noteq> 0) \<and>
      (\<forall>v < UTOP. env_view dst s' v =
         (if PTE_ADDR v = dstva then PTE_ADDR (env_view src s srcva) OR perm else env_view dst s v)) \<and>
      (\<forall>v. env_mem dst s' v = (if PTE_ADDR v = dstva then env_mem src s (srcva OR PGOFF v) else env_mem dst s v)) \<and>
      (\<forall>e\<in>in_use s. e \<noteq> dst \<longrightarrow> env_space e s' = env_space e s)))"
proof -
  from sys_page_map_ok [OF assms, of srcid srcva dstid dstva perm] obtain r s' where
    s': "sys_page_map srcid srcva dstid dstva perm s = Some (Returns r s')"
    "call_post (target c dstid) r s s'" and
    r: "r = 0 \<longrightarrow> envid2env srcid True s = Some (Inr (Some (target c srcid))) \<and>
      envid2env dstid True s = Some (Inr (Some (target c dstid))) \<and>
      map_valid (target c srcid) srcva dstva perm s \<and>
      map_done (target c srcid) srcva (target c dstid) dstva perm s s'" by blast
  from s'(2) assms(2) have post: "kinv s'" "curenv s' = Some c"
    "\<forall>e'\<in>in_use s. e' \<noteq> target c dstid \<or> r \<noteq> 0 \<longrightarrow> env_space e' s' = env_space e' s"
    by (simp_all add: call_post_def env_space_def)
  note result = conjI [OF s'(1) conjI [OF sys_page_map_result [OF assms s'(1)]]]
  show ?thesis
  proof (cases "r = 0")
    case True
    with r have "target c srcid \<in> in_use s" "target c dstid \<in> in_use s"
      using envid2env_in_use [OF assms(1,2)] by (metis option.inject)+
    from map_done_mem [OF assms(1) this] r True
    have "\<forall>v. env_mem (target c dstid) s' v =
        (if PTE_ADDR v = dstva then env_mem (target c srcid) s (srcva OR PGOFF v) else env_mem (target c dstid) s v)"
      by blast
    with True r post show ?thesis
      by - (rule exI [of _ r], rule exI [of _ s'], rule result, unfold map_valid_def map_done_def,
        intro conjI impI exI [of _ "target c srcid"] exI [of _ "target c dstid"], simp_all)
  next
    case False
    with post show ?thesis by - (rule exI [of _ r], rule exI [of _ s'], rule result, auto)
  qed
qed

theorem sys_page_map_correct_witness:
  "(\<exists>s'. sys_page_map 0 0x800000 0 0x900000 5 (cow_demo 0xC805) = Some (Returns 0 s') \<and> kinv s' \<and>
     env_view 0 s' 0x900000 = 0xC005 \<and> env_view 0 s' 0x800000 = 0xC805) \<and>
   (\<exists>s'. sys_page_map 0 0x800000 0 0x900000 7 (cow_demo 0xC805) = Some (Returns (- E_INVAL) s'))"
proof
  let ?s = "cow_demo 0xC805"
  note t = sys_page_map_correct [OF cow_ready, of 0 "0x800000" 0 "0x900000"]
  have v: "map_valid 0 0x800000 0x900000 5 ?s" "\<not> map_valid 0 0x800000 0x900000 7 ?s"
    by (simp_all add: map_valid_def bad_va_def bad_perm_def PGOFF_def cow_view cow_addrs)
  from t [of 5] obtain s' where s': "sys_page_map 0 0x800000 0 0x900000 5 ?s = Some (Returns 0 s')" "kinv s'"
    "\<forall>v < UTOP. env_view 0 s' v =
       (if PTE_ADDR v = 0x900000 then PTE_ADDR (env_view 0 ?s 0x800000) OR 5 else env_view 0 ?s v)"
    by (auto simp: cow_self target_def v cow_pages)
  then show "\<exists>s'. sys_page_map 0 0x800000 0 0x900000 5 ?s = Some (Returns 0 s') \<and> kinv s' \<and>
     env_view 0 s' 0x900000 = 0xC005 \<and> env_view 0 s' 0x800000 = 0xC805"
    by (intro exI [of _ s']) (simp add: cow_view cow_addrs, simp add: PTE_ADDR_def)
  from t [of 7] show "\<exists>s'. sys_page_map 0 0x800000 0 0x900000 7 ?s = Some (Returns (- E_INVAL) s')"
    by (auto simp: cow_self target_def v)
qed

text \<open>
  C17. \<^verbatim>\<open>sys_page_unmap\<close> always returns. On a result other than 0 no mapping and no byte changes; on
  0 the target's page is no longer mapped, and no other mapping or byte of any environment changed. It is
  0 for every environment the caller may change and every page below \<^verbatim>\<open>UTOP\<close>, mapped or not.
\<close>

theorem sys_page_unmap_correct:
  assumes "kinv s" and "curenv s = Some c"
  shows "\<exists>r s'. sys_page_unmap envid va s = Some (Returns r s') \<and>
    r = (if envid2env envid True s = Some (Inl (- E_BAD_ENV)) then - E_BAD_ENV
     else if bad_va va then - E_INVAL else 0) \<and>
    kinv s' \<and> curenv s' = Some c \<and>
    (r \<noteq> 0 \<longrightarrow> (\<forall>e\<in>in_use s. env_space e s' = env_space e s)) \<and>
    (r = 0 \<longrightarrow> (\<exists>e. envid2env envid True s = Some (Inr (Some e)) \<and> \<not> bad_va va \<and>
      (\<forall>v < UTOP. if PTE_ADDR v = va then env_view e s' v AND PTE_P = 0 else env_view e s' v = env_view e s v) \<and>
      (\<forall>v. PTE_ADDR v \<noteq> va \<longrightarrow> env_mem e s' v = env_mem e s v) \<and>
      (\<forall>e'\<in>in_use s. e' \<noteq> e \<longrightarrow> env_space e' s' = env_space e' s)))"
proof -
  from sys_page_unmap_ok [OF assms, of envid va] obtain r s' where
    s': "sys_page_unmap envid va s = Some (Returns r s')" "call_post (target c envid) r s s'"
    "r = 0 \<longrightarrow> envid2env envid True s = Some (Inr (Some (target c envid))) \<and> target c envid \<in> in_use s \<and>
      \<not> bad_va va \<and> (\<forall>v. PTE_ADDR v \<noteq> va \<longrightarrow> env_mem (target c envid) s' v = env_mem (target c envid) s v) \<and>
      (\<forall>v < UTOP. if PTE_ADDR v = va then env_view (target c envid) s' v AND PTE_P = 0
         else env_view (target c envid) s' v = env_view (target c envid) s v)" by blast
  note result = conjI [OF s'(1) conjI [OF sys_page_unmap_result [OF assms s'(1)]]]
  from s'(2,3) assms(2) show ?thesis
    by - (rule exI [of _ r], rule exI [of _ s'], rule result, cases "r = 0"; simp add: call_post_def env_space_def)
qed

theorem sys_page_unmap_correct_witness:
  "\<exists>s'. sys_page_unmap 0 0x800000 (cow_demo 0xC805) = Some (Returns 0 s') \<and> kinv s' \<and>
     env_view 0 s' 0x800000 AND PTE_P = 0"
proof -
  from sys_page_unmap_correct [OF cow_ready(1,2), of 0 "0x800000"] obtain s' where
    s': "sys_page_unmap 0 0x800000 (cow_demo 0xC805) = Some (Returns 0 s')" "kinv s'"
    "\<forall>v < UTOP. if PTE_ADDR v = 0x800000 then env_view 0 s' v AND PTE_P = 0 else env_view 0 s' v = env_view 0 (cow_demo 0xC805) v"
    by (auto simp: cow_self bad_va_def PGOFF_def)
  from s'(3) [rule_format, of "0x800000"] s'(1,2) show ?thesis by (simp add: cow_addrs)
qed

section \<open>Children\<close>

text \<open>
  C16. \<^verbatim>\<open>sys_exofork\<close> either returns an error and changes nothing, because no slot or no page is free, or
  returns the positive identifier of an
  environment that was free: not runnable, a child of the caller, with the caller's registers
  except that its own call will return 0, and with no user mapping. Every other environment, its
  mappings and the bytes it reads are unchanged and the kernel's invariant covers the child.
\<close>

theorem sys_exofork_correct:
  assumes "kinv s" and "curenv s = Some c"
  shows "sys_exofork s = Some (Returns (- E_NO_FREE_ENV) s) \<and> free_envs s = [] \<or>
    sys_exofork s = Some (Returns (- E_NO_MEM) s) \<and> free_envs s \<noteq> [] \<and> free_pages s = [] \<or>
    (\<exists>e s'. sys_exofork s = Some (Returns (env_id (envs s' e)) s') \<and> kinv s' \<and>
      e \<notin> in_use s \<and> in_use s' = insert e (in_use s) \<and> curenv s' = curenv s \<and>
      0 < sint (env_id (envs s' e)) \<and> env_id (envs s' e) \<noteq> env_id (envs s e) \<and>
      env_parent_id (envs s' e) = env_id (envs s c) \<and> env_status (envs s' e) = ENV_NOT_RUNNABLE \<and>
      env_tf (envs s' e) = (env_tf (envs s c))\<lparr>tf_regs := (tf_regs (env_tf (envs s c)))\<lparr>reg_eax := 0\<rparr>\<rparr> \<and>
      (\<forall>v < UTOP. env_view e s' v = 0) \<and>
      (\<forall>e'\<in>in_use s. env_space e' s' = env_space e' s \<and> envs s' e' = envs s e'))"
  using sys_exofork_ok [OF assms] unfolding child_made_def env_space_def prod.inject by blast

theorem sys_exofork_correct_witness:
  "\<exists>r s'. sys_exofork (cow_demo 0xC805) = Some (Returns r s') \<and> 0 < sint r \<and> kinv s'"
  using sys_exofork_correct [OF cow_ready(1,2)] cow_kinv(2) [of "0xC805"] cow_pages(2) [of "0xC805"]
  by (auto simp: PGNUM_def drop_bit_eq_div)

section \<open>Messages\<close>

text \<open>
  C6. Sending to an environment: the call returns; an error changes nothing. If a page is offered, this
  holds under the conditions that its permission word is below 4096, that no reference count is at its
  limit, and that the entry of the page can be read (it is mapped, or its address misaligned, or the
  uninitialised pointer read in its place is readable). On 0 the receiver was waiting, and
  now is runnable with the value, the sender's identifier and a return value of 0, no longer
  waiting. If both sides agreed on a page, the receiver has the sender's page mapped where it asked
  for it with the permissions given, writable only if the sender could write it; otherwise its
  mappings are unchanged. No other environment is affected, nor its mappings or bytes. A send fails
  only to an unknown environment, to one that does not wait, with an illegal page, or for want of a
  page table. Legal is a page that is aligned, mapped, and mapped with those bits of the permission
  word that are in \<^verbatim>\<open>PTE_SYSCALL\<close>: the code does not ask for \<^verbatim>\<open>PTE_U | PTE_P\<close> and does not refuse other
  bits, as its comment requires.
\<close>

theorem sys_ipc_try_send_correct:
  assumes "kinv s" and "curenv s = Some c" 
    and "srcva < UTOP \<longrightarrow> refs_room s \<and> perm < 4096 \<and> offer_readable junk c srcva s"
  shows "\<exists>r s'. sys_ipc_try_send junk envid msg srcva perm s = Some (Returns r s') \<and>
    (if envid2env envid False s = Some (Inl (- E_BAD_ENV)) then r = - E_BAD_ENV
     else if \<not> env_ipc_recving (envs s (target c envid)) then r = - E_IPC_NOT_RECV
     else if srcva < UTOP \<and> bad_offer c srcva perm s then r = - E_INVAL
     else r = 0 \<or> r = - E_NO_MEM \<and> srcva < UTOP \<and> env_ipc_dstva (envs s (target c envid)) < UTOP \<and>
       free_pages s = [] \<and>
       \<not> has_pt s (env_pgdir (envs s (target c envid))) (PDX (env_ipc_dstva (envs s (target c envid))))) \<and>
    kinv s' \<and>
    (r \<noteq> 0 \<longrightarrow> s' = s) \<and>
    (r = 0 \<longrightarrow> (\<exists>e\<in>in_use s. e = target c envid \<and> env_ipc_recving (envs s e) \<and>
      \<not> env_ipc_recving (envs s' e) \<and> env_ipc_from (envs s' e) = env_id (envs s c) \<and>
      env_ipc_value (envs s' e) = msg \<and> env_status (envs s' e) = ENV_RUNNABLE \<and>
      reg_eax (tf_regs (env_tf (envs s' e))) = 0 \<and> page_sent c e srcva perm s s' \<and>
      (\<forall>i. i \<noteq> e \<longrightarrow> envs s' i = envs s i) \<and>
      (\<forall>i\<in>in_use s. i \<noteq> e \<longrightarrow> env_space i s' = env_space i s)))"
proof -
  from sys_ipc_try_send_ok [OF assms, of envid msg] obtain r s' where
    s': "sys_ipc_try_send junk envid msg srcva perm s = Some (Returns r s')"
    "call_post (target c envid) r s s'" "r \<noteq> 0 \<longrightarrow> s' = s"
    "r = 0 \<longrightarrow> target c envid \<in> in_use s \<and> env_ipc_recving (envs s (target c envid)) \<and>
      delivered c (target c envid) msg s s' \<and> page_sent c (target c envid) srcva perm s s'" by blast
  note result = conjI [OF s'(1) conjI [OF sys_ipc_try_send_result [OF assms s'(1)]]]
  from s'(2-4) show ?thesis
    by - (rule exI [of _ r], rule exI [of _ s'], rule result,
      cases "r = 0"; simp add: call_post_def delivered_def env_space_def Let_def)
qed

text \<open>The environment of the demonstration state, marked as waiting for a page at \<open>0x900000\<close>.\<close>

definition ipc_demo :: kstate where
  "ipc_demo = upd_env 0 (\<lambda>v. v\<lparr>env_ipc_recving := True, env_ipc_dstva := 0x900000\<rparr>) (cow_demo 0xC805)"

lemma ipc_demo_facts:
  "kinv ipc_demo" "curenv ipc_demo = Some 0" "refs_room ipc_demo" "free_pages ipc_demo = [13, 9, 10, 11]"
  "env_view i ipc_demo = env_view i (cow_demo 0xC805)" "env_ipc_recving (envs ipc_demo 0)"
  "env_ipc_dstva (envs ipc_demo 0) = 0x900000" "in_use ipc_demo = {0}" "envid2env 0x1000 p ipc_demo = Some (Inr (Some 0))"
proof -
  have e: "0 \<in> in_use (cow_demo 0xC805)" by (simp add: cow_in_use)
  note u = call_post_upd_env [OF cow_ready(1) e, of "\<lambda>v. v\<lparr>env_ipc_recving := True, env_ipc_dstva := 0x900000\<rparr>", folded ipc_demo_def]
  have "call_post 0 0 (cow_demo 0xC805) ipc_demo" by (rule u; simp add: demo_env_def)
  then show "kinv ipc_demo" by (simp add: call_post_def)
  show "env_view i ipc_demo = env_view i (cow_demo 0xC805)" by (rule u; simp add: demo_env_def)
  have "free_pages ipc_demo = free_pages (cow_demo 0xC805)" by (rule pages_ok_cong) (simp_all add: ipc_demo_def upd_env_def)
  then show "free_pages ipc_demo = [13, 9, 10, 11]" by (simp add: cow_pages)
  show c: "curenv ipc_demo = Some 0" using cow_ready(2) by (simp add: ipc_demo_def upd_env_def curenv_def)
  show "in_use ipc_demo = {0}" by (auto simp: ipc_demo_def in_use_def upd_env_def demo_env_def env_zero_def)
  show "refs_room ipc_demo" using cow_ready(3) by (simp add: ipc_demo_def refs_room_def upd_env_def)
  show "env_ipc_recving (envs ipc_demo 0)" "env_ipc_dstva (envs ipc_demo 0) = 0x900000"
    by (simp_all add: ipc_demo_def upd_env_def)
  show "envid2env 0x1000 p ipc_demo = Some (Inr (Some 0))"
    by (simp add: envid2env_def Let_def c ENVX_def) (simp add: ipc_demo_def upd_env_def demo_env_def)
qed

text \<open>
  The page is sent with the permissions 5; with none at all, which the comment forbids, it is sent as
  well, read-only for the kernel; an unmapped page offered at a misaligned address is refused.
\<close>

theorem sys_ipc_try_send_correct_witness:
  "(\<exists>s'. sys_ipc_try_send 0 0x1000 42 0x800000 5 ipc_demo = Some (Returns 0 s') \<and> kinv s' \<and>
     env_ipc_value (envs s' 0) = 42 \<and> \<not> env_ipc_recving (envs s' 0) \<and> env_view 0 s' 0x900000 = 0xC005) \<and>
   (\<exists>s'. sys_ipc_try_send 0 0x1000 42 0x800000 0 ipc_demo = Some (Returns 0 s') \<and> env_view 0 s' 0x900000 = 0xC001) \<and>
   sys_ipc_try_send 0 0x1000 42 0x900004 5 ipc_demo = Some (Returns (- E_INVAL) ipc_demo)"
proof -
  note D = ipc_demo_facts
  note t = sys_ipc_try_send_correct [OF D(1,2), where envid = "0x1000" and msg = 42 and junk = 0]
  have x: "target 0 0x1000 = 0" by (simp add: target_def ENVX_def)
  have o: "\<not> bad_offer 0 0x800000 5 ipc_demo" "\<not> bad_offer 0 0x800000 0 ipc_demo" "bad_offer 0 0x900004 5 ipc_demo"
    by (simp_all add: bad_offer_def PGOFF_def D(5) cow_view cow_addrs)
  have l: "offer_readable 0 0 0x800000 ipc_demo" "offer_readable 0 0 0x900004 ipc_demo"
    by (simp_all add: offer_readable_def PGOFF_def D(5) cow_view cow_addrs)
  from t [of "0x800000" 5] obtain s' where
    s': "sys_ipc_try_send 0 0x1000 42 0x800000 5 ipc_demo = Some (Returns 0 s')" "kinv s'"
    "env_ipc_value (envs s' 0) = 42" "\<not> env_ipc_recving (envs s' 0)" "page_sent 0 0 0x800000 5 ipc_demo s'"
    by (auto simp: D o x l)
  from s'(5) have "env_view 0 s' 0x900000 = 0xC005"
    by (auto simp: page_sent_def D cow_view cow_addrs) (simp add: PTE_ADDR_def)
  moreover from t [of "0x800000" 0] obtain s2 where
    s2: "sys_ipc_try_send 0 0x1000 42 0x800000 0 ipc_demo = Some (Returns 0 s2)" "page_sent 0 0 0x800000 0 ipc_demo s2"
    by (auto simp: D o x l)
  moreover from s2(2) have "env_view 0 s2 0x900000 = 0xC001"
    by (auto simp: page_sent_def D cow_view cow_addrs) (simp add: PTE_ADDR_def)
  moreover from t [of "0x900004" 5] have
    "sys_ipc_try_send 0 0x1000 42 0x900004 5 ipc_demo = Some (Returns (- E_INVAL) ipc_demo)"
    by (auto simp: D o x l)
  ultimately show ?thesis using s' by blast
qed

text \<open>
  C18. A receiver blocks: unless the address is misaligned (an error that changes nothing), the call
  never returns to it. The CPU goes to another environment, halts or enters the monitor, and the
  caller is left waiting, not runnable, with its message fields cleared.
\<close>

theorem sys_ipc_recv_blocks:
  assumes "curenv s = Some c" and "sys_ipc_recv dstva s = Some r"
  shows "r = Returns (- E_INVAL) s \<and> dstva < UTOP \<and> PGOFF dstva \<noteq> 0 \<or>
    (\<exists>x s'. r = Leaves x s' \<and> x \<noteq> ToUser c \<and> env_ipc_recving (envs s' c) \<and>
      env_ipc_dstva (envs s' c) = dstva \<and> env_ipc_from (envs s' c) = 0 \<and> env_ipc_value (envs s' c) = 0 \<and>
      env_status (envs s' c) = ENV_NOT_RUNNABLE)"
proof (cases "dstva < UTOP \<and> PGOFF dstva \<noteq> 0")
  case True
  with assms show ?thesis by (simp add: sys_ipc_recv_def)
next
  case False
  define s1 where "s1 = upd_env c (\<lambda>v. v\<lparr>env_ipc_recving := True, env_ipc_dstva := dstva,
           env_ipc_value := 0, env_ipc_from := 0, env_ipc_perm := 0,
           env_status := ENV_NOT_RUNNABLE\<rparr>) s"
  have y: "sched_yield s1 = Some r" using False assms by (auto simp: sys_ipc_recv_def s1_def)
  have st: "env_status (envs s1 c) = ENV_NOT_RUNNABLE" "env_ipc_recving (envs s1 c)" "env_ipc_dstva (envs s1 c) = dstva"
    "env_ipc_from (envs s1 c) = 0" "env_ipc_value (envs s1 c) = 0" and cu: "curenv s1 = Some c"
    using assms(1) by (simp_all add: s1_def upd_env_def curenv_def)
  show ?thesis
  proof (cases "sched_choice s1")
    case None
    with y cu st have "sched_halt s1 = Some r" by (simp add: sched_yield_choice)
    then obtain x s' where "r = Leaves x s'" "envs s' = envs s1" "x = Halted \<or> x = InMonitor"
      by (auto simp: sched_halt_def frame_simps cpu_set_status_def set_curenv_def lcr3_def bind_eq_Some_conv
          split: if_splits)
    with st show ?thesis by auto
  next
    case (Some i)
    with y have run: "env_run i s1 = Some r" by (simp add: sched_yield_choice)
    have "env_status (envs s1 i) = ENV_RUNNABLE"
      using Some unfolding sched_choice_def find_round_robin by blast
    with st have "i \<noteq> c" by auto
    from run obtain s' where "r = Leaves (ToUser i) s'" "runs i s1 s'" by (rule env_run_cases)
    with \<open>i \<noteq> c\<close> st show ?thesis by (auto simp: runs_def preempted_def)
  qed
qed

theorem sys_ipc_recv_blocks_witness:
  "\<exists>x s'. sys_ipc_recv UTOP demo = Some (Leaves x s') \<and> x \<noteq> ToUser 0 \<and>
     env_ipc_recving (envs s' 0) \<and> env_status (envs s' 0) = ENV_NOT_RUNNABLE"
proof -
  define s1 where "s1 = upd_env 0 (\<lambda>v. v\<lparr>env_ipc_recving := True, env_ipc_dstva := UTOP,
           env_ipc_value := 0, env_ipc_from := 0, env_ipc_perm := 0,
           env_status := ENV_NOT_RUNNABLE\<rparr>) demo"
  have st: "env_status (envs s1 i) = (if i = 0 then ENV_NOT_RUNNABLE else ENV_FREE)" for i
    by (simp add: s1_def upd_env_def demo_env_def env_zero_def)
  have c: "curenv s1 = Some 0" by (simp add: s1_def upd_env_def curenv_def demo_cpu_def)
  have "sched_choice s1 = None" unfolding sched_choice_def by (intro find_round_robin_None) (simp add: st)
  moreover have "sched_halt s1 = Some (Leaves InMonitor s1)" unfolding sched_halt_def st by simp
  ultimately have "sched_yield s1 = Some (Leaves InMonitor s1)" by (simp add: sched_yield_choice c st)
  then have r: "sys_ipc_recv UTOP demo = Some (Leaves InMonitor s1)" by (simp add: sys_ipc_recv_def s1_def)
  from sys_ipc_recv_blocks [OF demo_curenv r] r show ?thesis by auto
qed

end
