(* ===== verification/Selfcheck.thy ===== *)
theory Selfcheck
  imports Vmem
begin

text \<open>
  The boot-time self-tests of \<^verbatim>\<open>kern/pmap.c\<close>, as the code runs them: each is a transformer of
  the kernel state that panics (\<^term>\<open>None\<close>) when one of its assertions fails. A panic of such a
  test at boot takes the machine down, so they belong to the behaviour of \<^verbatim>\<open>mem_init\<close>.
\<close>

section \<open>Assertions and list loops\<close>

definition kassert :: "bool \<Rightarrow> unit option" where
  "kassert b = (if b then Some () else None)"

partial_function (option) list_loop ::
  "(nat \<Rightarrow> 'a \<Rightarrow> kstate \<Rightarrow> ('a \<times> kstate) option) \<Rightarrow> nat option \<Rightarrow> 'a \<Rightarrow> kstate \<Rightarrow> ('a \<times> kstate) option" where
  "list_loop body pp acc s =
     (case pp of
        None \<Rightarrow> Some (acc, s)
      | Some i \<Rightarrow> do {
          r \<leftarrow> body i acc s;
          list_loop body (pp_link (pages (snd r) i)) (fst r) (snd r)})"

section \<open>The free list\<close>

text \<open>Where the next element of a sorted half is stored: a local head or a link field.\<close>

datatype cell = Head | LinkOf nat

definition cell_store :: "cell \<Rightarrow> nat option \<Rightarrow> nat option \<times> kstate \<Rightarrow> nat option \<times> kstate" where
  "cell_store c v hs =
     (case c of
        Head \<Rightarrow> (v, snd hs)
      | LinkOf i \<Rightarrow> (fst hs, set_page i ((pages (snd hs) i)\<lparr>pp_link := v\<rparr>) (snd hs)))"

text \<open>The accumulator holds \<^verbatim>\<open>tp[0]\<close>, \<^verbatim>\<open>pp1\<close>, \<^verbatim>\<open>tp[1]\<close> and \<^verbatim>\<open>pp2\<close>.\<close>

definition low_first_body ::
  "u32 \<Rightarrow> nat \<Rightarrow> (cell \<times> nat option) \<times> (cell \<times> nat option) \<Rightarrow> kstate \<Rightarrow>
   (((cell \<times> nat option) \<times> (cell \<times> nat option)) \<times> kstate) option" where
  "low_first_body pdx_limit pp acc s =
     (let ((tp0, pp1), (tp1, pp2)) = acc in
      if PDX (page2pa pp) \<ge> pdx_limit then
        (let (pp2, s) = cell_store tp1 (Some pp) (pp2, s) in Some (((tp0, pp1), (LinkOf pp, pp2)), s))
      else
        (let (pp1, s) = cell_store tp0 (Some pp) (pp1, s) in Some (((LinkOf pp, pp1), (tp1, pp2)), s)))"

definition low_first :: "u32 \<Rightarrow> kstate \<Rightarrow> kstate option" where
  "low_first pdx_limit s = do {
     (((tp0, pp1), (tp1, pp2)), s) \<leftarrow>
       list_loop (low_first_body pdx_limit) (page_free_list s) ((Head, None), (Head, None)) s;
     let (pp2, s) = cell_store tp1 None (pp2, s);
     let (pp1, s) = cell_store tp0 pp2 (pp1, s);
     Some (s\<lparr>page_free_list := pp1\<rparr>)}"

definition poison_body :: "u32 \<Rightarrow> nat \<Rightarrow> unit \<Rightarrow> kstate \<Rightarrow> (unit \<times> kstate) option" where
  "poison_body pdx_limit pp u s =
     (if PDX (page2pa pp) < pdx_limit then do {
        kva \<leftarrow> page2kva s pp;
        Some ((), memset_words kva 0x97 128 s)}
      else Some ((), s))"

definition free_list_body :: "u32 \<Rightarrow> nat \<Rightarrow> nat \<times> nat \<Rightarrow> kstate \<Rightarrow> ((nat \<times> nat) \<times> kstate) option" where
  "free_list_body first_free_page pp cnt s = do {
     _ \<leftarrow> kassert (pp < unat (npages s));
     _ \<leftarrow> kassert (page2pa pp \<noteq> 0);
     _ \<leftarrow> kassert (page2pa pp \<noteq> IOPHYSMEM);
     _ \<leftarrow> kassert (page2pa pp \<noteq> EXTPHYSMEM - PGSIZE);
     _ \<leftarrow> kassert (page2pa pp \<noteq> EXTPHYSMEM);
     _ \<leftarrow> (if page2pa pp < EXTPHYSMEM then Some ()
          else do { kva \<leftarrow> page2kva s pp; kassert (kva \<ge> first_free_page) });
     _ \<leftarrow> kassert (page2pa pp \<noteq> MPENTRY_PADDR);
     Some (if page2pa pp < EXTPHYSMEM then (fst cnt + 1, snd cnt) else (fst cnt, snd cnt + 1), s)}"

definition check_page_free_list :: "u32 \<Rightarrow> bool \<Rightarrow> kstate \<Rightarrow> kstate option" where
  "check_page_free_list kend only_low_memory s =
     (let pdx_limit = (if only_low_memory then 1 else 1024) in do {
        _ \<leftarrow> kassert (page_free_list s \<noteq> None);
        s \<leftarrow> (if only_low_memory then low_first pdx_limit s else Some s);
        (_, s) \<leftarrow> list_loop (poison_body pdx_limit) (page_free_list s) () s;
        (first_free_page, s) \<leftarrow> boot_alloc kend 0 s;
        ((nfree_basemem, nfree_extmem), s) \<leftarrow>
          list_loop (free_list_body first_free_page) (page_free_list s) (0, 0) s;
        _ \<leftarrow> kassert (nfree_basemem > 0);
        _ \<leftarrow> kassert (nfree_extmem > 0);
        Some s})"

section \<open>The allocator\<close>

definition count_body :: "nat \<Rightarrow> nat \<Rightarrow> kstate \<Rightarrow> (nat \<times> kstate) option" where
  "count_body pp n s = Some (n + 1, s)"

text \<open>\<^verbatim>\<open>assert((pp = page_alloc(flags)))\<close>\<close>

definition must_alloc :: "u32 \<Rightarrow> kstate \<Rightarrow> (nat \<times> kstate) option" where
  "must_alloc flags s = do {
     (r, s) \<leftarrow> page_alloc flags s;
     (case r of None \<Rightarrow> None | Some pp \<Rightarrow> Some (pp, s))}"

text \<open>\<^verbatim>\<open>assert(!page_alloc(0))\<close>\<close>

definition must_fail :: "kstate \<Rightarrow> kstate option" where
  "must_fail s = do {
     (r, s) \<leftarrow> page_alloc 0 s;
     (case r of None \<Rightarrow> Some s | Some _ \<Rightarrow> None)}"

definition three_pages :: "kstate \<Rightarrow> ((nat \<times> nat \<times> nat) \<times> kstate) option" where
  "three_pages s = do {
     (pp0, s) \<leftarrow> must_alloc 0 s;
     (pp1, s) \<leftarrow> must_alloc 0 s;
     (pp2, s) \<leftarrow> must_alloc 0 s;
     _ \<leftarrow> kassert (pp1 \<noteq> pp0);
     _ \<leftarrow> kassert (pp2 \<noteq> pp1 \<and> pp2 \<noteq> pp0);
     Some ((pp0, pp1, pp2), s)}"

text \<open>
  The byte loop that tests for a cleared page looks at every byte; a word is zero exactly when
  its four bytes are.
\<close>

definition page_is_zero :: "nat \<Rightarrow> kstate \<Rightarrow> bool" where
  "page_is_zero pp s \<longleftrightarrow> (\<forall>k\<in>set [0..<1024]. phys s (page2pa pp + 4 * of_nat k) = 0)"

definition check_page_alloc :: "kstate \<Rightarrow> kstate option" where
  "check_page_alloc s = do {
     _ \<leftarrow> kassert (pages_va s \<noteq> 0);
     (nfree, s) \<leftarrow> list_loop count_body (page_free_list s) 0 s;
     ((pp0, pp1, pp2), s) \<leftarrow> three_pages s;
     _ \<leftarrow> kassert (page2pa pp0 < npages s * PGSIZE);
     _ \<leftarrow> kassert (page2pa pp1 < npages s * PGSIZE);
     _ \<leftarrow> kassert (page2pa pp2 < npages s * PGSIZE);
     let fl = page_free_list s;
     let s = s\<lparr>page_free_list := None\<rparr>;
     s \<leftarrow> must_fail s;
     s \<leftarrow> page_free pp0 s;
     s \<leftarrow> page_free pp1 s;
     s \<leftarrow> page_free pp2 s;
     ((pp0, pp1, pp2), s) \<leftarrow> three_pages s;
     s \<leftarrow> must_fail s;
     kva \<leftarrow> page2kva s pp0;
     let s = memset_words kva 1 PGSIZE s;
     s \<leftarrow> page_free pp0 s;
     (pp, s) \<leftarrow> must_alloc ALLOC_ZERO s;
     _ \<leftarrow> kassert (pp0 = pp);
     _ \<leftarrow> page2kva s pp;
     _ \<leftarrow> kassert (page_is_zero pp s);
     let s = s\<lparr>page_free_list := fl\<rparr>;
     s \<leftarrow> page_free pp0 s;
     s \<leftarrow> page_free pp1 s;
     s \<leftarrow> page_free pp2 s;
     (nfree', s) \<leftarrow> list_loop count_body (page_free_list s) 0 s;
     _ \<leftarrow> kassert (nfree = nfree');
     Some s}"

section \<open>The kernel's mappings\<close>

definition check_range :: "u32 \<Rightarrow> u32 \<Rightarrow> nat \<Rightarrow> u32 \<Rightarrow> kstate \<Rightarrow> unit option" where
  "check_range pgdir va n pa s =
     foldM (\<lambda>k _. do {
       r \<leftarrow> check_va2pa pgdir (va + of_nat k * PGSIZE) s;
       kassert (r = pa + of_nat k * PGSIZE)}) [0..<n] ()"

definition check_gap :: "u32 \<Rightarrow> u32 \<Rightarrow> nat \<Rightarrow> kstate \<Rightarrow> unit option" where
  "check_gap pgdir va n s =
     foldM (\<lambda>k _. do {
       r \<leftarrow> check_va2pa pgdir (va + of_nat k * PGSIZE) s;
       kassert (r = NOT 0)}) [0..<n] ()"

definition check_pde :: "u32 \<Rightarrow> kstate \<Rightarrow> nat \<Rightarrow> unit \<Rightarrow> unit option" where
  "check_pde pgdir s i u =
     (let e = ld s (pgdir + 4 * of_nat i) in
      if of_nat i \<in> {PDX UVPT, PDX (KSTACKTOP - 1), PDX UPAGES, PDX UENVS, PDX MMIOBASE}
      then kassert (e AND PTE_P \<noteq> 0)
      else if i \<ge> unat (PDX KERNBASE) then do {
        _ \<leftarrow> kassert (e AND PTE_P \<noteq> 0);
        kassert (e AND PTE_W \<noteq> 0)}
      else kassert (e = 0))"

abbreviation (input) sizeof_PageInfo :: u32 where "sizeof_PageInfo \<equiv> 8"
abbreviation (input) sizeof_Env :: u32 where "sizeof_Env \<equiv> 124"

definition page_count :: "u32 \<Rightarrow> nat" where
  "page_count sz = unat (ROUNDUP sz PGSIZE) div 4096"

text \<open>\<open>kstack i\<close> is the address of \<^verbatim>\<open>percpu_kstacks[i]\<close>.\<close>

definition check_kern_pgdir :: "(nat \<Rightarrow> u32) \<Rightarrow> kstate \<Rightarrow> unit option" where
  "check_kern_pgdir kstack s =
     (let pgdir = kern_pgdir s in do {
        _ \<leftarrow> check_range pgdir UPAGES (page_count (npages s * sizeof_PageInfo)) (page2pa 0) s;
        pa \<leftarrow> PADDR (envs_va s);
        _ \<leftarrow> check_range pgdir UENVS (page_count (1024 * sizeof_Env)) pa s;
        _ \<leftarrow> check_range pgdir KERNBASE (unat (npages s * PGSIZE) div 4096) 0 s;
        _ \<leftarrow> foldM (\<lambda>n _.
               let base = KSTACKTOP - (KSTKSIZE + KSTKGAP) * (of_nat n + 1) in do {
                 pa \<leftarrow> PADDR (kstack n);
                 _ \<leftarrow> check_range pgdir (base + KSTKGAP) 8 pa s;
                 check_gap pgdir base 8 s}) [0..<NCPU] ();
        foldM (check_pde pgdir s) [0..<NPDENTRIES] ()})"

section \<open>Mapping and unmapping\<close>

definition insert_ok :: "nat \<Rightarrow> u32 \<Rightarrow> u32 \<Rightarrow> kstate \<Rightarrow> kstate option" where
  "insert_ok pp va perm s = do {
     (r, s) \<leftarrow> page_insert (kern_pgdir s) pp va perm s;
     _ \<leftarrow> kassert (r = 0);
     Some s}"

definition insert_fails :: "nat \<Rightarrow> u32 \<Rightarrow> u32 \<Rightarrow> kstate \<Rightarrow> kstate option" where
  "insert_fails pp va perm s = do {
     (r, s) \<leftarrow> page_insert (kern_pgdir s) pp va perm s;
     _ \<leftarrow> kassert (sint r < 0);
     Some s}"

definition maps_to :: "u32 \<Rightarrow> u32 \<Rightarrow> kstate \<Rightarrow> unit option" where
  "maps_to va pa s = do { r \<leftarrow> check_va2pa (kern_pgdir s) va s; kassert (r = pa) }"

definition has_refs :: "nat \<Rightarrow> u16 \<Rightarrow> kstate \<Rightarrow> unit option" where
  "has_refs pp n s = kassert (pp_ref (pages s pp) = n)"

text \<open>\<^verbatim>\<open>*pgdir_walk(kern_pgdir, va, 0)\<close>, as a value and as a place to store to.\<close>

definition pte_at :: "u32 \<Rightarrow> kstate \<Rightarrow> u32 option" where
  "pte_at va s = do {
     (e, _) \<leftarrow> pgdir_walk (kern_pgdir s) va False s;
     (case e of None \<Rightarrow> None | Some e \<Rightarrow> Some (ld s e))}"

definition pte_clear :: "u32 \<Rightarrow> kstate \<Rightarrow> kstate option" where
  "pte_clear va s = do {
     (e, s) \<leftarrow> pgdir_walk (kern_pgdir s) va False s;
     (case e of None \<Rightarrow> None | Some e \<Rightarrow> Some (st e 0 s))}"

definition set_refs :: "nat \<Rightarrow> u16 \<Rightarrow> kstate \<Rightarrow> kstate" where
  "set_refs pp n s = set_page pp ((pages s pp)\<lparr>pp_ref := n\<rparr>) s"

text \<open>\<^verbatim>\<open>check_page\<close> up to the point where two pages are mapped and counted correctly.\<close>

definition check_page_mapping :: "nat \<Rightarrow> nat \<Rightarrow> nat \<Rightarrow> kstate \<Rightarrow> kstate option" where
  "check_page_mapping pp0 pp1 pp2 s = do {
     s \<leftarrow> must_fail s;
     r \<leftarrow> page_lookup (kern_pgdir s) 0 s;
     _ \<leftarrow> kassert (r = None);
     s \<leftarrow> insert_fails pp1 0 PTE_W s;
     s \<leftarrow> page_free pp0 s;
     s \<leftarrow> insert_ok pp1 0 PTE_W s;
     _ \<leftarrow> kassert (PTE_ADDR (ld s (kern_pgdir s)) = page2pa pp0);
     _ \<leftarrow> maps_to 0 (page2pa pp1) s;
     _ \<leftarrow> has_refs pp1 1 s;
     _ \<leftarrow> has_refs pp0 1 s;
     s \<leftarrow> insert_ok pp2 PGSIZE PTE_W s;
     _ \<leftarrow> maps_to PGSIZE (page2pa pp2) s;
     _ \<leftarrow> has_refs pp2 1 s;
     s \<leftarrow> must_fail s;
     s \<leftarrow> insert_ok pp2 PGSIZE PTE_W s;
     _ \<leftarrow> maps_to PGSIZE (page2pa pp2) s;
     _ \<leftarrow> has_refs pp2 1 s;
     s \<leftarrow> must_fail s;
     ptep \<leftarrow> KADDR s (PTE_ADDR (ld s (kern_pgdir s + 4 * PDX PGSIZE)));
     (e, s) \<leftarrow> pgdir_walk (kern_pgdir s) PGSIZE False s;
     _ \<leftarrow> kassert (e = Some (ptep + 4 * PTX PGSIZE));
     s \<leftarrow> insert_ok pp2 PGSIZE (PTE_W OR PTE_U) s;
     _ \<leftarrow> maps_to PGSIZE (page2pa pp2) s;
     _ \<leftarrow> has_refs pp2 1 s;
     v \<leftarrow> pte_at PGSIZE s;
     _ \<leftarrow> kassert (v AND PTE_U \<noteq> 0);
     _ \<leftarrow> kassert (ld s (kern_pgdir s) AND PTE_U \<noteq> 0);
     s \<leftarrow> insert_ok pp2 PGSIZE PTE_W s;
     v \<leftarrow> pte_at PGSIZE s;
     _ \<leftarrow> kassert (v AND PTE_W \<noteq> 0);
     _ \<leftarrow> kassert (v AND PTE_U = 0);
     s \<leftarrow> insert_fails pp0 PTSIZE PTE_W s;
     s \<leftarrow> insert_ok pp1 PGSIZE PTE_W s;
     v \<leftarrow> pte_at PGSIZE s;
     _ \<leftarrow> kassert (v AND PTE_U = 0);
     _ \<leftarrow> maps_to 0 (page2pa pp1) s;
     _ \<leftarrow> maps_to PGSIZE (page2pa pp1) s;
     _ \<leftarrow> has_refs pp1 2 s;
     _ \<leftarrow> has_refs pp2 0 s;
     Some s}"

definition check_page_unmapping :: "nat \<Rightarrow> nat \<Rightarrow> nat \<Rightarrow> kstate \<Rightarrow> kstate option" where
  "check_page_unmapping pp0 pp1 pp2 s = do {
     (pp, s) \<leftarrow> must_alloc 0 s;
     _ \<leftarrow> kassert (pp = pp2);
     s \<leftarrow> page_remove (kern_pgdir s) 0 s;
     _ \<leftarrow> maps_to 0 (NOT 0) s;
     _ \<leftarrow> maps_to PGSIZE (page2pa pp1) s;
     _ \<leftarrow> has_refs pp1 1 s;
     _ \<leftarrow> has_refs pp2 0 s;
     s \<leftarrow> insert_ok pp1 PGSIZE 0 s;
     _ \<leftarrow> kassert (pp_ref (pages s pp1) \<noteq> 0);
     _ \<leftarrow> kassert (pp_link (pages s pp1) = None);
     s \<leftarrow> page_remove (kern_pgdir s) PGSIZE s;
     _ \<leftarrow> maps_to 0 (NOT 0) s;
     _ \<leftarrow> maps_to PGSIZE (NOT 0) s;
     _ \<leftarrow> has_refs pp1 0 s;
     _ \<leftarrow> has_refs pp2 0 s;
     (pp, s) \<leftarrow> must_alloc 0 s;
     _ \<leftarrow> kassert (pp = pp1);
     s \<leftarrow> must_fail s;
     _ \<leftarrow> kassert (PTE_ADDR (ld s (kern_pgdir s)) = page2pa pp0);
     let s = st (kern_pgdir s) 0 s;
     _ \<leftarrow> has_refs pp0 1 s;
     Some (set_refs pp0 0 s)}"

definition check_page_tables :: "nat \<Rightarrow> kstate \<Rightarrow> kstate option" where
  "check_page_tables pp0 s = do {
     s \<leftarrow> page_free pp0 s;
     let va = PGSIZE * 1024 + PGSIZE;
     (ptep, s) \<leftarrow> pgdir_walk (kern_pgdir s) va True s;
     ptep1 \<leftarrow> KADDR s (PTE_ADDR (ld s (kern_pgdir s + 4 * PDX va)));
     _ \<leftarrow> kassert (ptep = Some (ptep1 + 4 * PTX va));
     let s = set_refs pp0 0 (st (kern_pgdir s + 4 * PDX va) 0 s);
     kva \<leftarrow> page2kva s pp0;
     let s = memset_words kva 0xFF PGSIZE s;
     s \<leftarrow> page_free pp0 s;
     (_, s) \<leftarrow> pgdir_walk (kern_pgdir s) 0 True s;
     ptep \<leftarrow> page2kva s pp0;
     _ \<leftarrow> kassert (\<forall>i\<in>set [0..<NPTENTRIES]. ld s (ptep + 4 * of_nat i) AND PTE_P = 0);
     Some (set_refs pp0 0 (st (kern_pgdir s) 0 s))}"

definition check_page_mmio :: "kstate \<Rightarrow> kstate option" where
  "check_page_mmio s = do {
     (mm1, s) \<leftarrow> mmio_map_region 0 4097 s;
     (mm2, s) \<leftarrow> mmio_map_region 0 4096 s;
     _ \<leftarrow> kassert (mm1 \<ge> MMIOBASE \<and> mm1 + 8192 < MMIOLIM);
     _ \<leftarrow> kassert (mm2 \<ge> MMIOBASE \<and> mm2 + 8192 < MMIOLIM);
     _ \<leftarrow> kassert (mm1 mod PGSIZE = 0 \<and> mm2 mod PGSIZE = 0);
     _ \<leftarrow> kassert (mm1 + 8192 \<le> mm2);
     _ \<leftarrow> maps_to mm1 0 s;
     _ \<leftarrow> maps_to (mm1 + PGSIZE) PGSIZE s;
     _ \<leftarrow> maps_to mm2 0 s;
     _ \<leftarrow> maps_to (mm2 + PGSIZE) (NOT 0) s;
     v \<leftarrow> pte_at mm1 s;
     _ \<leftarrow> kassert (v AND (PTE_W OR PTE_PWT OR PTE_PCD) \<noteq> 0);
     _ \<leftarrow> kassert (v AND PTE_U = 0);
     s \<leftarrow> pte_clear mm1 s;
     s \<leftarrow> pte_clear (mm1 + PGSIZE) s;
     pte_clear mm2 s}"

definition check_page :: "kstate \<Rightarrow> kstate option" where
  "check_page s = do {
     ((pp0, pp1, pp2), s) \<leftarrow> three_pages s;
     let fl = page_free_list s;
     let s = s\<lparr>page_free_list := None\<rparr>;
     s \<leftarrow> check_page_mapping pp0 pp1 pp2 s;
     s \<leftarrow> check_page_unmapping pp0 pp1 pp2 s;
     s \<leftarrow> check_page_tables pp0 s;
     let s = s\<lparr>page_free_list := fl\<rparr>;
     s \<leftarrow> page_free pp0 s;
     s \<leftarrow> page_free pp1 s;
     s \<leftarrow> page_free pp2 s;
     check_page_mmio s}"

section \<open>Accesses through an installed directory\<close>

definition check_page_installed_pgdir :: "kstate \<Rightarrow> kstate option" where
  "check_page_installed_pgdir s = do {
     (pp0, s) \<leftarrow> must_alloc 0 s;
     (pp1, s) \<leftarrow> must_alloc 0 s;
     (pp2, s) \<leftarrow> must_alloc 0 s;
     s \<leftarrow> page_free pp0 s;
     kva1 \<leftarrow> page2kva s pp1;
     let s = memset_words kva1 1 PGSIZE s;
     kva2 \<leftarrow> page2kva s pp2;
     let s = memset_words kva2 2 PGSIZE s;
     (_, s) \<leftarrow> page_insert (kern_pgdir s) pp1 PGSIZE PTE_W s;
     _ \<leftarrow> has_refs pp1 1 s;
     v \<leftarrow> vld32 PGSIZE s;
     _ \<leftarrow> kassert (v = 0x01010101);
     (_, s) \<leftarrow> page_insert (kern_pgdir s) pp2 PGSIZE PTE_W s;
     v \<leftarrow> vld32 PGSIZE s;
     _ \<leftarrow> kassert (v = 0x02020202);
     _ \<leftarrow> has_refs pp2 1 s;
     _ \<leftarrow> has_refs pp1 0 s;
     s \<leftarrow> vst32 PGSIZE 0x03030303 s;
     _ \<leftarrow> kassert (ld s kva2 = 0x03030303);
     s \<leftarrow> page_remove (kern_pgdir s) PGSIZE s;
     _ \<leftarrow> has_refs pp2 0 s;
     _ \<leftarrow> kassert (PTE_ADDR (ld s (kern_pgdir s)) = page2pa pp0);
     let s = st (kern_pgdir s) 0 s;
     _ \<leftarrow> has_refs pp0 1 s;
     page_free pp0 (set_refs pp0 0 s)}"

end
