(* ===== verification/Meminit.thy ===== *)
theory Meminit
  imports Selfcheck
begin

text \<open>
  Memory detection and the construction of the kernel's address space (\<^verbatim>\<open>i386_detect_memory\<close>,
  \<^verbatim>\<open>mem_init\<close>, \<^verbatim>\<open>mem_init_mp\<close> of \<^verbatim>\<open>kern/pmap.c\<close>). The content of the CMOS is the parameter
  \<open>cmos\<close>; the linker's symbols \<^verbatim>\<open>end\<close>, \<^verbatim>\<open>bootstack\<close> and the per-CPU stacks are \<open>kend\<close>,
  \<open>bootstack\<close> and \<open>kstack\<close>. The arrays \<^verbatim>\<open>pages\<close> and \<^verbatim>\<open>envs\<close> are fields of the state, so the
  calls that clear them clear those fields; \<open>pages_va\<close> and \<open>envs_va\<close> are where the boot
  allocator placed them.
\<close>

section \<open>Detecting memory\<close>

abbreviation (input) NVRAM_BASELO :: u32 where "NVRAM_BASELO \<equiv> 0x15"
abbreviation (input) NVRAM_EXTLO :: u32 where "NVRAM_EXTLO \<equiv> 0x17"
abbreviation (input) NVRAM_EXT16LO :: u32 where "NVRAM_EXT16LO \<equiv> 0x34"

definition mc146818_read :: "(u32 \<Rightarrow> u8) \<Rightarrow> u32 \<Rightarrow> u32" where
  "mc146818_read cmos reg = ucast (cmos reg)"

definition nvram_read :: "(u32 \<Rightarrow> u8) \<Rightarrow> u32 \<Rightarrow> u32" where
  "nvram_read cmos r = mc146818_read cmos r OR push_bit 8 (mc146818_read cmos (r + 1))"

definition i386_detect_memory :: "(u32 \<Rightarrow> u8) \<Rightarrow> kstate \<Rightarrow> kstate" where
  "i386_detect_memory cmos s =
     (let basemem = nvram_read cmos NVRAM_BASELO;
          extmem = nvram_read cmos NVRAM_EXTLO;
          ext16mem = nvram_read cmos NVRAM_EXT16LO * 64;
          totalmem = (if ext16mem \<noteq> 0 then 16 * 1024 + ext16mem
                      else if extmem \<noteq> 0 then 1 * 1024 + extmem
                      else basemem)
      in s\<lparr>npages := totalmem div (PGSIZE div 1024), npages_basemem := basemem div (PGSIZE div 1024)\<rparr>)"

section \<open>The kernel's address space\<close>

definition mem_init_mp :: "(nat \<Rightarrow> u32) \<Rightarrow> kstate \<Rightarrow> kstate option" where
  "mem_init_mp kstack s =
     foldM (\<lambda>i s. do {
       pa \<leftarrow> PADDR (kstack i);
       boot_map_region (kern_pgdir s) (KSTACKTOP - (KSTKSIZE + KSTKGAP) * of_nat i - KSTKSIZE)
         KSTKSIZE pa PTE_W s}) [0..<NCPU] s"

definition pgdir_create :: "u32 \<Rightarrow> kstate \<Rightarrow> kstate option" where
  "pgdir_create kend s = do {
     (pgdir, s) \<leftarrow> boot_alloc kend PGSIZE s;
     let s = memset_words pgdir 0 PGSIZE (s\<lparr>kern_pgdir := pgdir\<rparr>);
     pa \<leftarrow> PADDR pgdir;
     Some (st (pgdir + 4 * PDX UVPT) (pa OR PTE_U OR PTE_P) s)}"

definition arrays_create :: "u32 \<Rightarrow> kstate \<Rightarrow> kstate option" where
  "arrays_create kend s = do {
     (pv, s) \<leftarrow> boot_alloc kend (npages s * sizeof_PageInfo) s;
     let s = s\<lparr>pages_va := pv, pages := (\<lambda>i. if i < unat (npages s)
           then \<lparr>pp_link = None, pp_ref = 0\<rparr> else pages s i)\<rparr>;
     (ev, s) \<leftarrow> boot_alloc kend (1024 * sizeof_Env) s;
     Some (s\<lparr>envs_va := ev, envs := (\<lambda>i. if i < NENV then env_zero else envs s i)\<rparr>)}"

definition kern_map :: "u32 \<Rightarrow> (nat \<Rightarrow> u32) \<Rightarrow> kstate \<Rightarrow> kstate option" where
  "kern_map bootstack kstack s = do {
     s \<leftarrow> boot_map_region (kern_pgdir s) UPAGES PTSIZE (page2pa 0) PTE_U s;
     pa \<leftarrow> PADDR (envs_va s);
     s \<leftarrow> boot_map_region (kern_pgdir s) UENVS PTSIZE pa PTE_U s;
     pa \<leftarrow> PADDR bootstack;
     s \<leftarrow> boot_map_region (kern_pgdir s) (KSTACKTOP - KSTKSIZE) KSTKSIZE pa PTE_W s;
     s \<leftarrow> boot_map_region (kern_pgdir s) KERNBASE (0xFFFFFFFF - KERNBASE) 0 PTE_W s;
     mem_init_mp kstack s}"

definition mem_init :: "(u32 \<Rightarrow> u8) \<Rightarrow> u32 \<Rightarrow> u32 \<Rightarrow> (nat \<Rightarrow> u32) \<Rightarrow> kstate \<Rightarrow> kstate option" where
  "mem_init cmos kend bootstack kstack s = do {
     s \<leftarrow> pgdir_create kend (i386_detect_memory cmos s);
     s \<leftarrow> arrays_create kend s;
     s \<leftarrow> page_init kend s;
     s \<leftarrow> check_page_free_list kend True s;
     s \<leftarrow> check_page_alloc s;
     s \<leftarrow> check_page s;
     s \<leftarrow> kern_map bootstack kstack s;
     _ \<leftarrow> check_kern_pgdir kstack s;
     pa \<leftarrow> PADDR (kern_pgdir s);
     s \<leftarrow> check_page_free_list kend False (lcr3 pa s);
     check_page_installed_pgdir s}"

end
