(* ===== verification/Strings.thy ===== *)
theory Strings
  imports Prelude
begin

text \<open>
  The string and memory routines of \<^verbatim>\<open>lib/string.c\<close>, over a flat memory of bytes. They are compiled
  into the kernel and into every user program; the part of memory they work on is mapped, so a
  load or store does not fault here. (\<open>Vmem\<close> has the two the kernel uses across address spaces,
  through the page tables.) A loop that looks for a terminator is a partial function: memory
  without one makes it run on for ever. \<^verbatim>\<open>memset\<close> and \<^verbatim>\<open>memmove\<close> are the versions the file
  compiles, with the string instructions; the names carry a suffix to tell them from the kernel's.
\<close>

type_synonym bmem = "u32 \<Rightarrow> u8"

section \<open>Strings\<close>

partial_function (option) strlen_loop :: "bmem \<Rightarrow> u32 \<Rightarrow> u32 \<Rightarrow> u32 option" where
  "strlen_loop m s n = (if m s \<noteq> 0 then strlen_loop m (s + 1) (n + 1) else Some n)"

definition strlen :: "bmem \<Rightarrow> u32 \<Rightarrow> u32 option" where
  "strlen m s = strlen_loop m s 0"

primrec strnlen_loop :: "nat \<Rightarrow> bmem \<Rightarrow> u32 \<Rightarrow> u32 \<Rightarrow> u32" where
  "strnlen_loop 0 m s n = n"
| "strnlen_loop (Suc k) m s n = (if m s \<noteq> 0 then strnlen_loop k m (s + 1) (n + 1) else n)"

definition strnlen :: "bmem \<Rightarrow> u32 \<Rightarrow> u32 \<Rightarrow> u32" where
  "strnlen m s sz = strnlen_loop (unat sz) m s 0"

partial_function (option) strcpy_loop :: "u32 \<Rightarrow> u32 \<Rightarrow> bmem \<Rightarrow> bmem option" where
  "strcpy_loop dst src m =
     (let c = m src; m = m(dst := c) in if c \<noteq> 0 then strcpy_loop (dst + 1) (src + 1) m else Some m)"

definition strcpy :: "u32 \<Rightarrow> u32 \<Rightarrow> bmem \<Rightarrow> (u32 \<times> bmem) option" where
  "strcpy dst src m = do { m \<leftarrow> strcpy_loop dst src m; Some (dst, m) }"

definition strcat :: "u32 \<Rightarrow> u32 \<Rightarrow> bmem \<Rightarrow> (u32 \<times> bmem) option" where
  "strcat dst src m = do {
     len \<leftarrow> strlen m dst;
     (_, m) \<leftarrow> strcpy (dst + len) src m;
     Some (dst, m)}"

primrec strncpy_loop :: "nat \<Rightarrow> u32 \<Rightarrow> u32 \<Rightarrow> bmem \<Rightarrow> bmem" where
  "strncpy_loop 0 dst src m = m"
| "strncpy_loop (Suc i) dst src m =
     (let m = m(dst := m src) in strncpy_loop i (dst + 1) (if m src \<noteq> 0 then src + 1 else src) m)"

definition strncpy :: "u32 \<Rightarrow> u32 \<Rightarrow> u32 \<Rightarrow> bmem \<Rightarrow> u32 \<times> bmem" where
  "strncpy dst src sz m = (dst, strncpy_loop (unat sz) dst src m)"

primrec strlcpy_loop :: "nat \<Rightarrow> u32 \<Rightarrow> u32 \<Rightarrow> bmem \<Rightarrow> u32 \<times> bmem" where
  "strlcpy_loop 0 dst src m = (dst, m)"
| "strlcpy_loop (Suc k) dst src m =
     (if m src \<noteq> 0 then strlcpy_loop k (dst + 1) (src + 1) (m(dst := m src)) else (dst, m))"

definition strlcpy :: "u32 \<Rightarrow> u32 \<Rightarrow> u32 \<Rightarrow> bmem \<Rightarrow> u32 \<times> bmem" where
  "strlcpy dst src sz m =
     (if sz > 0 then
        let (d, m) = strlcpy_loop (unat (sz - 1)) dst src m in (d - dst, m(d := 0))
      else (0, m))"

partial_function (option) strcmp :: "bmem \<Rightarrow> u32 \<Rightarrow> u32 \<Rightarrow> u32 option" where
  "strcmp m p q =
     (if m p \<noteq> 0 \<and> m p = m q then strcmp m (p + 1) (q + 1)
      else Some (ucast (m p) - ucast (m q)))"

primrec strncmp_loop :: "nat \<Rightarrow> bmem \<Rightarrow> u32 \<Rightarrow> u32 \<Rightarrow> u32" where
  "strncmp_loop 0 m p q = 0"
| "strncmp_loop (Suc n) m p q =
     (if m p \<noteq> 0 \<and> m p = m q then strncmp_loop n m (p + 1) (q + 1)
      else ucast (m p) - ucast (m q))"

definition strncmp :: "bmem \<Rightarrow> u32 \<Rightarrow> u32 \<Rightarrow> u32 \<Rightarrow> u32" where
  "strncmp m p q n = strncmp_loop (unat n) m p q"

partial_function (option) strchr :: "bmem \<Rightarrow> u32 \<Rightarrow> u8 \<Rightarrow> u32 option" where
  "strchr m s c =
     (if m s \<noteq> 0 then (if m s = c then Some s else strchr m (s + 1) c) else Some 0)"

partial_function (option) strfind :: "bmem \<Rightarrow> u32 \<Rightarrow> u8 \<Rightarrow> u32 option" where
  "strfind m s c = (if m s \<noteq> 0 \<and> m s \<noteq> c then strfind m (s + 1) c else Some s)"

section \<open>Memory that holds given bytes\<close>

primrec holds :: "bmem \<Rightarrow> u32 \<Rightarrow> u8 list \<Rightarrow> bool" where
  "holds m p [] \<longleftrightarrow> True"
| "holds m p (b # bs) \<longleftrightarrow> m p = b \<and> holds m (p + 1) bs"

lemma holds_append: "holds m p (xs @ ys) \<longleftrightarrow> holds m p xs \<and> holds m (p + of_nat (length xs)) ys"
  by (induction xs arbitrary: p) (simp_all add: algebra_simps)

lemma holds_cong: "(\<And>k. k < length bs \<Longrightarrow> m' (p + of_nat k) = m (p + of_nat k)) \<Longrightarrow> holds m' p bs = holds m p bs"
proof (induction bs arbitrary: p)
  case (Cons b bs)
  have "m' (p + 1 + of_nat k) = m (p + 1 + of_nat k)" if "k < length bs" for k
    using Cons.prems [of "Suc k"] that by (simp add: algebra_simps)
  then show ?case using Cons.IH Cons.prems [of 0] by simp
qed simp

section \<open>Memory blocks\<close>

definition load32 :: "bmem \<Rightarrow> u32 \<Rightarrow> u32" where
  "load32 m a = ucast (m a) OR push_bit 8 (ucast (m (a + 1))) OR
     push_bit 16 (ucast (m (a + 2))) OR push_bit 24 (ucast (m (a + 3)))"

definition store32 :: "u32 \<Rightarrow> u32 \<Rightarrow> bmem \<Rightarrow> bmem" where
  "store32 a w m = m(a := ucast w, a + 1 := ucast (drop_bit 8 w), a + 2 := ucast (drop_bit 16 w),
     a + 3 := ucast (drop_bit 24 w))"

text \<open>The repeated string instructions, ascending and (with the direction flag set) descending.\<close>

primrec rep_stosb :: "nat \<Rightarrow> u32 \<Rightarrow> u8 \<Rightarrow> bmem \<Rightarrow> bmem" where
  "rep_stosb 0 d c m = m"
| "rep_stosb (Suc n) d c m = rep_stosb n (d + 1) c (m(d := c))"

primrec rep_stosl :: "nat \<Rightarrow> u32 \<Rightarrow> u32 \<Rightarrow> bmem \<Rightarrow> bmem" where
  "rep_stosl 0 d w m = m"
| "rep_stosl (Suc n) d w m = rep_stosl n (d + 4) w (store32 d w m)"

primrec rep_movsb :: "nat \<Rightarrow> u32 \<Rightarrow> u32 \<Rightarrow> u32 \<Rightarrow> bmem \<Rightarrow> bmem" where
  "rep_movsb 0 step d s m = m"
| "rep_movsb (Suc n) step d s m = rep_movsb n step (d + step) (s + step) (m(d := m s))"

primrec rep_movsl :: "nat \<Rightarrow> u32 \<Rightarrow> u32 \<Rightarrow> u32 \<Rightarrow> bmem \<Rightarrow> bmem" where
  "rep_movsl 0 step d s m = m"
| "rep_movsl (Suc n) step d s m = rep_movsl n step (d + step) (s + step) (store32 d (load32 m s) m)"

definition memset_b :: "u32 \<Rightarrow> u32 \<Rightarrow> u32 \<Rightarrow> bmem \<Rightarrow> u32 \<times> bmem" where
  "memset_b v c n m =
     (if n = 0 then (v, m)
      else if v mod 4 = 0 \<and> n mod 4 = 0 then
        (let c = c AND 0xFF; c = push_bit 24 c OR push_bit 16 c OR push_bit 8 c OR c
         in (v, rep_stosl (unat (n div 4)) v c m))
      else (v, rep_stosb (unat n) v (ucast c) m))"

definition memmove_b :: "u32 \<Rightarrow> u32 \<Rightarrow> u32 \<Rightarrow> bmem \<Rightarrow> u32 \<times> bmem" where
  "memmove_b dst src n m =
     (if src < dst \<and> src + n > dst then
        let s = src + n; d = dst + n in
        if s mod 4 = 0 \<and> d mod 4 = 0 \<and> n mod 4 = 0
        then (dst, rep_movsl (unat (n div 4)) (- 4) (d - 4) (s - 4) m)
        else (dst, rep_movsb (unat n) (- 1) (d - 1) (s - 1) m)
      else if src mod 4 = 0 \<and> dst mod 4 = 0 \<and> n mod 4 = 0
        then (dst, rep_movsl (unat (n div 4)) 4 dst src m)
        else (dst, rep_movsb (unat n) 1 dst src m))"

definition memcpy :: "u32 \<Rightarrow> u32 \<Rightarrow> u32 \<Rightarrow> bmem \<Rightarrow> u32 \<times> bmem" where
  "memcpy dst src n m = memmove_b dst src n m"

primrec memcmp_loop :: "nat \<Rightarrow> bmem \<Rightarrow> u32 \<Rightarrow> u32 \<Rightarrow> u32" where
  "memcmp_loop 0 m s1 s2 = 0"
| "memcmp_loop (Suc n) m s1 s2 =
     (if m s1 \<noteq> m s2 then ucast (m s1) - ucast (m s2) else memcmp_loop n m (s1 + 1) (s2 + 1))"

definition memcmp :: "bmem \<Rightarrow> u32 \<Rightarrow> u32 \<Rightarrow> u32 \<Rightarrow> u32" where
  "memcmp m v1 v2 n = memcmp_loop (unat n) m v1 v2"

partial_function (option) memfind_loop :: "bmem \<Rightarrow> u32 \<Rightarrow> u32 \<Rightarrow> u8 \<Rightarrow> u32 option" where
  "memfind_loop m s ends c =
     (if s < ends \<and> m s \<noteq> c then memfind_loop m (s + 1) ends c else Some s)"

definition memfind :: "bmem \<Rightarrow> u32 \<Rightarrow> u32 \<Rightarrow> u32 \<Rightarrow> u32 option" where
  "memfind m s c n = memfind_loop m s (s + n) (ucast c)"

section \<open>Numbers\<close>

partial_function (option) skip_blanks :: "bmem \<Rightarrow> u32 \<Rightarrow> u32 option" where
  "skip_blanks m s = (if m s = 0x20 \<or> m s = 9 then skip_blanks m (s + 1) else Some s)"

definition digit :: "u8 \<Rightarrow> int option" where
  "digit c =
     (if 0x30 \<le> c \<and> c \<le> 0x39 then Some (uint c - 0x30)
      else if 0x61 \<le> c \<and> c \<le> 0x7A then Some (uint c - 0x61 + 10)
      else if 0x41 \<le> c \<and> c \<le> 0x5A then Some (uint c - 0x41 + 10)
      else None)"

text \<open>The value is a \<^verbatim>\<open>long\<close> of 32 bits, which wraps around; the base is a small number or 0.\<close>

partial_function (option) strtol_digits :: "bmem \<Rightarrow> u32 \<Rightarrow> int \<Rightarrow> u32 \<Rightarrow> (u32 \<times> u32) option" where
  "strtol_digits m s base val =
     (case digit (m s) of
        None \<Rightarrow> Some (val, s)
      | Some dig \<Rightarrow> if dig \<ge> base then Some (val, s)
          else strtol_digits m (s + 1) base (val * of_int base + of_int dig))"

definition strtol :: "bmem \<Rightarrow> u32 \<Rightarrow> int \<Rightarrow> (u32 \<times> u32) option" where
  "strtol m s base = do {
     s \<leftarrow> skip_blanks m s;
     let (s, neg) = (if m s = 0x2B then (s + 1, False) else if m s = 0x2D then (s + 1, True) else (s, False));
     let (s, base) =
       (if (base = 0 \<or> base = 16) \<and> m s = 0x30 \<and> m (s + 1) = 0x78 then (s + 2, 16)
        else if base = 0 \<and> m s = 0x30 then (s + 1, 8)
        else if base = 0 then (s, 10) else (s, base));
     (val, s) \<leftarrow> strtol_digits m s base 0;
     Some (if neg then - val else val, s)}"

section \<open>Strings in memory\<close>

primrec cstr :: "bmem \<Rightarrow> u32 \<Rightarrow> u8 list \<Rightarrow> bool" where
  "cstr m s [] \<longleftrightarrow> m s = 0"
| "cstr m s (c # cs) \<longleftrightarrow> m s = c \<and> c \<noteq> 0 \<and> cstr m (s + 1) cs"

lemma strlen_loop_cstr: "cstr m s cs \<Longrightarrow> strlen_loop m s n = Some (n + of_nat (length cs))"
  by (induction cs arbitrary: s n) (subst strlen_loop.simps; simp add: algebra_simps)+

lemma strlen_cstr: "cstr m s cs \<Longrightarrow> strlen m s = Some (of_nat (length cs))"
  by (simp add: strlen_def strlen_loop_cstr)

lemma strnlen_loop_cstr: "cstr m s cs \<Longrightarrow> strnlen_loop k m s n = n + of_nat (min k (length cs))"
proof (induction k arbitrary: s n cs)
  case 0
  then show ?case by simp
next
  case (Suc k)
  then show ?case by (cases cs) (auto simp: algebra_simps)
qed

text \<open>Comparison is zero exactly on equal strings.\<close>

lemma strcmp_cstr:
  "cstr m p xs \<Longrightarrow> cstr m q ys \<Longrightarrow> \<exists>r. strcmp m p q = Some r \<and> (r = 0 \<longleftrightarrow> xs = ys)"
proof (induction xs arbitrary: p q ys)
  case Nil
  then show ?case by (cases ys) (subst strcmp.simps; auto simp: ucast_u8_not)+
next
  case (Cons x xs)
  show ?case
  proof (cases ys)
    case Nil
    then show ?thesis using Cons.prems by (subst strcmp.simps) (auto simp: ucast_u8_not)
  next
    case (Cons y zs)
    show ?thesis
    proof (cases "x = y")
      case True
      then show ?thesis
        using Cons.IH [of "p + 1" "q + 1" zs] Cons.prems \<open>ys = y # zs\<close> by (subst strcmp.simps) auto
    next
      case False
      then have "(ucast x :: u32) \<noteq> ucast y" by (metis ucast_u8)
      then show ?thesis using Cons.prems \<open>ys = y # zs\<close> False by (subst strcmp.simps) auto
    qed
  qed
qed

section \<open>Block copies\<close>

text \<open>Copying byte by byte in a given order of the indices.\<close>

definition copy_order :: "u32 \<Rightarrow> u32 \<Rightarrow> nat list \<Rightarrow> bmem \<Rightarrow> bmem" where
  "copy_order d s is = fold (\<lambda>i m. m(d + of_nat i := m (s + of_nat i))) is"

text \<open>The reference: the block at \<open>d\<close> holds what the block at \<open>s\<close> held, all else is as before.\<close>

definition copied :: "nat \<Rightarrow> u32 \<Rightarrow> u32 \<Rightarrow> bmem \<Rightarrow> bmem \<Rightarrow> bool" where
  "copied n d s m m' \<longleftrightarrow>
     (\<forall>i < n. m' (d + of_nat i) = m (s + of_nat i)) \<and>
     (\<forall>a. (\<forall>i < n. a \<noteq> d + of_nat i) \<longrightarrow> m' a = m a)"

lemma copy_order_simps [simp]:
  "copy_order d s [] m = m"
  "copy_order d s (i # is) m = copy_order d s is (m(d + of_nat i := m (s + of_nat i)))"
  "copy_order d s (is @ js) m = copy_order d s js (copy_order d s is m)"
  by (simp_all add: copy_order_def)

lemma of_nat_u32_inj: "i < 2 ^ 32 \<Longrightarrow> j < 2 ^ 32 \<Longrightarrow> (of_nat i :: u32) = of_nat j \<longleftrightarrow> i = j"
  by (simp add: word_unat_eq_iff unat_of_nat)

text \<open>An order in which no byte is overwritten before it is read copies the block.\<close>

lemma copy_order_values:
  assumes "sorted_wrt (\<lambda>j i. d + of_nat j \<noteq> s + of_nat i) is" and "distinct is" and "\<forall>i \<in> set is. i < 2 ^ 32"
  shows "(\<forall>i \<in> set is. copy_order d s is m (d + of_nat i) = m (s + of_nat i)) \<and>
    (\<forall>a. (\<forall>i \<in> set is. a \<noteq> d + of_nat i) \<longrightarrow> copy_order d s is m a = m a)"
  using assms
proof (induction "is" arbitrary: m)
  case Nil
  then show ?case by simp
next
  case (Cons i "is")
  let ?m = "m(d + of_nat i := m (s + of_nat i))"
  have IH: "\<forall>k \<in> set is. copy_order d s is ?m (d + of_nat k) = ?m (s + of_nat k)"
    "\<And>a. \<forall>k \<in> set is. a \<noteq> d + of_nat k \<Longrightarrow> copy_order d s is ?m a = ?m a"
    using Cons by simp_all
  have "\<forall>k \<in> set is. d + of_nat i \<noteq> d + (of_nat k :: u32)"
  proof
    fix k assume "k \<in> set is"
    then have "i \<noteq> k" "k < 2 ^ 32" "i < 2 ^ 32" using Cons.prems by auto
    then show "d + of_nat i \<noteq> d + (of_nat k :: u32)" by (simp add: of_nat_u32_inj)
  qed
  from IH(2) [OF this] have "copy_order d s is ?m (d + of_nat i) = m (s + of_nat i)" by simp
  moreover have "\<forall>k \<in> set is. ?m (s + of_nat k) = m (s + of_nat k)" using Cons.prems(1) by auto
  ultimately show ?case using IH by auto
qed

lemma copy_order_copied:
  assumes "sorted_wrt (\<lambda>j i. d + of_nat j \<noteq> s + of_nat i) is" and "distinct is" and "set is = {..<n}"
    and "n \<le> 2 ^ 32"
  shows "copied n d s m (copy_order d s is m)"
  using copy_order_values [OF assms(1,2), of m] assms(3,4) by (auto simp: copied_def)

text \<open>The four instruction loops as orders.\<close>

lemma movsb_up: "rep_movsb n 1 (d + of_nat k) (s + of_nat k) m = copy_order d s [k..<k + n] m"
proof (induction n arbitrary: k m)
  case 0
  then show ?case by simp
next
  case (Suc n)
  have "rep_movsb (Suc n) 1 (d + of_nat k) (s + of_nat k) m =
      rep_movsb n 1 (d + of_nat (Suc k)) (s + of_nat (Suc k)) (m(d + of_nat k := m (s + of_nat k)))"
    by (simp add: ac_simps)
  also have "\<dots> = copy_order d s [Suc k..<Suc k + n] (m(d + of_nat k := m (s + of_nat k)))" by (rule Suc)
  finally show ?case by (simp add: upt_conv_Cons del: upt_Suc)
qed

lemma movsb_down: "rep_movsb n (- 1) (d + of_nat n - 1) (s + of_nat n - 1) m = copy_order d s (rev [0..<n]) m"
  by (induction n arbitrary: m) (simp_all add: algebra_simps)

definition quad :: "nat \<Rightarrow> nat list" where
  "quad k = [4 * k, 4 * k + 1, 4 * k + 2, 4 * k + 3]"

lemma bytes_of_load32:
  "(ucast (load32 m a) :: u8) = m a" "(ucast (drop_bit 8 (load32 m a)) :: u8) = m (a + 1)"
  "(ucast (drop_bit 16 (load32 m a)) :: u8) = m (a + 2)" "(ucast (drop_bit 24 (load32 m a)) :: u8) = m (a + 3)"
  by (rule bit_word_eqI, auto simp: load32_def bit_simps dest: bit_imp_le_length)+

lemma store_load32: "store32 d (load32 m s) m = m(d := m s, d + 1 := m (s + 1), d + 2 := m (s + 2), d + 3 := m (s + 3))"
  by (simp add: store32_def bytes_of_load32)

lemma quad_copy:
  assumes "d \<noteq> s + 1" "d \<noteq> s + 2" "d \<noteq> s + 3"
  shows "copy_order d s (quad k) m = store32 (d + of_nat (4 * k)) (load32 m (s + of_nat (4 * k))) m"
proof -
  define D S where "D = d + of_nat (4 * k)" and "S = s + of_nat (4 * k)"
  have ne: "D \<noteq> S + 1" "D \<noteq> S + 2" "D \<noteq> S + 3"
    using assms by (simp_all add: D_def S_def add.assoc add.commute [of "word_of_nat (4 * k)"] flip: add.assoc)
  then have "D + 1 \<noteq> S + 2" "D + 1 \<noteq> S + 3" "D + 2 \<noteq> S + 3"
    using add_right_cancel [of D 1 "S + 1"] add_right_cancel [of D 1 "S + 2"] add_right_cancel [of D 2 "S + 1"]
    by (simp_all add: add.assoc)
  moreover have "d + of_nat (4 * k + j) = D + of_nat j" "s + of_nat (4 * k + j) = S + of_nat j" for j
    by (simp_all add: D_def S_def)
  ultimately show ?thesis using ne
    unfolding D_def [symmetric] S_def [symmetric] quad_def store_load32
    by (simp add: D_def S_def algebra_simps)
qed

lemma movsl_up:
  assumes "d \<noteq> s + 1" "d \<noteq> s + 2" "d \<noteq> s + 3"
  shows "rep_movsl n 4 (d + of_nat (4 * k)) (s + of_nat (4 * k)) m =
    copy_order d s (concat (map quad [k..<k + n])) m"
proof (induction n arbitrary: k m)
  case 0
  then show ?case by simp
next
  case (Suc n)
  from Suc [of "Suc k"] show ?case
    by (simp add: upt_conv_Cons quad_copy [OF assms] algebra_simps del: upt_Suc)
qed

lemma movsl_down:
  assumes "d \<noteq> s + 1" "d \<noteq> s + 2" "d \<noteq> s + 3"
  shows "rep_movsl n (- 4) (d + of_nat (4 * n) - 4) (s + of_nat (4 * n) - 4) m =
    copy_order d s (concat (map quad (rev [0..<n]))) m"
  by (induction n arbitrary: m) (simp_all add: quad_copy [OF assms] algebra_simps)

lemma quads_up: "concat (map quad [0..<n]) = [0..<4 * n]"
proof (induction n)
  case (Suc n)
  have "4 * Suc n = Suc (Suc (Suc (Suc (4 * n))))" by simp
  then have "[0..<4 * Suc n] = [0..<4 * n] @ quad n" by (simp only: upt_Suc) (simp add: quad_def)
  with Suc show ?case by simp
qed simp

lemma quads_down:
  assumes far: "d \<noteq> s + 1" "d \<noteq> s + 2" "d \<noteq> s + 3"
    and desc: "\<And>i j. i < j \<Longrightarrow> j < 4 * n \<Longrightarrow> d + of_nat j \<noteq> s + (of_nat i :: u32)"
  shows "set (concat (map quad (rev [0..<n]))) = {..<4 * n} \<and>
    distinct (concat (map quad (rev [0..<n]))) \<and>
    sorted_wrt (\<lambda>j i. d + of_nat j \<noteq> s + of_nat i) (concat (map quad (rev [0..<n])))"
  using desc
proof (induction n)
  case 0
  then show ?case by simp
next
  case (Suc n)
  have q: "set (quad n) = {4 * n..<4 * Suc n}" "distinct (quad n)" by (auto simp: quad_def)
  have near: "d + (x + y) \<noteq> s + (x + (y + 1))" "d + (x + y) \<noteq> s + (x + (y + 2))" "d + (x + y) \<noteq> s + (x + (y + 3))" for x y
    using far add_right_cancel [of d "x + y" "s + 1"] add_right_cancel [of d "x + y" "s + 2"]
      add_right_cancel [of d "x + y" "s + 3"] by (simp_all add: ac_simps)
  have "sorted_wrt (\<lambda>j i. d + of_nat j \<noteq> s + of_nat i) (quad n)"
    using near [of "4 * of_nat n" 0] near [of "4 * of_nat n" 1] near [of "4 * of_nat n" 2]
    by (simp add: quad_def algebra_simps)
  moreover have IH: "set (concat (map quad (rev [0..<n]))) = {..<4 * n}"
    "distinct (concat (map quad (rev [0..<n])))"
    "sorted_wrt (\<lambda>j i. d + of_nat j \<noteq> s + of_nat i) (concat (map quad (rev [0..<n])))"
    using Suc by simp_all
  moreover have "\<forall>j \<in> set (quad n). \<forall>i \<in> {..<4 * n}. d + of_nat j \<noteq> s + (of_nat i :: u32)"
    using Suc.prems by (simp add: q)
  ultimately show ?case using q
    by (simp only: upt_Suc rev_append list.map concat.simps rev.simps append.simps map_append le0 if_True
        sorted_wrt_append distinct_append set_append) auto
qed

lemma unat_add_less: "unat (a :: u32) + k < 2 ^ 32 \<Longrightarrow> unat (a + of_nat k) = unat a + k"
  by (simp add: unat_word_ariths unat_of_nat)

lemma aligned_far:
  assumes "(d :: u32) mod 4 = 0" and "s mod 4 = 0"
  shows "d \<noteq> s + 1" "d \<noteq> s + 2" "d \<noteq> s + 3"
proof -
  have m: "unat d mod 4 = 0" "unat s mod 4 = 0"
    using arg_cong [OF assms(1), of unat] arg_cong [OF assms(2), of unat] by (simp_all add: unat_mod)
  have "unat (s + c) mod 4 = unat c mod 4" for c
  proof -
    have "unat (s + c) mod 4 = (unat s + unat c) mod 4" by (simp add: unat_word_ariths mod_mod_cancel)
    also have "\<dots> = (unat s mod 4 + unat c) mod 4" by (rule mod_add_left_eq [symmetric])
    finally show ?thesis using m(2) by simp
  qed
  from this [of 1] this [of 2] this [of 3] m(1) show "d \<noteq> s + 1" "d \<noteq> s + 2" "d \<noteq> s + 3" by auto
qed

text \<open>C31. \<^verbatim>\<open>memmove\<close> copies: whichever of its four instruction loops runs, the destination holds what the
  source held before the call, also when the two blocks overlap, nothing outside it changes, and
  the destination is returned.\<close>

theorem memmove_copies:
  assumes "unat src + unat n < 2 ^ 32" and "unat dst + unat n < 2 ^ 32"
  shows "fst (memmove_b dst src n m) = dst \<and> copied (unat n) dst src m (snd (memmove_b dst src n m))"
proof -
  let ?n = "unat n"
  have at: "unat (src + of_nat i) = unat src + i" "unat (dst + of_nat i) = unat dst + i" if "i \<le> ?n" for i
    using that assms by (simp_all add: unat_add_less)
  have n: "?n \<le> 2 ^ 32" using assms(1) by simp
  have nw: "of_nat ?n = n" by simp
  have words: "of_nat (4 * unat (n div 4)) = n" "4 * unat (n div 4) = ?n" if "n mod 4 = 0"
  proof -
    have "?n mod 4 = 0" using arg_cong [OF that, of unat] by (simp add: unat_mod)
    then show "4 * unat (n div 4) = ?n" by (simp add: unat_div) presburger
    then show "of_nat (4 * unat (n div 4)) = n" using nw by metis
  qed
  show ?thesis
  proof (cases "src < dst \<and> src + n > dst")
    case down: True
    have desc: "dst + of_nat j \<noteq> src + (of_nat i :: u32)" if "i < j" "j < ?n" for i j
    proof
      assume "dst + of_nat j = src + (of_nat i :: u32)"
      then have "unat dst + j = unat src + i" using at that by (metis less_imp_le less_trans)
      then show False using down that by (simp add: word_less_nat_alt)
    qed
    show ?thesis
    proof (cases "(src + n) mod 4 = 0 \<and> (dst + n) mod 4 = 0 \<and> n mod 4 = 0")
      case True
      then have far: "dst \<noteq> src + 1" "dst \<noteq> src + 2" "dst \<noteq> src + 3"
        using aligned_far [of "dst + n" "src + n"] by (simp_all add: ac_simps)
      note w = words [OF conjunct2 [OF conjunct2 [OF True]]]
      note q = quads_down [OF far, of "unat (n div 4)", unfolded w(2), OF desc]
      show ?thesis
        using True down movsl_down [OF far, of "unat (n div 4)" m]
          copy_order_copied [OF _ _ _ n, of dst src "concat (map quad (rev [0..<unat (n div 4)]))" m] q
        by (simp add: memmove_b_def Let_def w)
    next
      case False
      have "copied ?n dst src m (copy_order dst src (rev [0..<?n]) m)"
      proof (rule copy_order_copied [OF _ _ _ n])
        have "sorted_wrt (\<lambda>i j. dst + of_nat j \<noteq> src + (of_nat i :: u32)) [0..<?n]"
          by (rule sorted_wrt_mono_rel [OF _ sorted_wrt_upt]) (simp add: desc)
        then show "sorted_wrt (\<lambda>j i. dst + of_nat j \<noteq> src + (of_nat i :: u32)) (rev [0..<?n])"
          by (simp add: sorted_wrt_rev)
      qed auto
      then show ?thesis
        unfolding memmove_b_def Let_def if_P [OF down] if_not_P [OF False]
        using movsb_down [of ?n dst src m] by simp
    qed
  next
    case up: False
    have "dst + of_nat j \<noteq> src + (of_nat i :: u32)" if "j < i" "i < ?n" for i j
    proof
      assume "dst + of_nat j = src + (of_nat i :: u32)"
      then have e: "unat dst + j = unat src + i" using at that by (metis less_imp_le less_trans)
      then have "src < dst" using that by (simp add: word_less_nat_alt)
      moreover have "unat (src + n) = unat src + ?n" using at(1) [of ?n] by simp
      ultimately show False using up e that by (simp add: word_less_nat_alt)
    qed
    then have c: "copied ?n dst src m (copy_order dst src [0..<?n] m)"
      by (intro copy_order_copied [OF _ _ _ n]) (auto intro!: sorted_wrt_mono_rel [OF _ sorted_wrt_upt])
    show ?thesis
    proof (cases "src mod 4 = 0 \<and> dst mod 4 = 0 \<and> n mod 4 = 0")
      case True
      then have "rep_movsl (unat (n div 4)) 4 dst src m = copy_order dst src [0..<?n] m"
        using movsl_up [of dst src "unat (n div 4)" 0 m] aligned_far [of dst src] words
        by (simp add: quads_up)
      then show ?thesis unfolding memmove_b_def Let_def if_not_P [OF up] if_P [OF True] using c by simp
    next
      case False
      show ?thesis unfolding memmove_b_def Let_def if_not_P [OF up] if_not_P [OF False]
        using c movsb_up [of ?n dst 0 src m] by simp
    qed
  qed
qed

text \<open>Shifting ten bytes up by one place, over themselves.\<close>

lemma memmove_copies_witness: "snd (memmove_b 0x101 0x100 10 ucast) 0x105 = 4"
  using memmove_copies [of "0x100" 10 "0x101" ucast] by (auto simp: copied_def dest: spec [of _ 4])

end
