(* ===== verification/Printfmt.thy ===== *)
theory Printfmt
  imports Strings Layout Console
begin

text \<open>
  Formatted output: \<^verbatim>\<open>lib/printfmt.c\<close> and its clients \<^verbatim>\<open>kern/printf.c\<close> and \<^verbatim>\<open>lib/printf.c\<close>.

  The output routine is an argument \<open>putch\<close>, which takes a character (an \<^verbatim>\<open>int\<close>) and acts on a
  state \<open>d\<close>, as the code's function pointer acts on \<^verbatim>\<open>putdat\<close>; \<open>rd d\<close> is the memory as the code
  sees it in that state, so a format or string that the output overwrites is read as changed.
  The variable arguments are the 32-bit words on the stack; reading past the last one is
  \<^term>\<open>None\<close>. Width and precision are mathematical integers: a format whose numbers overflow an
  \<^verbatim>\<open>int\<close> has no defined meaning in C.
\<close>

section \<open>Numbers\<close>

text \<open>
  \<^verbatim>\<open>printnum\<close> recurses on the quotient. A base of zero faults at the division, a base of one never
  ends.
\<close>

partial_function (option) printnum ::
    "(u32 \<Rightarrow> 'd \<Rightarrow> 'd) \<Rightarrow> u64 \<Rightarrow> u32 \<Rightarrow> int \<Rightarrow> u32 \<Rightarrow> 'd \<Rightarrow> 'd option" where
  "printnum putch num base width padc d = do {
     d \<leftarrow> (if num \<ge> ucast base then
             (if base = 0 then None else printnum putch (num div ucast base) base (width - 1) padc d)
           else Some ((putch padc ^^ nat (width - 1)) d));
     Some (putch (ucast (codes ''0123456789abcdef'' ! unat (num mod ucast base))) d)}"

definition getuint :: "u32 list \<Rightarrow> nat \<Rightarrow> (u64 \<times> u32 list) option" where
  "getuint ap lflag =
     (if lflag \<ge> 2 then
        (case ap of lo # hi # ap \<Rightarrow> Some (ucast lo OR push_bit 32 (ucast hi), ap) | _ \<Rightarrow> None)
      else (case ap of v # ap \<Rightarrow> Some (ucast v, ap) | _ \<Rightarrow> None))"

definition getint :: "u32 list \<Rightarrow> nat \<Rightarrow> (u64 \<times> u32 list) option" where
  "getint ap lflag =
     (if lflag \<ge> 2 then
        (case ap of lo # hi # ap \<Rightarrow> Some (ucast lo OR push_bit 32 (ucast hi), ap) | _ \<Rightarrow> None)
      else (case ap of v # ap \<Rightarrow> Some (scast v, ap) | _ \<Rightarrow> None))"

text \<open>The sign of the signed conversions.\<close>

definition put_sign :: "(u32 \<Rightarrow> 'd \<Rightarrow> 'd) \<Rightarrow> u64 \<Rightarrow> 'd \<Rightarrow> u64 \<times> 'd" where
  "put_sign putch num d = (if sint num < 0 then (- num, putch 0x2D d) else (num, d))"

section \<open>Strings\<close>

text \<open>Memory that holds a string literal at address 0.\<close>

definition lit :: "u8 list \<Rightarrow> bmem" where
  "lit s = (\<lambda>a. if unat a < length s then s ! unat a else 0)"

text \<open>
  The loop of \<^verbatim>\<open>%s\<close>: the character is read before the precision is tested. Characters are signed.
\<close>

partial_function (option) put_str ::
    "(u32 \<Rightarrow> 'd \<Rightarrow> 'd) \<Rightarrow> ('d \<Rightarrow> bmem) \<Rightarrow> bool \<Rightarrow> u32 \<Rightarrow> int \<Rightarrow> int \<Rightarrow> 'd \<Rightarrow> (int \<times> 'd) option" where
  "put_str putch rd alt p precision width d =
     (let ch = rd d p in
      if ch = 0 then Some (width, d)
      else if precision < 0 \<or> precision - 1 \<ge> 0 then
        put_str putch rd alt (p + 1) (if precision < 0 then precision else precision - 1) (width - 1)
          (putch (if alt \<and> (sint ch < 0x20 \<or> sint ch > 0x7E) then 0x3F else scast ch) d)
      else Some (width, d))"

record fmtspec =
  padc :: u32
  width :: int
  precision :: int
  lflag :: nat
  altflag :: bool

definition conv_s :: "(u32 \<Rightarrow> 'd \<Rightarrow> 'd) \<Rightarrow> ('d \<Rightarrow> bmem) \<Rightarrow> u32 \<Rightarrow> fmtspec \<Rightarrow> 'd \<Rightarrow> 'd option" where
  "conv_s putch rd p sp d =
     (let (rd, p) = (if p = 0 then (\<lambda>_. lit (codes ''(null)''), 0) else (rd, p));
          (w, d) = (if width sp > 0 \<and> padc sp \<noteq> 0x2D then
                      let w = width sp - sint (strnlen (rd d) p (of_int (precision sp)))
                      in (if w > 0 then 0 else w, (putch (padc sp) ^^ nat w) d)
                    else (width sp, d))
      in do {
        (w, d) \<leftarrow> put_str putch rd (altflag sp) p (precision sp) w d;
        Some ((putch 0x20 ^^ nat w) d)})"

section \<open>Conversions\<close>

definition error_string :: "int \<Rightarrow> string option" where
  "error_string err =
     (if err = uint E_UNSPECIFIED then Some ''unspecified error''
      else if err = uint E_BAD_ENV then Some ''bad environment''
      else if err = uint E_INVAL then Some ''invalid parameter''
      else if err = uint E_NO_MEM then Some ''out of memory''
      else if err = uint E_NO_FREE_ENV then Some ''out of environments''
      else if err = uint E_FAULT then Some ''segmentation fault''
      else if err = uint E_IPC_NOT_RECV then Some ''env is not recving''
      else if err = uint E_EOF then Some ''unexpected end of file''
      else None)"

text \<open>What \<^verbatim>\<open>printfmt\<close> does for the two formats \<^verbatim>\<open>%e\<close> calls it with.\<close>

definition put_lit :: "(u32 \<Rightarrow> 'd \<Rightarrow> 'd) \<Rightarrow> string \<Rightarrow> 'd \<Rightarrow> 'd" where
  "put_lit putch s = fold (\<lambda>ch. putch (ucast ch)) (codes s)"

definition conv_e :: "(u32 \<Rightarrow> 'd \<Rightarrow> 'd) \<Rightarrow> u32 \<Rightarrow> 'd \<Rightarrow> 'd option" where
  "conv_e putch v d =
     (let err = (if sint v < 0 then - v else v) in
      if sint err < 0 then None
      else if sint err \<ge> sint MAXERROR then
        let (num, d) = put_sign putch (scast err) (put_lit putch ''error '' d)
        in printnum putch num 10 (- 1) 0x20 d
      else case error_string (sint err) of
        None \<Rightarrow>
          let (num, d) = put_sign putch (scast err) (put_lit putch ''error '' d)
          in printnum putch num 10 (- 1) 0x20 d
      | Some p \<Rightarrow> Some (put_lit putch p d))"

text \<open>The flags, width, precision and size in front of a conversion character.\<close>

definition process_precision :: "fmtspec \<Rightarrow> fmtspec" where
  "process_precision sp = (if width sp < 0 then sp\<lparr>width := precision sp, precision := - 1\<rparr> else sp)"

partial_function (option) fmt_number :: "bmem \<Rightarrow> u32 \<Rightarrow> int \<Rightarrow> u8 \<Rightarrow> (int \<times> u32) option" where
  "fmt_number m fmt p ch =
     (let p = p * 10 + uint ch - 0x30; ch = m fmt in
      if ch < 0x30 \<or> ch > 0x39 then Some (p, fmt) else fmt_number m (fmt + 1) p ch)"

partial_function (option) escape ::
    "bmem \<Rightarrow> u32 \<Rightarrow> fmtspec \<Rightarrow> u32 list \<Rightarrow> (u8 \<times> u32 \<times> fmtspec \<times> u32 list) option" where
  "escape m fmt sp ap =
     (let ch = m fmt; fmt = fmt + 1 in
      if ch = 0x2D then escape m fmt (sp\<lparr>padc := 0x2D\<rparr>) ap
      else if ch = 0x30 then escape m fmt (sp\<lparr>padc := 0x30\<rparr>) ap
      else if 0x31 \<le> ch \<and> ch \<le> 0x39 then do {
        (p, fmt) \<leftarrow> fmt_number m fmt 0 ch;
        escape m fmt (process_precision (sp\<lparr>precision := p\<rparr>)) ap}
      else if ch = 0x2A then
        (case ap of [] \<Rightarrow> None
         | v # ap \<Rightarrow> escape m fmt (process_precision (sp\<lparr>precision := sint v\<rparr>)) ap)
      else if ch = 0x2E then escape m fmt (if width sp < 0 then sp\<lparr>width := 0\<rparr> else sp) ap
      else if ch = 0x23 then escape m fmt (sp\<lparr>altflag := True\<rparr>) ap
      else if ch = 0x6C then escape m fmt (sp\<lparr>lflag := lflag sp + 1\<rparr>) ap
      else Some (ch, fmt, sp, ap))"

text \<open>An unknown conversion is printed literally: back to the character behind the percent sign.\<close>

partial_function (option) backup :: "bmem \<Rightarrow> u32 \<Rightarrow> u32 option" where
  "backup m fmt = (if m (fmt - 1) = 0x25 then Some fmt else backup m (fmt - 1))"

definition put_number :: "(u32 \<Rightarrow> 'd \<Rightarrow> 'd) \<Rightarrow> u32 \<Rightarrow> fmtspec \<Rightarrow> u64 \<times> 'd \<Rightarrow> 'd option" where
  "put_number putch base sp nd = (case nd of (num, d) \<Rightarrow> printnum putch num base (width sp) (padc sp) d)"

definition convert ::
    "(u32 \<Rightarrow> 'd \<Rightarrow> 'd) \<Rightarrow> ('d \<Rightarrow> bmem) \<Rightarrow> u8 \<Rightarrow> u32 \<Rightarrow> fmtspec \<Rightarrow> u32 list \<Rightarrow> 'd \<Rightarrow> (u32 \<times> u32 list \<times> 'd) option" where
  "convert putch rd ch fmt sp ap d =
     (if ch = of_char CHR ''c'' then
        (case ap of [] \<Rightarrow> None | v # ap \<Rightarrow> Some (fmt, ap, putch v d))
      else if ch = of_char CHR ''e'' then
        (case ap of [] \<Rightarrow> None | v # ap \<Rightarrow> do { d \<leftarrow> conv_e putch v d; Some (fmt, ap, d) })
      else if ch = of_char CHR ''s'' then
        (case ap of [] \<Rightarrow> None | p # ap \<Rightarrow> do { d \<leftarrow> conv_s putch rd p sp d; Some (fmt, ap, d) })
      else if ch = of_char CHR ''d'' then do {
        (num, ap) \<leftarrow> getint ap (lflag sp);
        d \<leftarrow> put_number putch 10 sp (put_sign putch num d);
        Some (fmt, ap, d)}
      else if ch = of_char CHR ''u'' then do {
        (num, ap) \<leftarrow> getuint ap (lflag sp);
        d \<leftarrow> put_number putch 10 sp (num, d);
        Some (fmt, ap, d)}
      else if ch = of_char CHR ''o'' then do {
        (num, ap) \<leftarrow> getint ap (lflag sp);
        d \<leftarrow> put_number putch 8 sp (put_sign putch num d);
        Some (fmt, ap, d)}
      else if ch = of_char CHR ''p'' then
        (case ap of [] \<Rightarrow> None
         | v # ap \<Rightarrow> do {
             d \<leftarrow> put_number putch 16 sp (ucast v, put_lit putch ''0x'' d);
             Some (fmt, ap, d)})
      else if ch = of_char CHR ''x'' then do {
        (num, ap) \<leftarrow> getuint ap (lflag sp);
        d \<leftarrow> put_number putch 16 sp (num, d);
        Some (fmt, ap, d)}
      else if ch = 0x25 then Some (fmt, ap, putch (ucast ch) d)
      else do {
        let d = putch 0x25 d;
        fmt \<leftarrow> backup (rd d) (fmt - 1);
        Some (fmt, ap, d)})"

definition fmtspec0 :: fmtspec where
  "fmtspec0 = \<lparr>padc = 0x20, width = - 1, precision = - 1, lflag = 0, altflag = False\<rparr>"

partial_function (option) vprintfmt ::
    "(u32 \<Rightarrow> 'd \<Rightarrow> 'd) \<Rightarrow> ('d \<Rightarrow> bmem) \<Rightarrow> u32 \<Rightarrow> u32 list \<Rightarrow> 'd \<Rightarrow> 'd option" where
  "vprintfmt putch rd fmt ap d =
     (let ch = rd d fmt; fmt = fmt + 1 in
      if ch \<noteq> 0x25 then
        (if ch = 0 then Some d else vprintfmt putch rd fmt ap (putch (ucast ch) d))
      else do {
        (ch, fmt, sp, ap) \<leftarrow> escape (rd d) fmt fmtspec0 ap;
        (fmt, ap, d) \<leftarrow> convert putch rd ch fmt sp ap d;
        vprintfmt putch rd fmt ap d})"

section \<open>The clients\<close>

text \<open>
  The kernel's \<^verbatim>\<open>cprintf\<close>. Its \<^verbatim>\<open>putch\<close> says \<^verbatim>\<open>*cnt++\<close>, which moves its own copy of the
  pointer and counts nothing.
\<close>

definition kern_putch :: "u32 \<Rightarrow> console \<times> u32 \<Rightarrow> console \<times> u32" where
  "kern_putch ch = (\<lambda>(con, cnt). (cputchar ch con, cnt))"

definition kern_vcprintf :: "bmem \<Rightarrow> u32 \<Rightarrow> u32 list \<Rightarrow> console \<Rightarrow> (u32 \<times> console) option" where
  "kern_vcprintf m fmt ap con = do {
     (con, cnt) \<leftarrow> vprintfmt kern_putch (\<lambda>_. m) fmt ap (con, 0);
     Some (cnt, con)}"

text \<open>Printing to a buffer.\<close>

record sprintbuf =
  sb_mem :: bmem
  sb_buf :: u32
  sb_ebuf :: u32
  sb_cnt :: u32

definition sprintputch :: "u32 \<Rightarrow> sprintbuf \<Rightarrow> sprintbuf" where
  "sprintputch ch b =
     (let b = b\<lparr>sb_cnt := sb_cnt b + 1\<rparr> in
      if sb_buf b < sb_ebuf b
      then b\<lparr>sb_mem := (sb_mem b)(sb_buf b := ucast ch), sb_buf := sb_buf b + 1\<rparr> else b)"

definition vsnprintf :: "u32 \<Rightarrow> u32 \<Rightarrow> u32 \<Rightarrow> u32 list \<Rightarrow> bmem \<Rightarrow> (u32 \<times> bmem) option" where
  "vsnprintf buf n fmt ap m =
     (let b = \<lparr>sb_mem = m, sb_buf = buf, sb_ebuf = buf + n - 1, sb_cnt = 0\<rparr> in
      if buf = 0 \<or> sint n < 1 then Some (- E_INVAL, m)
      else do {
        b \<leftarrow> vprintfmt sprintputch sb_mem fmt ap b;
        Some (sb_cnt b, (sb_mem b)(sb_buf b := 0))})"

definition snprintf :: "u32 \<Rightarrow> u32 \<Rightarrow> u32 \<Rightarrow> u32 list \<Rightarrow> bmem \<Rightarrow> (u32 \<times> bmem) option" where
  "snprintf buf n fmt ap m = vsnprintf buf n fmt ap m"

text \<open>The user's \<^verbatim>\<open>cprintf\<close> collects characters; \<open>pb_calls\<close> are the buffers it passed to \<^verbatim>\<open>sys_cputs\<close>.\<close>

record printbuf =
  pb_idx :: nat
  pb_cnt :: u32
  pb_buf :: "nat \<Rightarrow> u8"
  pb_calls :: "u8 list list"

definition pb_flush :: "printbuf \<Rightarrow> printbuf" where
  "pb_flush b = b\<lparr>pb_calls := pb_calls b @ [map (pb_buf b) [0..<pb_idx b]]\<rparr>"

definition user_putch :: "u32 \<Rightarrow> printbuf \<Rightarrow> printbuf" where
  "user_putch ch b =
     (let b = b\<lparr>pb_buf := (pb_buf b)(pb_idx b := ucast ch), pb_idx := pb_idx b + 1\<rparr>;
          b = (if pb_idx b = 256 - 1 then (pb_flush b)\<lparr>pb_idx := 0\<rparr> else b)
      in b\<lparr>pb_cnt := pb_cnt b + 1\<rparr>)"

definition user_vcprintf :: "bmem \<Rightarrow> u32 \<Rightarrow> u32 list \<Rightarrow> (u32 \<times> u8 list list) option" where
  "user_vcprintf m fmt ap = do {
     b \<leftarrow> vprintfmt user_putch (\<lambda>_. m) fmt ap \<lparr>pb_idx = 0, pb_cnt = 0, pb_buf = (\<lambda>_. 0), pb_calls = []\<rparr>;
     Some (pb_cnt b, pb_calls (pb_flush b))}"

section \<open>Output is a sequence of characters\<close>

text \<open>Whatever is printed, the state changes only by calls of \<open>putch\<close>.\<close>

definition emits :: "(u32 \<Rightarrow> 'd \<Rightarrow> 'd) \<Rightarrow> 'd \<Rightarrow> 'd \<Rightarrow> bool" where
  "emits putch d d' \<longleftrightarrow> (\<exists>cs. d' = fold putch cs d)"

lemma emits_refl [simp]: "emits putch d d"
  unfolding emits_def by (rule exI [of _ "[]"]) simp

lemma emits_putch [simp]: "emits putch d (putch c d)"
  unfolding emits_def by (rule exI [of _ "[c]"]) simp

lemma emits_trans: "emits putch a b \<Longrightarrow> emits putch b c \<Longrightarrow> emits putch a c"
  unfolding emits_def by (metis comp_apply fold_append)

lemma emits_pow [simp]: "emits putch d ((putch c ^^ n) d)"
  by (induction n) (auto intro: emits_trans emits_putch)

lemma emits_lit [simp]: "emits putch d (put_lit putch s d)"
  unfolding emits_def put_lit_def by (rule exI [of _ "map ucast (codes s)"]) (simp add: fold_map comp_def)

lemma emits_sign: "put_sign putch num d = (num', d') \<Longrightarrow> emits putch d d'"
  by (auto simp: put_sign_def split: if_splits)

lemma emits_to:
  "emits putch d b \<Longrightarrow> emits putch d (putch c b)" "emits putch d b \<Longrightarrow> emits putch d ((putch c ^^ n) b)"
  by (auto intro: emits_trans [of putch d b])

lemma emits_from:
  "emits putch (putch c d) d' \<Longrightarrow> emits putch d d'" "emits putch ((putch c ^^ n) d) d' \<Longrightarrow> emits putch d d'"
  "emits putch (put_lit putch s d) d' \<Longrightarrow> emits putch d d'"
  "emits putch (snd (put_sign putch num d)) d' \<Longrightarrow> emits putch d d'"
  by (rule emits_trans [of putch d _ d'], simp_all add: emits_sign [OF surjective_pairing])+

lemmas printnum_induct = printnum.raw_induct [rotated, consumes 1, case_names step]
lemmas put_str_induct = put_str.raw_induct [rotated, consumes 1, case_names step]
lemmas vprintfmt_induct = vprintfmt.raw_induct [rotated, consumes 1, case_names step]

lemma printnum_emits: "printnum putch num base w pc d = Some d' \<Longrightarrow> emits putch d d'"
proof (induction rule: printnum_induct)
  case (step pr putch num base w pc d d')
  then show ?case by (auto simp: bind_eq_Some_conv split: if_splits intro: emits_to)
qed

lemma put_str_emits: "put_str putch rd alt p prec w d = Some r \<Longrightarrow> emits putch d (snd r)"
proof (induction rule: put_str_induct)
  case (step pr putch rd alt p prec w d r)
  from step(2) step(1) [of putch rd alt "p + 1" _ _ _ r] show ?case
    by (auto simp: Let_def split: if_splits intro: emits_from(1))
qed

lemma conv_s_emits: "conv_s putch rd p sp d = Some d' \<Longrightarrow> emits putch d d'"
  by (auto simp: conv_s_def Let_def bind_eq_Some_conv split: if_splits
      dest!: put_str_emits emits_from(2) intro: emits_to)

lemma conv_e_emits: "conv_e putch v d = Some d' \<Longrightarrow> emits putch d d'"
  by (auto simp: conv_e_def Let_def split: if_splits option.splits prod.splits
      dest!: printnum_emits emits_sign intro: emits_trans emits_from(3))

lemma put_number_emits: "put_number putch base sp nd = Some d' \<Longrightarrow> emits putch (snd nd) d'"
  by (auto simp: put_number_def split: prod.splits dest: printnum_emits)

lemma convert_emits: "convert putch rd ch fmt sp ap d = Some (fmt', ap', d') \<Longrightarrow> emits putch d d'"
  unfolding convert_def
  by (auto simp: bind_eq_Some_conv Let_def split: if_splits list.splits
      dest: conv_e_emits conv_s_emits dest!: put_number_emits intro: emits_from)

lemma vprintfmt_emits: "vprintfmt putch rd fmt ap d = Some d' \<Longrightarrow> emits putch d d'"
proof (induction rule: vprintfmt_induct)
  case (step pr putch rd fmt ap d d')
  show ?case
  proof (cases "rd d fmt = 0x25")
    case True
    with step(2) obtain ch f sp ap1 f2 ap2 d2 where
      "convert putch rd ch f sp ap1 d = Some (f2, ap2, d2)" "pr putch rd f2 ap2 d2 = Some d'"
      by (auto simp: Let_def bind_eq_Some_conv)
    then show ?thesis using step(1) convert_emits emits_trans by metis
  next
    case False
    then show ?thesis using step(2) step(1) [of putch rd "fmt + 1" ap "putch (ucast (rd d fmt)) d" d']
      by (auto simp: Let_def split: if_splits intro: emits_from(1))
  qed
qed

section \<open>Printing to a buffer\<close>

lemma unat_u32_bound: "unat (w :: u32) < 2 ^ 32"
proof -
  have "unat w < 2 ^ LENGTH(32)" by (rule unsigned_less)
  then show ?thesis by simp
qed

lemma sprintputch_fold:
  assumes "sb_buf b \<le> sb_ebuf b"
  defines "k cs \<equiv> min (length cs) (unat (sb_ebuf b) - unat (sb_buf b))"
  shows "sb_cnt (fold sprintputch cs b) = sb_cnt b + of_nat (length cs) \<and>
    sb_ebuf (fold sprintputch cs b) = sb_ebuf b \<and>
    sb_buf (fold sprintputch cs b) = sb_buf b + of_nat (k cs) \<and>
    (\<forall>i < k cs. sb_mem (fold sprintputch cs b) (sb_buf b + of_nat i) = ucast (cs ! i)) \<and>
    (\<forall>a. (\<forall>i < k cs. a \<noteq> sb_buf b + of_nat i) \<longrightarrow> sb_mem (fold sprintputch cs b) a = sb_mem b a)"
proof (induction cs rule: rev_induct)
  case Nil
  then show ?case by (simp add: k_def)
next
  case (snoc c cs)
  let ?b = "fold sprintputch cs b" and ?room = "unat (sb_ebuf b) - unat (sb_buf b)"
  have le: "unat (sb_buf b) \<le> unat (sb_ebuf b)" using assms(1) by (simp add: word_le_nat_alt)
  have at: "unat (sb_buf b + of_nat i) = unat (sb_buf b) + i" if "i \<le> ?room" for i
  proof (rule unat_add_less)
    show "unat (sb_buf b) + i < 2 ^ 32" using that le unat_u32_bound [of "sb_ebuf b"] by linarith
  qed
  have k: "k cs \<le> ?room" "k cs \<le> length cs" by (simp_all add: k_def)
  have lt: "sb_buf ?b < sb_ebuf ?b \<longleftrightarrow> length cs < ?room"
    using snoc at [OF k(1)] le by (auto simp: word_less_nat_alt k_def min_def)
  show ?case
  proof (cases "length cs < ?room")
    case True
    then have kk: "k cs = length cs" "k (cs @ [c]) = Suc (length cs)" by (simp_all add: k_def)
    have st: "sb_cnt (sprintputch c ?b) = sb_cnt ?b + 1" "sb_ebuf (sprintputch c ?b) = sb_ebuf ?b"
      "sb_buf (sprintputch c ?b) = sb_buf ?b + 1"
      "sb_mem (sprintputch c ?b) = (sb_mem ?b)(sb_buf ?b := ucast c)"
      using lt True by (simp_all add: sprintputch_def)
    have ne: "sb_buf b + of_nat i \<noteq> sb_buf b + (of_nat (length cs) :: u32)" if "i < length cs" for i
    proof
      assume "sb_buf b + of_nat i = sb_buf b + (of_nat (length cs) :: u32)"
      then have "unat (sb_buf b) + i = unat (sb_buf b) + length cs"
        using at [of i] at [of "length cs"] that True by simp
      then show False using that by simp
    qed
    have IH: "sb_cnt ?b = sb_cnt b + of_nat (length cs)" "sb_ebuf ?b = sb_ebuf b"
      "sb_buf ?b = sb_buf b + of_nat (length cs)"
      "\<And>i. i < length cs \<Longrightarrow> sb_mem ?b (sb_buf b + of_nat i) = ucast (cs ! i)"
      "\<And>a. \<forall>i < length cs. a \<noteq> sb_buf b + of_nat i \<Longrightarrow> sb_mem ?b a = sb_mem b a"
      using snoc unfolding kk by simp_all
    have e: "fold sprintputch (cs @ [c]) b = sprintputch c ?b" by simp
    have "sb_mem (sprintputch c ?b) (sb_buf b + of_nat i) = ucast ((cs @ [c]) ! i)" if "i < Suc (length cs)" for i
      using that ne [of i] IH(4) [of i] unfolding st IH(3) by (cases "i = length cs") (auto simp: nth_append)
    moreover have "sb_mem (sprintputch c ?b) a = sb_mem b a"
      if "\<forall>i < Suc (length cs). a \<noteq> sb_buf b + of_nat i" for a
      using that IH(5) [of a] unfolding st IH(3) by simp
    ultimately show ?thesis unfolding e kk using st IH(1-3) by (simp add: add.assoc)
  next
    case False
    then have kk: "k (cs @ [c]) = k cs" "k cs \<le> length cs" by (simp_all add: k_def)
    have "(cs @ [c]) ! i = cs ! i" if "i < k cs" for i using that kk by (simp add: nth_append)
    moreover have "sprintputch c ?b = ?b\<lparr>sb_cnt := sb_cnt ?b + 1\<rparr>"
      using lt False by (simp add: sprintputch_def)
    ultimately show ?thesis using snoc by (simp add: kk)
  qed
qed

text \<open>
  Printing to a buffer is safe whatever the format and arguments, also where they have no end: if
  the call returns then no byte outside the \<open>n\<close> bytes of the buffer changed and the result counts
  all characters (\<open>Snprintf_Props\<close> shows when it returns, and which characters these are).
\<close>

lemma vsnprintf_safe:
  assumes "buf \<noteq> 0" and "sint n \<ge> 1" and "unat buf + unat n < 2 ^ 32"
    and "vsnprintf buf n fmt ap m = Some (r, m')"
  shows "\<exists>out. r = of_nat (length out) \<and>
    (let k = min (length out) (unat n - 1) in
       (\<forall>i < k. m' (buf + of_nat i) = out ! i) \<and> m' (buf + of_nat k) = 0) \<and>
    (\<forall>a. (\<forall>i < unat n. a \<noteq> buf + of_nat i) \<longrightarrow> m' a = m a)"
proof -
  let ?b = "\<lparr>sb_mem = m, sb_buf = buf, sb_ebuf = buf + n - 1, sb_cnt = 0\<rparr>"
  obtain b where b: "vprintfmt sprintputch sb_mem fmt ap ?b = Some b" "r = sb_cnt b" "m' = (sb_mem b)(sb_buf b := 0)"
    using assms by (auto simp: vsnprintf_def Let_def bind_eq_Some_conv)
  obtain cs where cs: "b = fold sprintputch cs ?b" using vprintfmt_emits [OF b(1)] by (auto simp: emits_def)
  have n0: "n \<noteq> 0" using assms(2) by auto
  then have n: "unat n > 0" by (simp add: unat_gt_0)
  have e: "buf + n - 1 = buf + of_nat (unat n - 1)" using n by (simp add: of_nat_diff)
  have u: "unat (buf + n - 1) = unat buf + (unat n - 1)" unfolding e by (rule unat_add_less) (use assms(3) in simp)
  have le: "buf \<le> buf + n - 1" by (simp add: word_le_nat_alt u)
  define k where "k = min (length cs) (unat n - 1)"
  have f: "sb_cnt b = of_nat (length cs)" "sb_buf b = buf + of_nat k"
    "\<forall>i < k. sb_mem b (buf + of_nat i) = ucast (cs ! i)"
    "\<forall>a. (\<forall>i < k. a \<noteq> buf + of_nat i) \<longrightarrow> sb_mem b a = m a"
    using sprintputch_fold [of ?b cs] le u by (simp_all add: cs k_def)
  have k: "k < unat n" using n by (simp add: k_def)
  have "buf + of_nat i \<noteq> buf + (of_nat k :: u32)" if "i < k" for i
    using that k assms(3) by (simp add: of_nat_u32_inj)
  then have "\<forall>i < k. m' (buf + of_nat i) = map ucast cs ! i" "m' (buf + of_nat k) = 0"
    using f b(3) by (auto simp: k_def)
  moreover have "\<forall>a. (\<forall>i < unat n. a \<noteq> buf + of_nat i) \<longrightarrow> m' a = m a"
    using f k b(3) by auto
  ultimately show ?thesis
    using f(1) b(2) by (intro exI [of _ "map ucast cs"]) (simp add: k_def Let_def)
qed

end
