(* ===== verification/Printfmt_Props.thy ===== *)
theory Printfmt_Props
  imports Printfmt
begin

text \<open>
  What formatted output prints: the digits \<^term>\<open>printnum\<close> produces and their value, the round trip
  of \<^verbatim>\<open>%d\<close> through \<^verbatim>\<open>snprintf\<close> and \<^verbatim>\<open>strtol\<close>, formats without directives, and the buffering of the
  user's \<^verbatim>\<open>cprintf\<close>.
\<close>

section \<open>Digits\<close>

fun digits :: "nat \<Rightarrow> nat \<Rightarrow> nat list" where
  "digits b n = (if n < b \<or> b < 2 then [n] else digits b (n div b) @ [n mod b])"

declare digits.simps [simp del]

definition value_of :: "nat \<Rightarrow> nat list \<Rightarrow> nat" where
  "value_of b ds = foldl (\<lambda>v x. v * b + x) 0 ds"

lemma value_digits: "value_of b (digits b n) = n"
proof (induction b n rule: digits.induct)
  case (1 b n)
  then show ?case by (subst digits.simps) (auto simp: value_of_def)
qed

lemma digits_less: "2 \<le> b \<Longrightarrow> x \<in> set (digits b n) \<Longrightarrow> x < b"
proof (induction b n arbitrary: x rule: digits.induct)
  case (1 b n)
  then show ?case by (subst (asm) (2) digits.simps) (auto split: if_splits)
qed

lemma digits_nonempty [simp]: "digits b n \<noteq> []"
  by (subst digits.simps) simp

lemma digits_length: "2 \<le> b \<Longrightarrow> n < b ^ Suc k \<Longrightarrow> length (digits b n) \<le> Suc k"
proof (induction k arbitrary: n)
  case 0
  then show ?case by (subst digits.simps) simp
next
  case (Suc k)
  from Suc.prems have "n div b < b ^ Suc k" by (simp add: less_mult_imp_div_less ac_simps)
  from Suc.IH [OF Suc.prems(1) this] show ?case by (subst digits.simps) simp
qed

definition hexdigit :: "nat \<Rightarrow> u8" where
  "hexdigit x = codes ''0123456789abcdef'' ! x"

text \<open>\<^term>\<open>printnum\<close> pads to the width, then prints the digits, most significant first.\<close>

lemma printnum_digits:
  assumes "2 \<le> base" and "(ucast base :: u64) = of_nat b" and "unat base = b"
  shows "printnum putch num base w pc d =
    Some (fold putch (replicate (nat (w - int (length (digits b (unat num))))) pc @
      map (\<lambda>x. ucast (hexdigit x)) (digits b (unat num))) d)"
proof (induction "unat num" arbitrary: num w d rule: less_induct)
  case less
  have b: "2 \<le> b" using assms(1,3) by (simp add: word_le_nat_alt)
  have "b < 2 ^ 64" using assms(3) unat_u32_bound [of base] by simp
  then have ub: "unat (ucast base :: u64) = b" unfolding assms(2) by (simp add: unat_of_nat)
  have le: "num \<ge> ucast base \<longleftrightarrow> unat num \<ge> b" by (simp add: word_le_nat_alt ub)
  have md: "unat (num mod ucast base) = unat num mod b" by (simp add: unat_mod ub)
  show ?case
  proof (cases "num \<ge> ucast base")
    case True
    have dv: "unat (num div ucast base) = unat num div b" by (simp add: unat_div ub)
    have "unat num div b < unat num" using True b by (intro div_less_dividend) (auto simp: le)
    from less [of "num div ucast base", unfolded dv, OF this]
    have "printnum putch (num div ucast base) base (w - 1) pc d =
        Some (fold putch (replicate (nat (w - 1 - int (length (digits b (unat num div b))))) pc @
          map (\<lambda>x. ucast (hexdigit x)) (digits b (unat num div b))) d)" .
    moreover have "digits b (unat num) = digits b (unat num div b) @ [unat num mod b]"
      using True b by (subst digits.simps) (simp add: le)
    ultimately show ?thesis
      using True b assms(3) by (subst printnum.simps) (auto simp: md hexdigit_def algebra_simps)
  next
    case False
    then have "digits b (unat num) = [unat num]" by (subst digits.simps) (simp add: le)
    moreover have "(putch pc ^^ n) d = fold putch (replicate n pc) d" for n
      by (induction n arbitrary: d) (simp_all add: funpow_swap1)
    ultimately show ?thesis
      using False by (subst printnum.simps) (simp add: md le hexdigit_def not_le)
  qed
qed

section \<open>Signed decimal output\<close>

definition decimal :: "u32 \<Rightarrow> u8 list" where
  "decimal v = (if sint v < 0 then [0x2D] else []) @ map hexdigit (digits 10 (nat \<bar>sint v\<bar>))"

lemma sint_widen: "sint (scast (v :: u32) :: u64) = sint v"
  by transfer (simp add: signed_take_bit_signed_take_bit)

lemma sint_u32_range: "- (2 ^ 31) \<le> sint (v :: u32)" "sint (v :: u32) < 2 ^ 31"
  using sint_range_size [of v] by (simp_all add: word_size)

lemma magnitude:
  fixes v :: u32
  assumes "put_sign putch (scast v) d = (num, d')"
  shows "unat num = nat \<bar>sint v\<bar>" and "d' = (if sint v < 0 then putch 0x2D d else d)"
proof -
  have s: "num = (if sint v < 0 then - scast v else scast v)" "d' = (if sint v < 0 then putch 0x2D d else d)"
    using assms by (auto simp: put_sign_def sint_widen split: if_splits)
  show "d' = (if sint v < 0 then putch 0x2D d else d)" by (rule s)
  have u: "uint (scast v :: u64) = sint v mod 2 ^ 64"
    using uint_sint [of "scast v :: u64"] by (simp add: sint_widen take_bit_eq_mod)
  have "uint num = \<bar>sint v\<bar>"
  proof (cases "sint v < 0")
    case True
    have "uint (- (scast v :: u64)) = (- uint (scast v :: u64)) mod 2 ^ 64"
      by (simp only: uint_word_ariths len_num1 len_bit0 len_of_numeral_defs) simp
    also have "\<dots> = (- sint v) mod 2 ^ 64" unfolding u by (rule mod_minus_eq)
    finally show ?thesis using True s(1) sint_u32_range [of v] by simp
  next
    case False
    then show ?thesis using s(1) u sint_u32_range [of v] by simp
  qed
  then show "unat num = nat \<bar>sint v\<bar>" by (simp flip: nat_uint_eq)
qed

lemma put_decimal:
  assumes "sint v < 0 \<longrightarrow> w = - 1" and "w < 2"
  shows "(case put_sign putch (scast (v :: u32)) d of (num, d) \<Rightarrow> printnum putch num 10 w pc d) =
    Some (fold putch (map ucast (decimal v)) d)"
proof -
  obtain num d' where s: "put_sign putch (scast v) d = (num, d')" by fastforce
  note m = magnitude [OF s]
  have "length (digits 10 (unat num)) \<ge> 1" by (simp add: Suc_le_eq)
  then have "nat (w - int (length (digits 10 (unat num)))) = 0" using assms(2) by simp
  then show ?thesis
    using printnum_digits [of 10 10 putch num w pc d']
    by (simp add: s m decimal_def comp_def)
qed

lemma convert_d:
  "convert putch rd 0x64 fmt fmtspec0 (v # ap) d = Some (fmt, ap, fold putch (map ucast (decimal v)) d)"
  using put_decimal [of v "- 1" putch "0x20" d]
  by (simp add: convert_def getint_def put_number_def fmtspec0_def split: prod.splits)

lemma vprintfmt_d:
  assumes "rd d f = 0x25" and "rd d (f + 1) = 0x64"
    and "rd (fold putch (map ucast (decimal v)) d) (f + 2) = 0"
  shows "vprintfmt putch rd f [v] d = Some (fold putch (map ucast (decimal v)) d)"
proof -
  have "escape (rd d) (f + 1) fmtspec0 [v] = Some (0x64, f + 2, fmtspec0, [v])"
    using assms(2) by (subst escape.simps) (simp add: Let_def add.assoc)
  then show ?thesis
    using assms(1,3) by (subst vprintfmt.simps) (simp add: Let_def convert_d vprintfmt.simps [of _ _ "f + 2"])
qed

section \<open>Reading it back\<close>

lemma hexdigit_decimal: "x < 10 \<Longrightarrow> hexdigit x = 0x30 + of_nat x"
proof -
  assume "x < 10"
  then have "x \<in> {0, 1, 2, 3, 4, 5, 6, 7, 8, 9}" by auto
  then show ?thesis by (auto simp: hexdigit_def codes_def)
qed

lemma hexdigit_u8:
  assumes "x < 10"
  shows "digit (hexdigit x) = Some (int x)" and "hexdigit x \<notin> {0, 0x20, 9, 0x2B, 0x2D}"
proof -
  from assms have "x \<in> {0, 1, 2, 3, 4, 5, 6, 7, 8, 9}" by auto
  then show "digit (hexdigit x) = Some (int x)" "hexdigit x \<notin> {0, 0x20, 9, 0x2B, 0x2D}"
    by (auto simp: hexdigit_decimal digit_def)
qed

lemma skip_none: "m s \<noteq> 0x20 \<Longrightarrow> m s \<noteq> 9 \<Longrightarrow> skip_blanks m s = Some s"
  by (subst skip_blanks.simps) simp

lemma strtol_digits_value:
  assumes "cstr m s (map hexdigit ds)" and "\<forall>x \<in> set ds. x < 10"
  shows "strtol_digits m s 10 val = Some (foldl (\<lambda>v x. v * 10 + of_nat x) val ds, s + of_nat (length ds))"
  using assms
proof (induction ds arbitrary: s val)
  case Nil
  then show ?case by (subst strtol_digits.simps) (simp add: digit_def)
next
  case (Cons x ds)
  then show ?case by (subst strtol_digits.simps) (simp add: hexdigit_u8 algebra_simps)
qed

lemma value_of_word: "foldl (\<lambda>v x. v * 10 + of_nat x) (of_nat k :: u32) ds = of_nat (foldl (\<lambda>v x. v * 10 + x) k ds)"
proof (induction ds arbitrary: k)
  case (Cons x ds)
  from Cons [of "k * 10 + x"] show ?case by simp
qed simp

lemma strtol_decimal:
  assumes "cstr m s (decimal v)"
  shows "strtol m s 10 = Some (v, s + of_nat (length (decimal v)))"
proof -
  let ?n = "nat \<bar>sint v\<bar>" and ?ds = "digits 10 (nat \<bar>sint v\<bar>)"
  have lt: "\<forall>x \<in> set ?ds. x < 10" using digits_less [of 10] by simp
  obtain x xs where ds: "?ds = x # xs" by (cases ?ds) auto
  then have x: "x < 10" using lt by auto
  have val: "foldl (\<lambda>v x. v * 10 + of_nat x) 0 ?ds = (of_nat ?n :: u32)"
    using value_of_word [of 0 ?ds] value_digits [of 10 ?n] by (simp add: value_of_def)
  have digits: "strtol_digits m t 10 0 = Some (of_nat ?n, t + of_nat (length ?ds))" if "cstr m t (map hexdigit ?ds)" for t
    using strtol_digits_value [OF that lt, of 0] unfolding val .
  show ?thesis
  proof (cases "sint v < 0")
    case True
    then have c: "m s = 0x2D" "cstr m (s + 1) (map hexdigit ?ds)" using assms by (simp_all add: decimal_def)
    have "- (of_nat ?n :: u32) = of_int (sint v)" using True by simp
    then have "- (of_nat ?n :: u32) = v" by simp
    then show ?thesis
      using c(1) digits [OF c(2)] True skip_none [of m s]
      by (simp add: strtol_def decimal_def Let_def add.assoc)
  next
    case False
    then have c: "cstr m s (map hexdigit ?ds)" using assms by (simp add: decimal_def)
    then have "m s = hexdigit x" by (simp add: ds)
    then have ns: "m s \<notin> {0x20, 9, 0x2B, 0x2D}" using hexdigit_u8(2) [OF x] by auto
    have "(of_nat ?n :: u32) = of_int (sint v)" using False by simp
    then have "(of_nat ?n :: u32) = v" by simp
    then show ?thesis
      using ns digits [OF c] False skip_none [of m s]
      by (simp add: strtol_def decimal_def Let_def)
  qed
qed

lemma cstr_bytes:
  "cstr m s cs \<longleftrightarrow> (\<forall>i < length cs. m (s + of_nat i) = cs ! i) \<and> m (s + of_nat (length cs)) = 0 \<and> 0 \<notin> set cs"
proof (induction cs arbitrary: s)
  case Nil
  then show ?case by simp
next
  case (Cons c cs)
  have "(\<forall>i < length (c # cs). m (s + of_nat i) = (c # cs) ! i) \<longleftrightarrow>
      m s = c \<and> (\<forall>i < length cs. m (s + 1 + of_nat i) = cs ! i)"
    by (simp only: length_Cons All_less_Suc2) (simp add: add.assoc)
  then show ?case using Cons [of "s + 1"] by (auto simp: add.assoc)
qed

lemma decimal_length: "length (decimal v) \<le> 11"
proof -
  have "nat \<bar>sint v\<bar> < 10 ^ Suc 9" using sint_u32_range [of v] by simp
  from digits_length [OF _ this] show ?thesis by (cases "sint v < 0") (simp_all add: decimal_def)
qed

lemma unat_positive_sint: "sint (n :: u32) \<ge> 0 \<Longrightarrow> int (unat n) = sint n"
  using uint_sint [of n] sint_u32_range [of n] by (simp add: take_bit_eq_mod)

lemma decimal_no_zero: "0 \<notin> set (decimal v)"
  using hexdigit_u8(2) digits_less [of 10] by (fastforce simp: decimal_def)

text \<open>C33. Printing and parsing agree: \<^verbatim>\<open>snprintf\<close> with the format \<^verbatim>\<open>%d\<close> into a buffer of at least
  twelve bytes returns and writes a string which \<^verbatim>\<open>strtol\<close> in base ten reads back as the same
  number, for every \<^verbatim>\<open>int\<close>, the smallest included, stopping exactly at the end of what was
  printed.\<close>

theorem snprintf_strtol_roundtrip:
  assumes "m f = 0x25" and "m (f + 1) = 0x64" and "m (f + 2) = 0"
    and "buf \<noteq> 0" and "sint n \<ge> 12" and "unat buf + unat n < 2 ^ 32"
    and "\<forall>i < unat n. f + 2 \<noteq> buf + of_nat i"
  shows "\<exists>r m'. snprintf buf n f [v] m = Some (r, m') \<and> strtol m' buf 10 = Some (v, buf + r)"
proof -
  let ?b = "\<lparr>sb_mem = m, sb_buf = buf, sb_ebuf = buf + n - 1, sb_cnt = 0\<rparr>"
  let ?cs = "map ucast (decimal v) :: u32 list"
  let ?b' = "fold sprintputch ?cs ?b"
  have "int (unat n) = sint n" by (rule unat_positive_sint) (use assms(5) in simp)
  then have un: "unat n \<ge> 12" using assms(5) by linarith
  have e: "buf + n - 1 = buf + of_nat (unat n - 1)" using un by (simp add: of_nat_diff)
  have u: "unat (buf + n - 1) = unat buf + (unat n - 1)" unfolding e by (rule unat_add_less) (use assms(6) in simp)
  have len: "length (decimal v) < unat n" "min (length (decimal v)) (unat n - 1) = length (decimal v)"
    using decimal_length [of v] un by simp_all
  have f: "sb_cnt ?b' = of_nat (length (decimal v))" "sb_buf ?b' = buf + of_nat (length (decimal v))"
    "\<forall>i < length (decimal v). sb_mem ?b' (buf + of_nat i) = decimal v ! i"
    "\<forall>a. (\<forall>i < length (decimal v). a \<noteq> buf + of_nat i) \<longrightarrow> sb_mem ?b' a = m a"
    using sprintputch_fold [of ?b ?cs] len(2) by (simp_all add: u word_le_nat_alt)
  have "sb_mem ?b' (f + 2) = 0" using f(4) assms(3,7) len(1) by auto
  then have "vprintfmt sprintputch sb_mem f [v] ?b = Some ?b'"
    using assms(1,2) by (intro vprintfmt_d) simp_all
  moreover have "\<not> sint n < 1" using assms(5) by simp
  ultimately have "snprintf buf n f [v] m =
      Some (of_nat (length (decimal v)), (sb_mem ?b')(buf + of_nat (length (decimal v)) := 0))"
    using assms(4) f(1,2) by (simp add: snprintf_def vsnprintf_def Let_def)
  moreover have "buf + of_nat i \<noteq> buf + (of_nat (length (decimal v)) :: u32)" if "i < length (decimal v)" for i
    using that decimal_length [of v] by (simp add: of_nat_u32_inj)
  then have "cstr ((sb_mem ?b')(buf + of_nat (length (decimal v)) := 0)) buf (decimal v)"
    using f(3) decimal_no_zero [of v] by (auto simp: cstr_bytes)
  ultimately show ?thesis using strtol_decimal by blast
qed

section \<open>Changing the output routine\<close>

text \<open>
  Two output routines related by a map of their states print the same: the interface is that the
  map commutes with \<open>putch\<close> and that both sides read the same memory.
\<close>

locale printer_map =
  fixes putch :: "u32 \<Rightarrow> 'd \<Rightarrow> 'd" and rd :: "'d \<Rightarrow> bmem"
    and putch' :: "u32 \<Rightarrow> 'e \<Rightarrow> 'e" and rd' :: "'e \<Rightarrow> bmem"
    and h :: "'d \<Rightarrow> 'e"
  assumes map_putch: "h (putch c d) = putch' c (h d)"
    and map_rd: "rd' (h d) = rd d"
begin

lemma map_pow: "h ((putch c ^^ n) d) = (putch' c ^^ n) (h d)"
  by (induction n) (simp_all add: map_putch)

lemma map_lit: "h (put_lit putch s d) = put_lit putch' s (h d)"
proof -
  have "h (fold (\<lambda>ch. putch (ucast ch)) xs d) = fold (\<lambda>ch. putch' (ucast ch)) xs (h d)" for xs :: "u8 list"
    by (induction xs arbitrary: d) (simp_all add: map_putch)
  then show ?thesis by (simp add: put_lit_def)
qed

lemma map_sign: "put_sign putch' num (h d) = map_prod id h (put_sign putch num d)"
  by (simp add: put_sign_def map_putch)

lemma map_printnum:
  "printnum p num base w pc d = Some y \<Longrightarrow> p = putch \<Longrightarrow>
     printnum putch' num base w pc (h d) = Some (h y)"
proof (induction rule: printnum_induct)
  case (step pr p num base w pc d y)
  show ?case
    using step(2,3) step(1) [of p "num div ucast base" base "w - 1" pc d]
    by (subst printnum.simps) (auto simp: bind_eq_Some_conv map_putch map_pow split: if_splits)
qed

lemma map_put_str:
  "put_str p r alt q prec w d = Some y \<Longrightarrow> p = putch \<Longrightarrow> (\<And>d. rd'' (h d) = r d) \<Longrightarrow>
     put_str putch' rd'' alt q prec w (h d) = Some (fst y, h (snd y))"
proof (induction rule: put_str_induct)
  case (step pr p r alt q prec w d y)
  define c where "c = (if alt \<and> (sint (r d q) < 0x20 \<or> sint (r d q) > 0x7E) then 0x3F else (scast (r d q) :: u32))"
  show ?case
  proof (cases "r d q \<noteq> 0 \<and> (prec < 0 \<or> prec - 1 \<ge> 0)")
    case True
    then have "pr p r alt (q + 1) (if prec < 0 then prec else prec - 1) (w - 1) (p c d) = Some y"
      using step(2) unfolding Let_def c_def by simp
    from step(1) [OF this step(3,4)] show ?thesis
      using True step(3,4) by (subst put_str.simps) (simp add: Let_def map_putch flip: c_def)
  next
    case False
    then show ?thesis using step(2,4) by (subst put_str.simps) (auto simp: Let_def split: if_splits)
  qed
qed

lemma map_conv_s:
  assumes "conv_s putch rd p sp d = Some y"
  shows "conv_s putch' rd' p sp (h d) = Some (h y)"
proof -
  define r where "r = (if p = 0 then \<lambda>_. lit (codes ''(null)'') else rd)"
  define r' where "r' = (if p = 0 then \<lambda>_. lit (codes ''(null)'') else rd')"
  have r: "r' (h d) = r d" for d by (simp add: r_def r'_def map_rd)
  obtain w d1 where w: "(if width sp > 0 \<and> padc sp \<noteq> 0x2D then
       let w = width sp - sint (strnlen (r d) p (of_int (precision sp)))
       in (if w > 0 then 0 else w, (putch (padc sp) ^^ nat w) d)
     else (width sp, d)) = (w, d1)" by fastforce
  then have w': "(if width sp > 0 \<and> padc sp \<noteq> 0x2D then
       let w = width sp - sint (strnlen (r' (h d)) p (of_int (precision sp)))
       in (if w > 0 then 0 else w, (putch' (padc sp) ^^ nat w) (h d))
     else (width sp, h d)) = (w, h d1)"
    by (auto simp: r Let_def map_pow split: if_splits)
  obtain w2 d2 where "put_str putch r (altflag sp) p (precision sp) w d1 = Some (w2, d2)"
    and "y = (putch 0x20 ^^ nat w2) d2"
    using assms w by (auto simp: conv_s_def r_def Let_def bind_eq_Some_conv split: if_splits)
  then show ?thesis
    using w' map_put_str [of putch r "altflag sp" p "precision sp" w d1 "(w2, d2)" r'] r
    by (auto simp: conv_s_def r'_def Let_def map_pow split: if_splits)
qed

lemma map_conv_e:
  assumes "conv_e putch v d = Some y"
  shows "conv_e putch' v (h d) = Some (h y)"
  using assms
  by (auto simp: conv_e_def Let_def map_sign map_lit [symmetric] split: if_splits option.splits prod.splits
      dest: map_printnum)

lemma map_put_number:
  "put_number putch base sp nd = Some y \<Longrightarrow> put_number putch' base sp (map_prod id h nd) = Some (h y)"
  by (auto simp: put_number_def split: prod.splits dest: map_printnum)

lemma map_put_signed:
  "put_number putch base sp (put_sign putch num d) = Some y \<Longrightarrow>
     put_number putch' base sp (put_sign putch' num (h d)) = Some (h y)"
  using map_put_number by (simp add: map_sign)

lemma map_put_unsigned:
  "put_number putch base sp (num, d) = Some y \<Longrightarrow> put_number putch' base sp (num, h d) = Some (h y)"
  using map_put_number [of base sp "(num, d)"] by simp

lemma map_convert:
  assumes "convert putch rd ch fmt sp ap d = Some (fmt1, ap1, y)"
  shows "convert putch' rd' ch fmt sp ap (h d) = Some (fmt1, ap1, h y)"
  using assms unfolding convert_def
  by (auto simp: bind_eq_Some_conv Let_def map_rd map_lit [symmetric] map_putch [symmetric]
      split: if_splits list.splits dest: map_conv_e map_conv_s map_put_signed map_put_unsigned)

lemma map_vprintfmt:
  "vprintfmt p r fmt ap d = Some y \<Longrightarrow> p = putch \<Longrightarrow> r = rd \<Longrightarrow>
     vprintfmt putch' rd' fmt ap (h d) = Some (h y)"
proof (induction rule: vprintfmt_induct)
  case (step pr p r fmt ap d y)
  note eqs = step(3,4)
  show ?case
  proof (cases "rd d fmt = 0x25")
    case True
    with step(2) eqs obtain ch f sp ap1 f2 ap2 d2 where
      "escape (rd d) (fmt + 1) fmtspec0 ap = Some (ch, f, sp, ap1)"
      "convert putch rd ch f sp ap1 d = Some (f2, ap2, d2)" "pr putch rd f2 ap2 d2 = Some y"
      by (auto simp: Let_def bind_eq_Some_conv)
    then show ?thesis
      using step(1) [of putch rd f2 ap2 d2 y] True map_convert
      by (subst vprintfmt.simps) (simp add: Let_def map_rd)
  next
    case False
    then show ?thesis
      using step(2) eqs step(1) [of putch rd "fmt + 1" ap "putch (ucast (rd d fmt)) d" y]
      by (subst vprintfmt.simps) (auto simp: Let_def map_rd map_putch split: if_splits)
  qed
qed

end

section \<open>The user's \<^verbatim>\<open>cprintf\<close>\<close>

text \<open>Unbuffered printing, which only collects the characters.\<close>

definition collect :: "u32 \<Rightarrow> u8 list \<Rightarrow> u8 list" where
  "collect c out = out @ [ucast c]"

definition pb_empty :: printbuf where
  "pb_empty = \<lparr>pb_idx = 0, pb_cnt = 0, pb_buf = (\<lambda>_. 0), pb_calls = []\<rparr>"

definition buffered :: "u8 list \<Rightarrow> printbuf" where
  "buffered out = fold (\<lambda>c. user_putch (ucast c)) out pb_empty"

lemma user_putch_byte: "user_putch (ucast (ucast c :: u8)) b = user_putch c b"
  by (simp add: user_putch_def)

interpretation buffering: printer_map collect "\<lambda>_. m" user_putch "\<lambda>_. m" buffered for m
  by unfold_locales (simp_all add: buffered_def collect_def user_putch_byte)

text \<open>What the buffer stands for: the characters of the calls made and those not yet passed on.\<close>

lemma buffered_contents:
  "pb_idx (buffered out) < 255 \<and> pb_cnt (buffered out) = of_nat (length out) \<and>
   concat (pb_calls (buffered out)) @ map (pb_buf (buffered out)) [0..<pb_idx (buffered out)] = out \<and>
   (\<forall>c \<in> set (pb_calls (buffered out)). length c = 255)"
proof (induction out rule: rev_induct)
  case Nil
  then show ?case by (simp add: buffered_def pb_empty_def)
next
  case (snoc c out)
  let ?b = "buffered out"
  have e: "buffered (out @ [c]) = user_putch (ucast c) ?b" by (simp add: buffered_def)
  show ?case
  proof (cases "pb_idx ?b = 254")
    case True
    then have "buffered (out @ [c]) = ?b\<lparr>pb_buf := (pb_buf ?b)(pb_idx ?b := c), pb_idx := 0,
        pb_calls := pb_calls ?b @ [map (pb_buf ?b) [0..<pb_idx ?b] @ [c]], pb_cnt := pb_cnt ?b + 1\<rparr>"
      unfolding e user_putch_def pb_flush_def using upt_Suc_append [of 0 254] by (simp add: Let_def)
    then show ?thesis using snoc True by (simp add: algebra_simps)
  next
    case False
    then have "buffered (out @ [c]) = ?b\<lparr>pb_buf := (pb_buf ?b)(pb_idx ?b := c), pb_idx := Suc (pb_idx ?b),
        pb_cnt := pb_cnt ?b + 1\<rparr>"
      unfolding e user_putch_def by (simp add: Let_def)
    then have s: "pb_idx (buffered (out @ [c])) = Suc (pb_idx ?b)" "pb_cnt (buffered (out @ [c])) = pb_cnt ?b + 1"
      "pb_calls (buffered (out @ [c])) = pb_calls ?b"
      "map (pb_buf (buffered (out @ [c]))) [0..<Suc (pb_idx ?b)] = map (pb_buf ?b) [0..<pb_idx ?b] @ [c]"
      by simp_all
    show ?thesis using snoc False unfolding s by (simp flip: append_assoc)
  qed
qed

text \<open>C34. Buffering is invisible: when printing a format character by character gives some output,
  the user's \<^verbatim>\<open>cprintf\<close> returns the number of characters and passes exactly that output, in
  order, to \<^verbatim>\<open>sys_cputs\<close>, in calls of at most 255 characters; its buffer never overflows.\<close>

theorem user_cprintf_buffered:
  assumes "vprintfmt collect (\<lambda>_. m) fmt ap [] = Some out"
  shows "\<exists>calls. user_vcprintf m fmt ap = Some (of_nat (length out), calls) \<and> concat calls = out \<and>
    (\<forall>c \<in> set calls. length c \<le> 255)"
proof -
  let ?b = "buffered out"
  have "vprintfmt user_putch (\<lambda>_. m) fmt ap (buffered []) = Some ?b"
    using buffering.map_vprintfmt [OF assms refl refl] .
  then have "user_vcprintf m fmt ap = Some (pb_cnt ?b, pb_calls ?b @ [map (pb_buf ?b) [0..<pb_idx ?b]])"
    by (simp add: user_vcprintf_def pb_flush_def buffered_def pb_empty_def)
  then show ?thesis using buffered_contents [of out] by fastforce
qed

section \<open>The kernel's \<^verbatim>\<open>cprintf\<close>\<close>

lemma vprintfmt_plain:
  assumes "length s < 2 ^ 32" and "0x25 \<notin> set s" and "0 \<notin> set s" and "k \<le> length s"
  shows "vprintfmt putch (\<lambda>_. lit s) (of_nat k) ap d = Some (fold (\<lambda>c. putch (ucast c)) (drop k s) d)"
  using assms(4)
proof (induction "length s - k" arbitrary: k d)
  case 0
  then have "lit s (of_nat k) = 0" using assms(1) by (simp add: lit_def unat_of_nat)
  then show ?case using 0 by (subst vprintfmt.simps) simp
next
  case (Suc n)
  then have k: "k < length s" by simp
  then have c: "lit s (of_nat k) = s ! k" using assms(1) by (simp add: lit_def unat_of_nat)
  have "s ! k \<noteq> 0x25" "s ! k \<noteq> 0" using assms(2,3) nth_mem [OF k] by metis+
  then have "vprintfmt putch (\<lambda>_. lit s) (of_nat k) ap d =
      vprintfmt putch (\<lambda>_. lit s) (of_nat (Suc k)) ap (putch (ucast (s ! k)) d)"
    by (subst vprintfmt.simps) (simp add: Let_def c add.commute)
  also have "\<dots> = Some (fold (\<lambda>c. putch (ucast c)) (drop (Suc k) s) (putch (ucast (s ! k)) d))"
    using Suc by (intro Suc.hyps) simp_all
  finally show ?case using Cons_nth_drop_Suc [OF k] by (metis fold_simps(2))
qed

lemma kern_putch_fold: "fold (\<lambda>c. kern_putch (ucast c)) s (con, cnt) = (cprintf_lit s con, cnt)"
  by (induction s arbitrary: con) (simp_all add: kern_putch_def cprintf_lit_def)

text \<open>C35. A format without directives is printed as it stands: the kernel's \<^verbatim>\<open>cprintf\<close> of a message
  that contains no percent sign puts exactly its characters on the console. It returns 0, not
  the number of characters, because the counter is never incremented.\<close>

theorem kern_cprintf_plain:
  assumes "length s < 2 ^ 32" and "0x25 \<notin> set s" and "0 \<notin> set s"
  shows "kern_vcprintf (lit s) 0 ap con = Some (0, cprintf_lit s con)"
  using vprintfmt_plain [OF assms, of 0 kern_putch ap "(con, 0)"]
  by (simp add: kern_vcprintf_def kern_putch_fold)

section \<open>Witnesses\<close>

lemma kern_cprintf_plain_witness:
  "\<forall>con. kern_vcprintf (lit (codes ''Rebooting!'' @ [10])) 0 [] con =
     Some (0, cprintf_lit (codes ''Rebooting!'' @ [10]) con)"
  by (intro allI kern_cprintf_plain) (simp_all add: codes_def)

lemma user_cprintf_buffered_witness:
  "\<exists>calls. user_vcprintf (lit (codes ''hello'')) 0 [] = Some (5, calls) \<and> concat calls = codes ''hello''"
proof -
  have "vprintfmt collect (\<lambda>_. lit (codes ''hello'')) 0 [] [] = Some (codes ''hello'')"
    using vprintfmt_plain [of "codes ''hello''" 0 collect "[]" "[]"] by (simp add: codes_def collect_def)
  from user_cprintf_buffered [OF this] show ?thesis by (auto simp: codes_def)
qed

text \<open>The format \<open>%d\<close> at address \<open>0x10\<close>, the buffer at \<open>0x100\<close>, the smallest number.\<close>

definition fmt_mem :: bmem where
  "fmt_mem = (\<lambda>_. 0)(0x10 := 0x25, 0x11 := 0x64)"

lemma snprintf_strtol_roundtrip_witness:
  "\<exists>r m'. snprintf 0x100 12 0x10 [0x80000000] fmt_mem = Some (r, m') \<and>
     strtol m' 0x100 10 = Some (0x80000000, 0x100 + r)"
proof (rule snprintf_strtol_roundtrip)
  show "\<forall>i < unat (12 :: u32). (0x10 :: u32) + 2 \<noteq> 0x100 + of_nat i"
  proof (intro allI impI)
    fix i assume "i < unat (12 :: u32)"
    then have "unat ((0x100 :: u32) + of_nat i) = 0x100 + i" by (simp add: unat_word_ariths unat_of_nat)
    then show "(0x10 :: u32) + 2 \<noteq> 0x100 + of_nat i" by (auto simp: word_unat_eq_iff)
  qed
qed (simp_all add: fmt_mem_def)

end
