(* ===== verification/Snprintf_Props.thy ===== *)
theory Snprintf_Props
  imports Printfmt_Props
begin

text \<open>
  Every format is printed to the end: a zero-terminated format that the output leaves alone, with
  enough arguments on the stack, makes \<^term>\<open>vprintfmt\<close> return, and \<^term>\<open>vsnprintf\<close> puts the same
  characters into its buffer, and counts the same number, as printing without a bound on the size.
\<close>

section \<open>Where a format is read\<close>

lemma cstr_at:
  assumes "cstr m p s" and "i \<le> length s"
  shows "m (p + of_nat i) = (if i < length s then s ! i else 0)"
  using assms by (auto simp: cstr_bytes)

lemma cstr_nonzero: "cstr m p s \<Longrightarrow> i < length s \<Longrightarrow> s ! i \<noteq> 0"
  using nth_mem [of i s] by (fastforce simp: cstr_bytes)

lemma next_at: "p + of_nat i + 1 = (p + of_nat (Suc i) :: u32)"
  by (simp add: ac_simps)

text \<open>No percent sign between two places of the format.\<close>

definition plain :: "u8 list \<Rightarrow> nat \<Rightarrow> nat \<Rightarrow> bool" where
  "plain s i j \<longleftrightarrow> (\<forall>k < j. i \<le> k \<longrightarrow> s ! k \<noteq> 0x25)"

lemma plain_empty [simp]: "plain s i i"
  by (auto simp: plain_def)

lemma plain_step: "plain s (Suc i) j \<Longrightarrow> s ! i \<noteq> 0x25 \<Longrightarrow> plain s i j"
  by (auto simp: plain_def le_less Suc_le_eq)

lemma plain_trans: "plain s i j \<Longrightarrow> plain s j k \<Longrightarrow> plain s i k"
  by (auto simp: plain_def not_le)

section \<open>Scanning a directive ends\<close>

lemma fmt_number_total:
  assumes "cstr m p s" and "i \<le> length s"
  shows "\<exists>v j. fmt_number m (p + of_nat i) q ch = Some (v, p + of_nat j) \<and> i \<le> j \<and> j \<le> length s \<and> plain s i j"
  using assms(2)
proof (induction "length s - i" arbitrary: i q ch)
  case 0
  then have "m (p + of_nat i) = 0" using cstr_at [OF assms(1), of i] by simp
  then show ?case using 0 by (subst fmt_number.simps) (auto simp: Let_def)
next
  case (Suc n)
  define c where "c = m (p + of_nat i)"
  have i: "i < length s" using Suc by simp
  then have c: "c = s ! i" using cstr_at [OF assms(1), of i] by (simp add: c_def)
  show ?case
  proof (cases "c < 0x30 \<or> c > 0x39")
    case True
    then show ?thesis using i by (subst fmt_number.simps) (auto simp: Let_def simp flip: c_def)
  next
    case False
    then have "s ! i \<noteq> 0x25" using c by auto
    moreover obtain v j where "fmt_number m (p + of_nat (Suc i)) (q * 10 + uint ch - 0x30) c = Some (v, p + of_nat j)"
      "Suc i \<le> j" "j \<le> length s" "plain s (Suc i) j"
      using Suc.hyps(1) [of "Suc i"] Suc.hyps(2) i by (metis Suc_leI Suc_diff_Suc diff_Suc_Suc nat.inject)
    ultimately show ?thesis using False
      by (subst fmt_number.simps) (auto simp: Let_def next_at plain_step simp flip: c_def)
  qed
qed

text \<open>
  Behind a percent sign \<^term>\<open>escape\<close> stops at a conversion character or the end of the format. It
  passes one character for each argument it takes, and for each step of the size.
\<close>

definition scanned :: "u8 list \<Rightarrow> nat \<Rightarrow> nat \<Rightarrow> fmtspec \<Rightarrow> u32 list \<Rightarrow> u32 list \<Rightarrow> bool" where
  "scanned s i j sp ap ap' \<longleftrightarrow> i \<le> j \<and> j \<le> length s \<and> plain s i j \<and>
     length s - j + 1 + lflag sp \<le> length ap' \<and> set ap' \<subseteq> set ap"

lemma process_precision_lflag [simp]: "lflag (process_precision sp) = lflag sp"
  by (simp add: process_precision_def)

lemma scanned_from:
  "scanned s k j sp ap ap' \<Longrightarrow> i \<le> k \<Longrightarrow> plain s i k \<Longrightarrow> set ap \<subseteq> set ap0 \<Longrightarrow> scanned s i j sp ap0 ap'"
  by (auto simp: scanned_def intro: plain_trans)

lemma escape_total:
  assumes "cstr m p s" and "i \<le> length s" and "length s - i + 1 + lflag sp \<le> length ap"
  shows "\<exists>j sp' ap'. escape m (p + of_nat i) sp ap =
      Some (if j < length s then s ! j else 0, p + of_nat j + 1, sp', ap') \<and> scanned s i j sp' ap ap'"
  using assms(2,3)
proof (induction "length s - i" arbitrary: i sp ap rule: less_induct)
  case less
  define c where "c = m (p + of_nat i)"
  define goal where "goal r \<longleftrightarrow> (\<exists>j sp' ap'. r = Some (if j < length s then s ! j else 0, p + of_nat j + 1, sp', ap') \<and>
      scanned s i j sp' ap ap')" for r
  have c: "c = (if i < length s then s ! i else 0)" using cstr_at [OF assms(1) less(2)] by (simp add: c_def)
  have on: "goal (escape m (p + of_nat k) sp1 ap1)"
    if "i < k" "k \<le> length s" "plain s i k" "length s - k + 1 + lflag sp1 \<le> length ap1" "set ap1 \<subseteq> set ap" for k sp1 ap1
  proof -
    have "length s - k < length s - i" using that(1,2) by linarith
    from less(1) [OF this that(2,4)] obtain j sp' ap' where "escape m (p + of_nat k) sp1 ap1 =
        Some (if j < length s then s ! j else 0, p + of_nat j + 1, sp', ap')" "scanned s k j sp' ap1 ap'"
      by blast
    then show ?thesis unfolding goal_def using that by (blast intro: scanned_from less_imp_le)
  qed
  have ends: "goal (Some (c, p + of_nat i + 1, sp, ap))"
    unfolding goal_def using c less(2,3) by (intro exI [of _ i] exI [of _ sp] exI [of _ ap]) (simp add: scanned_def)
  have one: "goal (escape m (p + of_nat (Suc i)) sp1 ap1)"
    if "c \<noteq> 0" "c \<noteq> 0x25" "lflag sp1 + length ap \<le> Suc (lflag sp + length ap1)" "set ap1 \<subseteq> set ap" for sp1 ap1
  proof (rule on)
    have i: "i < length s" using that(1) c less(2) by (auto split: if_splits)
    then show "Suc i \<le> length s" by simp
    show "plain s i (Suc i)" using i c that(2) by (intro plain_step [OF plain_empty]) simp
    show "length s - Suc i + 1 + lflag sp1 \<le> length ap1" using i that(3) less(3) by linarith
  qed (use that in simp_all)
  have number: "goal (do { (q, fmt) \<leftarrow> fmt_number m (p + of_nat (Suc i)) 0 c;
      escape m fmt (process_precision (sp\<lparr>precision := q\<rparr>)) ap})" if "0x31 \<le> c"
  proof -
    have that: "c \<noteq> 0" "c \<noteq> 0x25" using that by auto
    have i: "i < length s" using that(1) c less(2) by (auto split: if_splits)
    then obtain v j where j: "fmt_number m (p + of_nat (Suc i)) 0 c = Some (v, p + of_nat j)"
      "Suc i \<le> j" "j \<le> length s" "plain s (Suc i) j" using fmt_number_total [OF assms(1), of "Suc i"] by (metis Suc_leI)
    have "plain s i j" using j(4) i c that(2) by (auto intro: plain_step)
    then have "goal (escape m (p + of_nat j) (process_precision (sp\<lparr>precision := v\<rparr>)) ap)"
      using j(2,3) less(3) by (intro on) auto
    then show ?thesis unfolding j(1) by simp
  qed
  have "goal (escape m (p + of_nat i) sp ap)"
  proof (cases ap)
    case Nil
    then show ?thesis using less(3) by simp
  next
    case (Cons v ap1)
    have "set ap1 \<subseteq> set ap" "length ap \<le> Suc (length ap1)" using Cons by auto
    then show ?thesis
      using one number ends Cons
      by (subst escape.simps) (simp add: Let_def next_at flip: c_def)
  qed
  then show ?case by (simp add: goal_def)
qed

lemma backup_finds:
  assumes "cstr m p s" and "plain s (Suc i) j" and "i < j" and "j \<le> length s" and "s ! i = 0x25"
  shows "backup m (p + of_nat j) = Some (p + of_nat (Suc i))"
  using assms(2-4)
proof (induction j)
  case (Suc j)
  have m: "m (p + of_nat (Suc j) - 1) = s ! j" "p + of_nat (Suc j) - 1 = p + of_nat j"
    using cstr_at [OF assms(1), of j] Suc.prems by simp_all
  show ?case
  proof (cases "j = i")
    case True
    then show ?thesis using m assms(5) by (subst backup.simps) simp
  next
    case False
    then have "i < j" "s ! j \<noteq> 0x25" using Suc.prems by (auto simp: plain_def)
    then show ?thesis using m Suc by (subst backup.simps) (simp add: plain_def)
  qed
qed simp

section \<open>Every conversion ends\<close>

lemma put_str_total: "(\<And>d. rd d z = 0) \<Longrightarrow> \<exists>r. put_str putch rd alt q prec w d = Some r"
proof (induction "unat (z - q)" arbitrary: q prec w d)
  case 0
  then have "q = z" by (simp add: unat_eq_0)
  then show ?case using 0 by (subst put_str.simps) simp
next
  case (Suc n)
  have "z - q \<noteq> 0" using Suc(2) by auto
  then have "n = unat (z - (q + 1))" using Suc(2) unat_minus_one [of "z - q"] by (simp add: diff_diff_eq)
  then have "\<exists>r. put_str putch rd alt (q + 1) prec' w' d' = Some r" for prec' w' d' using Suc(1,3) by blast
  then show ?case by (subst put_str.simps) (simp add: Let_def)
qed

lemma conv_s_total:
  assumes "\<And>d. rd d z = 0"
  shows "\<exists>d'. conv_s putch rd q sp d = Some d'"
proof -
  have "\<exists>r. put_str putch (\<lambda>_. lit (codes ''(null)'')) alt q' prec w d = Some r" for alt q' prec w and d
    by (rule put_str_total [of _ 6]) (simp add: lit_def codes_def)
  moreover have "\<exists>r. put_str putch rd alt q' prec w d = Some r" for alt q' prec w and d
    using assms by (rule put_str_total)
  ultimately show ?thesis
    by (simp add: conv_s_def Let_def bind_eq_Some_conv split: prod.splits)
qed

lemma printnum_total:
  "\<exists>d'. printnum putch num 10 w pc d = Some d'" "\<exists>d'. printnum putch num 8 w pc d = Some d'"
  "\<exists>d'. printnum putch num 16 w pc d = Some d'"
  using printnum_digits [of 10 10 putch num w pc d] printnum_digits [of 8 8 putch num w pc d]
    printnum_digits [of 16 16 putch num w pc d] by simp_all

lemma put_number_total:
  "\<exists>d'. put_number putch 10 sp nd = Some d'" "\<exists>d'. put_number putch 8 sp nd = Some d'"
  "\<exists>d'. put_number putch 16 sp nd = Some d'"
  by (cases nd; simp add: put_number_def printnum_total)+

lemma neg_nonneg: "sint (v :: u32) < 0 \<Longrightarrow> v \<noteq> 0x80000000 \<Longrightarrow> 0 \<le> sint (- v)"
proof -
  assume v: "sint v < 0" "v \<noteq> 0x80000000"
  have "sint v \<noteq> - (2 ^ 31)"
  proof
    assume "sint v = - (2 ^ 31)"
    moreover have "of_int (sint v) = v" by simp
    ultimately show False using v(2) by simp
  qed
  then have r: "- (2 ^ 31) \<le> - sint v" "- sint v < 2 ^ 31" using sint_u32_range [of v] v by linarith+
  have "sint (of_int (- sint v) :: u32) = - sint v"
    using r by (simp only: sint_sbintrunc' len_bit0 len_num1 len_of_numeral_defs) (simp add: signed_take_bit_int_eq_self)
  then show ?thesis using v(1) by simp
qed

lemma conv_e_total: "v \<noteq> 0x80000000 \<Longrightarrow> \<exists>d'. conv_e putch v d = Some d'"
  using neg_nonneg [of v] printnum_total(1)
  by (auto simp: conv_e_def Let_def not_less split: option.splits prod.splits)

section \<open>Printing returns\<close>

text \<open>Where the loop may stand: up to some place \<open>h\<close> no directive follows, from there the arguments suffice.\<close>

definition ready :: "u8 list \<Rightarrow> nat \<Rightarrow> u32 list \<Rightarrow> bool" where
  "ready s i ap \<longleftrightarrow> (\<exists>h. i \<le> h \<and> h \<le> length s \<and> plain s i h \<and> length s - h \<le> length ap)"

definition outside :: "(u32 \<Rightarrow> bool) \<Rightarrow> bmem \<Rightarrow> u32 \<Rightarrow> u8 list \<Rightarrow> bool" where
  "outside inside m fmt s \<longleftrightarrow> cstr m fmt s \<and> (\<forall>i \<le> length s. \<not> inside (fmt + of_nat i))"

text \<open>
  What \<^term>\<open>vprintfmt\<close> relies on: printing changes memory only \<open>inside\<close> some region. A format that
  lies outside of it reads the same whatever has been printed.
\<close>

locale output_region =
  fixes putch :: "u32 \<Rightarrow> 'd \<Rightarrow> 'd" and rd :: "'d \<Rightarrow> bmem" and m :: bmem and inside :: "u32 \<Rightarrow> bool"
  assumes keeps: "\<not> inside a \<Longrightarrow> rd d a = m a"
begin

lemma format: "outside inside m fmt s \<Longrightarrow> cstr (rd d) fmt s"
  by (auto simp: outside_def cstr_bytes keeps)

lemma end_read: "outside inside m fmt s \<Longrightarrow> rd d (fmt + of_nat (length s)) = 0"
  using format by (simp add: cstr_bytes)

lemma convert_total:
  assumes out: "outside inside m fmt s" and "scanned s (Suc i) j sp ap0 ap" and "s ! i = 0x25" and "i < length s"
    and "\<not> (of_char CHR ''e'' \<in> set s \<and> 0x80000000 \<in> set ap)"
  shows "\<exists>k ap' d'. convert putch rd (if j < length s then s ! j else 0) (fmt + of_nat j + 1) sp ap d =
    Some (fmt + of_nat k, ap', d') \<and> i < k \<and> ready s k ap' \<and> set ap' \<subseteq> set ap"
proof -
  define c where "c = (if j < length s then s ! j else 0)"
  have sc: "Suc i \<le> j" "j \<le> length s" "plain s (Suc i) j" "length s - j + 1 + lflag sp \<le> length ap"
    using assms(2) unfolding scanned_def by blast+
  obtain v ap1 where ap: "ap = v # ap1" using sc(4) by (cases ap) auto
  define goal where "goal r \<longleftrightarrow> (\<exists>k ap' d'. r = Some (fmt + of_nat k, ap', d') \<and> i < k \<and> ready s k ap' \<and> set ap' \<subseteq> set ap)"
    for r :: "(u32 \<times> u32 list \<times> 'd) option"
  have fwd: "goal (Some (fmt + of_nat j + 1, ap', d'))"
    if "c \<noteq> 0" "length s \<le> length ap' + Suc j" "set ap' \<subseteq> set ap" for ap' d'
    unfolding goal_def
  proof (intro exI conjI)
    show "Some (fmt + of_nat j + 1, ap', d') = Some (fmt + of_nat (Suc j), ap', d')" by (simp add: next_at)
    have "Suc j \<le> length s" using that(1) by (simp add: c_def split: if_splits)
    then show "ready s (Suc j) ap'" unfolding ready_def using that(2) by (intro exI [of _ "Suc j"]) simp
  qed (use sc that in simp_all)
  have after: "goal (do { d \<leftarrow> r; Some (fmt + of_nat j + 1, ap', d) })"
    if "\<exists>d'. r = Some d'" "c \<noteq> 0" "length s \<le> length ap' + Suc j" "set ap' \<subseteq> set ap" for r ap'
    using fwd [OF that(2-4)] that(1) by auto
  have wide: "\<exists>num ap'. getuint ap (lflag sp) = Some (num, ap') \<and> length s \<le> length ap' + Suc j \<and> set ap' \<subseteq> set ap"
    "\<exists>num ap'. getint ap (lflag sp) = Some (num, ap') \<and> length s \<le> length ap' + Suc j \<and> set ap' \<subseteq> set ap"
    using sc(2,4) ap by (cases ap1; auto simp: getuint_def getint_def)+
  have e: "\<exists>d'. conv_e putch v d = Some d'" if "c = of_char CHR ''e''"
  proof (rule conv_e_total)
    have "j < length s" "s ! j = of_char CHR ''e''" using that by (simp_all add: c_def split: if_splits)
    then have "of_char CHR ''e'' \<in> set s" using nth_mem by metis
    then show "v \<noteq> 0x80000000" using assms(5) ap by auto
  qed
  have str: "\<exists>d'. conv_s putch rd v sp d = Some d'" by (rule conv_s_total) (rule end_read [OF out])
  have one: "length s \<le> length ap1 + Suc j" "length s \<le> length ap + Suc j" "set ap1 \<subseteq> set ap"
    using sc(4) ap by auto
  obtain num1 ap1' num2 ap2' where w: "getuint ap (lflag sp) = Some (num1, ap1')" "getint ap (lflag sp) = Some (num2, ap2')"
    "length s \<le> length ap1' + Suc j" "length s \<le> length ap2' + Suc j" "set ap1' \<subseteq> set ap" "set ap2' \<subseteq> set ap"
    using wide by blast
  have found: "backup (rd d') (fmt + of_nat j) = Some (fmt + of_nat (Suc i))" for d'
    using backup_finds [OF format [OF out] sc(3) _ sc(2) assms(3)] sc(1) by simp
  have again: "goal (Some (fmt + of_nat (Suc i), ap, d'))" for d'
    unfolding goal_def
    using sc by (intro exI [of _ "Suc i"] exI [of _ ap] exI [of _ d'])
      (auto simp: ready_def intro!: exI [of _ j])
  have "goal (convert putch rd c (fmt + of_nat j + 1) sp ap d)"
    unfolding convert_def Let_def
    using w(3-6) one fwd again after [OF put_number_total(1)] after [OF put_number_total(2)]
      after [OF put_number_total(3)] after [OF str] after [OF e]
    by (simp add: w [unfolded ap] ap found flip: of_nat_Suc)
  then show ?thesis unfolding goal_def c_def .
qed

lemma vprintfmt_total:
  assumes out: "outside inside m fmt s" and "ready s i ap" and "\<not> (of_char CHR ''e'' \<in> set s \<and> 0x80000000 \<in> set ap)"
  shows "\<exists>d'. vprintfmt putch rd (fmt + of_nat i) ap d = Some d'"
  using assms(2,3)
proof (induction "length s - i" arbitrary: i ap d rule: less_induct)
  case less
  obtain h where h: "i \<le> h" "h \<le> length s" "plain s i h" "length s - h \<le> length ap"
    using less(2) by (auto simp: ready_def)
  have at: "rd d (fmt + of_nat i) = (if i < length s then s ! i else 0)"
    using cstr_at [OF format [OF out], of i] h by simp
  show ?case
  proof (cases "i < length s")
    case False
    then show ?thesis using at by (subst vprintfmt.simps) simp
  next
    case i: True
    show ?thesis
    proof (cases "s ! i = 0x25")
      case True
      then have "h = i" using h(1,3) by (auto simp: plain_def le_less)
      then have "length s - Suc i + 1 + lflag fmtspec0 \<le> length ap" using h(4) i by (simp add: fmtspec0_def)
      then obtain j sp ap1 where esc: "escape (rd d) (fmt + of_nat (Suc i)) fmtspec0 ap =
          Some (if j < length s then s ! j else 0, fmt + of_nat j + 1, sp, ap1)" "scanned s (Suc i) j sp ap ap1"
        using escape_total [OF format [OF out], of "Suc i"] i by (meson Suc_leI)
      have "\<not> (of_char CHR ''e'' \<in> set s \<and> 0x80000000 \<in> set ap1)" using less(3) esc(2) by (auto simp: scanned_def)
      from convert_total [OF out esc(2) True i this, of d] obtain k ap2 d2 where
        cv: "convert putch rd (if j < length s then s ! j else 0) (fmt + of_nat j + 1) sp ap1 d = Some (fmt + of_nat k, ap2, d2)"
        and k: "i < k" "ready s k ap2" "set ap2 \<subseteq> set ap1"
        by blast
      have "\<exists>d'. vprintfmt putch rd (fmt + of_nat k) ap2 d2 = Some d'"
        using k less(3) esc(2) i by (intro less(1)) (auto simp: scanned_def)
      then show ?thesis
        using at i True esc(1) cv by (subst vprintfmt.simps) (simp add: Let_def next_at)
    next
      case False
      have "ready s (Suc i) ap"
      proof (cases "h = i")
        case True
        then show ?thesis using h i by (auto simp: ready_def intro!: exI [of _ "Suc i"])
      next
        case False
        then show ?thesis using h by (auto simp: ready_def plain_def intro!: exI [of _ h])
      qed
      then have "\<exists>d'. vprintfmt putch rd (fmt + of_nat (Suc i)) ap (putch (ucast (s ! i)) d) = Some d'"
        using less(3) i by (intro less(1)) auto
      then show ?thesis
        using at i False cstr_nonzero [OF format [OF out] i] by (subst vprintfmt.simps) (simp add: Let_def next_at)
    qed
  qed
qed

lemma vprintfmt_returns:
  assumes out: "outside inside m fmt s" and "length s \<le> length ap" and "\<not> (of_char CHR ''e'' \<in> set s \<and> 0x80000000 \<in> set ap)"
  shows "\<exists>d'. vprintfmt putch rd fmt ap d = Some d'"
proof -
  have "ready s 0 ap" unfolding ready_def using assms(2) by (intro exI [of _ 0]) simp
  from vprintfmt_total [OF out this assms(3), of d] show ?thesis by simp
qed

end

section \<open>Printing to a buffer\<close>

text \<open>
  The reference for \<^verbatim>\<open>vsnprintf\<close>: all characters are collected, and memory shows of them what fits
  below the last byte of the buffer (a string argument may lie in the buffer).
\<close>

definition written :: "u32 \<Rightarrow> u32 \<Rightarrow> bmem \<Rightarrow> u8 list \<Rightarrow> bmem" where
  "written buf ebuf m out a =
     (if unat (a - buf) < min (length out) (unat ebuf - unat buf) then out ! unat (a - buf) else m a)"

definition stored :: "u32 \<Rightarrow> u32 \<Rightarrow> bmem \<Rightarrow> u8 list \<Rightarrow> sprintbuf" where
  "stored buf ebuf m out =
     fold (\<lambda>c. sprintputch (ucast c)) out \<lparr>sb_mem = m, sb_buf = buf, sb_ebuf = ebuf, sb_cnt = 0\<rparr>"

lemma sprintputch_byte: "sprintputch (ucast (ucast c :: u8)) b = sprintputch c b"
  by (simp add: sprintputch_def Let_def)

lemma stored_fields:
  assumes "buf \<le> ebuf"
  defines "k out \<equiv> min (length out) (unat ebuf - unat buf)"
  shows "sb_cnt (stored buf ebuf m out) = of_nat (length out)"
    and "sb_buf (stored buf ebuf m out) = buf + of_nat (k out)"
    and "i < k out \<Longrightarrow> sb_mem (stored buf ebuf m out) (buf + of_nat i) = out ! i"
    and "\<forall>i < k out. a \<noteq> buf + of_nat i \<Longrightarrow> sb_mem (stored buf ebuf m out) a = m a"
  using sprintputch_fold [of "\<lparr>sb_mem = m, sb_buf = buf, sb_ebuf = ebuf, sb_cnt = 0\<rparr>" "map ucast out"] assms(1)
  by (simp_all add: stored_def k_def fold_map comp_def)

lemma stored_full: "\<not> buf < ebuf \<Longrightarrow> sb_mem (stored buf ebuf m out) = m"
proof -
  assume "\<not> buf < ebuf"
  then have "sb_mem (stored buf ebuf m out) = m \<and> sb_buf (stored buf ebuf m out) = buf \<and>
      sb_ebuf (stored buf ebuf m out) = ebuf"
    by (induction out rule: rev_induct) (simp_all add: stored_def sprintputch_def)
  then show ?thesis by simp
qed

lemma stored_written: "sb_mem (stored buf ebuf m out) = written buf ebuf m out"
proof (cases "buf < ebuf")
  case True
  then have le: "buf \<le> ebuf" by simp
  let ?k = "min (length out) (unat ebuf - unat buf)"
  have "sb_mem (stored buf ebuf m out) a = written buf ebuf m out a" for a
  proof (cases "unat (a - buf) < ?k")
    case True
    then show ?thesis using stored_fields(3) [OF le True, of m] by (simp add: written_def)
  next
    case False
    have "a \<noteq> buf + of_nat i" if "i < ?k" for i
    proof
      assume "a = buf + of_nat i"
      moreover have "i < 2 ^ 32" using that unat_u32_bound [of ebuf] by linarith
      ultimately have "unat (a - buf) = i" by (simp add: unat_of_nat)
      then show False using that False by simp
    qed
    then have "sb_mem (stored buf ebuf m out) a = m a" using stored_fields(4) [OF le] by blast
    then show ?thesis unfolding written_def if_not_P [OF False] .
  qed
  then show ?thesis by blast
next
  case False
  then have "unat ebuf - unat buf = 0" by (simp add: word_less_nat_alt)
  then show ?thesis using stored_full [OF False] by (auto simp: written_def)
qed

interpretation storing: printer_map collect "written buf ebuf m" sprintputch sb_mem "stored buf ebuf m"
  for buf ebuf m
  by unfold_locales (simp_all add: stored_written, simp add: stored_def collect_def sprintputch_byte)

interpretation storing: output_region collect "written buf ebuf m" m "\<lambda>a. unat (a - buf) < unat ebuf - unat buf"
  for buf ebuf m
  by unfold_locales (simp add: written_def)

text \<open>C32. \<^verbatim>\<open>vsnprintf\<close> on a buffer of \<open>n\<close> bytes prints what unbounded printing prints. Let the format be
  a zero-terminated string outside the buffer, with at least as many argument words on the stack as
  it has characters, and let no \<^verbatim>\<open>%e\<close> meet the most negative number (which indexes the table of
  messages out of bounds). Then the call returns, also when string arguments lie in the buffer or
  are null; with \<open>out\<close> the characters the same formatter hands to an output routine that
  drops none, the result is the number of all of them, the buffer holds as many as fit before its
  last byte, followed by a zero, and no other byte of memory changes.\<close>

theorem vsnprintf_bounded:
  assumes "buf \<noteq> 0" and "sint n \<ge> 1" and "unat buf + unat n < 2 ^ 32"
    and "cstr m fmt s" and "\<forall>i \<le> length s. unat n \<le> unat (fmt + of_nat i - buf)"
    and "length s \<le> length ap"
    and "\<not> (of_char CHR ''e'' \<in> set s \<and> 0x80000000 \<in> set ap)"
  shows "\<exists>out m'. vprintfmt collect (written buf (buf + n - 1) m) fmt ap [] = Some out \<and>
    vsnprintf buf n fmt ap m = Some (of_nat (length out), m') \<and>
    (let k = min (length out) (unat n - 1) in
       (\<forall>i < k. m' (buf + of_nat i) = out ! i) \<and> m' (buf + of_nat k) = 0 \<and>
       (\<forall>a. (\<forall>i \<le> k. a \<noteq> buf + of_nat i) \<longrightarrow> m' a = m a))"
proof -
  let ?e = "buf + n - 1"
  have n0: "n \<noteq> 0" using assms(2) by auto
  then have n: "unat n > 0" by (simp add: unat_gt_0)
  have e: "?e = buf + of_nat (unat n - 1)" using n by (simp add: of_nat_diff)
  have u: "unat ?e = unat buf + (unat n - 1)" unfolding e by (rule unat_add_less) (use assms(3) in simp)
  have le: "buf \<le> ?e" by (simp add: word_le_nat_alt u)
  have "outside (\<lambda>a. unat (a - buf) < unat ?e - unat buf) m fmt s"
    using assms(4,5) by (auto simp: outside_def u not_less intro: le_trans [OF diff_le_self])
  from storing.vprintfmt_returns [OF this assms(6,7)] obtain out where
    out: "vprintfmt collect (written buf ?e m) fmt ap [] = Some out"
    by blast
  have "vprintfmt sprintputch sb_mem fmt ap \<lparr>sb_mem = m, sb_buf = buf, sb_ebuf = ?e, sb_cnt = 0\<rparr> = Some (stored buf ?e m out)"
    using storing.map_vprintfmt [OF out refl refl] by (simp add: stored_def)
  moreover define k where "k = min (length out) (unat n - 1)"
  ultimately have v: "vsnprintf buf n fmt ap m =
      Some (of_nat (length out), (sb_mem (stored buf ?e m out))(buf + of_nat k := 0))"
    using assms(1,2) stored_fields(1,2) [OF le, of m out] by (simp add: vsnprintf_def Let_def u)
  have k: "k < unat n" using n by (simp add: k_def)
  have ne: "buf + of_nat i \<noteq> buf + (of_nat k :: u32)" if "i < k" for i
    using that k assms(3) by (simp add: of_nat_u32_inj)
  have f: "sb_mem (stored buf ?e m out) (buf + of_nat i) = out ! i" if "i < k" for i
    using stored_fields(3) [OF le, of i out m] that by (simp add: u k_def)
  have g: "sb_mem (stored buf ?e m out) a = m a" if "\<forall>i \<le> k. a \<noteq> buf + of_nat i" for a
    using that by (intro stored_fields(4) [OF le]) (simp add: u k_def)
  have l: "min (length out) (unat n - 1) = k" by (simp add: k_def)
  show ?thesis
    by (rule exI [of _ out], rule exI [of _ "(sb_mem (stored buf ?e m out))(buf + of_nat k := 0)"], unfold Let_def l)
      (use out v ne f g in auto)
qed

lemma vsnprintf_bounded_witness:
  "\<exists>m'. vsnprintf 0x100 3 0x10 [- 12, 0] fmt_mem = Some (3, m') \<and>
     m' 0x100 = of_char CHR ''-'' \<and> m' 0x101 = of_char CHR ''1'' \<and> m' 0x102 = 0 \<and> m' 0x103 = fmt_mem 0x103"
proof -
  have "fmt_mem (0x10 + of_nat i) = [0x25, 0x64] ! i" if "i < 2" for i
    using that by (auto simp: fmt_mem_def less_2_cases_iff)
  then have c: "cstr fmt_mem 0x10 [0x25, 0x64]" by (simp add: fmt_mem_def)
  have o: "\<forall>i \<le> length [0x25, 0x64 :: u8]. unat (3 :: u32) \<le> unat (0x10 + of_nat i - (0x100 :: u32))"
    by (auto simp: le_Suc_eq)
  have w: "written 0x100 (0x100 + 3 - 1) fmt_mem out 0x10 = 0x25"
    "written 0x100 (0x100 + 3 - 1) fmt_mem out 0x11 = 0x64"
    "written 0x100 (0x100 + 3 - 1) fmt_mem out 0x12 = 0" for out
    by (simp_all add: written_def fmt_mem_def)
  have d: "decimal (- 12) = [0x2D, 0x31, 0x32]" by (simp add: decimal_def digits.simps hexdigit_decimal)
  have "vprintfmt collect (written 0x100 (0x100 + 3 - 1) fmt_mem) 0x10 [- 12, 0] [] = Some [0x2D, 0x31, 0x32]"
  proof -
    have "escape (written 0x100 (0x100 + 3 - 1) fmt_mem []) (0x10 + 1) fmtspec0 [- 12, 0] = Some (0x64, 0x12, fmtspec0, [- 12, 0])"
      by (subst escape.simps) (simp add: Let_def w [simplified])
    moreover have "fold collect (map ucast (decimal (- 12))) [] = [0x2D, 0x31, 0x32]" by (simp add: d collect_def)
    ultimately show ?thesis
      by (subst vprintfmt.simps)
        (simp add: Let_def w [simplified] convert_d vprintfmt.simps [of _ _ "0x12"])
  qed
  moreover from vsnprintf_bounded [of "0x100" 3 fmt_mem "0x10" "[0x25, 0x64]" "[- 12, 0]", OF _ _ _ c o]
  obtain out m' where "vprintfmt collect (written 0x100 (0x100 + 3 - 1) fmt_mem) 0x10 [- 12, 0] [] = Some out"
    and v: "vsnprintf 0x100 3 0x10 [- 12, 0] fmt_mem = Some (of_nat (length out), m')"
    and m': "let k = min (length out) (unat (3 :: u32) - 1) in
      (\<forall>i < k. m' (0x100 + of_nat i) = out ! i) \<and> m' (0x100 + of_nat k) = 0 \<and>
      (\<forall>a. (\<forall>i \<le> k. a \<noteq> 0x100 + of_nat i) \<longrightarrow> m' a = fmt_mem a)"
    by auto
  ultimately have out: "out = [0x2D, 0x31, 0x32]" by simp
  have ne: "\<forall>i \<le> 2. (0x103 :: u32) \<noteq> 0x100 + of_nat i"
  proof (intro allI impI)
    fix i :: nat assume "i \<le> 2"
    then have "i = 0 \<or> i = 1 \<or> i = 2" by auto
    then show "(0x103 :: u32) \<noteq> 0x100 + of_nat i" by auto
  qed
  have k: "min (length out) (unat (3 :: u32) - 1) = 2" by (simp add: out)
  note b = m' [unfolded Let_def k]
  have "m' (0x100 + of_nat i) = out ! i" if "i < 2" for i using b that by blast
  from this [of 0] this [of 1] have "m' 0x100 = 0x2D" "m' 0x101 = 0x31" by (simp_all add: out)
  moreover have "m' (0x100 + of_nat 2) = 0" "m' 0x103 = fmt_mem 0x103" using b ne by blast+
  ultimately show ?thesis using v by (simp add: out)
qed

end
