(* ===== verification/Boot.thy ===== *)
theory Boot
  imports Vmem Strings
begin

text \<open>
  What runs before the kernel's C code: the boot loader of \<^verbatim>\<open>boot/main.c\<close>, on a flat memory of
  bytes and a disk that gives the bytes of each sector, and the page tables of
  \<^verbatim>\<open>kern/entrypgdir.c\<close> that \<^verbatim>\<open>kern/entry.S\<close> turns paging on with. Waiting for the disk to become
  ready (\<^verbatim>\<open>waitdisk\<close>) has no effect on memory and is left out.
\<close>

section \<open>Boot loader (boot/main.c)\<close>

abbreviation (input) SECTSIZE :: u32 where "SECTSIZE \<equiv> 512"
abbreviation (input) ELFHDR :: u32 where "ELFHDR \<equiv> 0x10000"

text \<open>A sector's number goes to the controller in 28 bits.\<close>

definition readsect :: "(u32 \<Rightarrow> nat \<Rightarrow> u8) \<Rightarrow> u32 \<Rightarrow> u32 \<Rightarrow> bmem \<Rightarrow> bmem" where
  "readsect disk dst offset m =
     (\<lambda>a. if a - dst < SECTSIZE then disk (offset AND 0x0FFFFFFF) (unat (a - dst)) else m a)"

partial_function (option) readseg_loop :: "(u32 \<Rightarrow> nat \<Rightarrow> u8) \<Rightarrow> u32 \<Rightarrow> u32 \<Rightarrow> u32 \<Rightarrow> bmem \<Rightarrow> bmem option" where
  "readseg_loop disk pa end_pa offset m =
     (if pa < end_pa
      then readseg_loop disk (pa + SECTSIZE) end_pa (offset + 1) (readsect disk pa offset m)
      else Some m)"

definition readseg :: "(u32 \<Rightarrow> nat \<Rightarrow> u8) \<Rightarrow> u32 \<Rightarrow> u32 \<Rightarrow> u32 \<Rightarrow> bmem \<Rightarrow> bmem option" where
  "readseg disk pa count offset m =
     readseg_loop disk (pa AND NOT (SECTSIZE - 1)) (pa + count) (offset div SECTSIZE + 1) m"

text \<open>Clearing the rest of a segment; the header is read anew in every round.\<close>

partial_function (option) zero_rest :: "u32 \<Rightarrow> u32 \<Rightarrow> bmem \<Rightarrow> bmem option" where
  "zero_rest ph i m =
     (if i < load32 m (ph + 20) - load32 m (ph + 16)
      then zero_rest ph (i + 1) (m(load32 m (ph + 12) + load32 m (ph + 16) + i := 0))
      else Some m)"

partial_function (option) load_phdrs :: "(u32 \<Rightarrow> nat \<Rightarrow> u8) \<Rightarrow> u32 \<Rightarrow> u32 \<Rightarrow> bmem \<Rightarrow> bmem option" where
  "load_phdrs disk ph eph m =
     (if ph < eph then do {
        m \<leftarrow> readseg disk (load32 m (ph + 12)) (load32 m (ph + 20)) (load32 m (ph + 4)) m;
        m \<leftarrow> zero_rest ph 0 m;
        load_phdrs disk (ph + 32) eph m}
      else Some m)"

datatype boot_result = Jump u32 bmem | Bad_image

definition bootmain :: "(u32 \<Rightarrow> nat \<Rightarrow> u8) \<Rightarrow> bmem \<Rightarrow> boot_result option" where
  "bootmain disk m = do {
     m \<leftarrow> readseg disk ELFHDR (SECTSIZE * 8) 0 m;
     if load32 m ELFHDR \<noteq> 0x464C457F then Some Bad_image
     else do {
       let ph = ELFHDR + load32 m (ELFHDR + 28);
       let phnum = (ucast (m (ELFHDR + 44)) OR push_bit 8 (ucast (m (ELFHDR + 45))) :: u32);
       m \<leftarrow> load_phdrs disk ph (ph + 32 * phnum) m;
       Some (Jump (load32 m (ELFHDR + 24)) m)}}"

section \<open>The first page tables (kern/entrypgdir.c)\<close>

text \<open>\<open>pgtable\<close> is the link address of the page table; entries the initialiser does not name are zero.\<close>

definition entry_pgdir :: "u32 \<Rightarrow> u32 \<Rightarrow> u32" where
  "entry_pgdir pgtable i =
     (if i = 0 then (pgtable - KERNBASE) + PTE_P
      else if i = drop_bit PDXSHIFT KERNBASE then (pgtable - KERNBASE) + PTE_P + PTE_W
      else 0)"

definition entry_pgtable :: "u32 \<Rightarrow> u32" where
  "entry_pgtable i = (i * 0x1000) OR PTE_P OR PTE_W"

text \<open>The state of memory and \<^verbatim>\<open>cr3\<close> when \<^verbatim>\<open>entry.S\<close> has loaded the directory at \<open>d\<close>.\<close>

definition entered :: "u32 \<Rightarrow> u32 \<Rightarrow> kstate \<Rightarrow> bool" where
  "entered pgdir pgtable s \<longleftrightarrow>
     cr3 s (cpunum_reg s) = pgdir - KERNBASE \<and> PGOFF (pgdir - KERNBASE) = 0 \<and> PGOFF (pgtable - KERNBASE) = 0 \<and>
     (\<forall>i < 1024. phys s (pgdir - KERNBASE + 4 * i) = entry_pgdir pgtable i) \<and>
     (\<forall>i < 1024. phys s (pgtable - KERNBASE + 4 * i) = entry_pgtable i)"

section \<open>The entry mapping\<close>

lemma aligned_plus:
  assumes "PGOFF x = 0" and "f < 4096"
  shows "x + f = x OR f"
proof -
  have "x AND f = 0"
  proof -
    have "x AND f = PTE_ADDR x AND PGOFF f" using assms by simp
    also have "\<dots> = 0" by (simp add: PTE_ADDR_def PGOFF_def) (rule bit_word_eqI, auto simp: bit_simps)
    finally show ?thesis .
  qed
  then show ?thesis by (simp add: disjunctive_add_eq_or)
qed

lemma entry_bits:
  assumes "PGOFF x = 0"
  shows "PTE_ADDR (x OR f) = x OR PTE_ADDR f" "(x OR f) AND PTE_P = f AND PTE_P" "(x OR f) AND PTE_W = f AND PTE_W"
proof -
  have x: "PTE_ADDR x = x" using assms by simp
  show "PTE_ADDR (x OR f) = x OR PTE_ADDR f" by (simp add: PTE_ADDR_or x)
  have "x AND PTE_P = 0" "x AND PTE_W = 0"
    by (subst x [symmetric], simp add: PTE_ADDR_def and.assoc and.left_commute)+
  then show "(x OR f) AND PTE_P = f AND PTE_P" "(x OR f) AND PTE_W = f AND PTE_W"
    by (simp_all add: bit.conj_disj_distrib2)
qed

lemma page_slot: "i < 1024 \<Longrightarrow> PGOFF (i * 0x1000) = 0" "i < 1024 \<Longrightarrow> unat (i * 0x1000) = unat i * 4096"
proof -
  assume "i < (1024 :: u32)"
  then have "unat i * 4096 < 2 ^ 32" by (simp add: word_less_nat_alt)
  then show u: "unat (i * 0x1000) = unat i * 4096" by (simp add: unat_word_ariths)
  show "PGOFF (i * 0x1000) = 0" by (simp add: aligned_dvd u)
qed

lemma entry_translation:
  "PTX va * 0x1000 OR PGOFF va = PTX va * 0x1000 + PGOFF va"
  "unat (PTX va * 0x1000 + PGOFF va) = unat va mod 4194304"
proof -
  show "PTX va * 0x1000 OR PGOFF va = PTX va * 0x1000 + PGOFF va"
    by (rule aligned_plus [symmetric]) (simp_all add: page_slot)
  have p: "unat (PTX va * 0x1000) = unat va div 4096 mod 1024 * 4096" by (simp add: page_slot unat_PTX)
  have "unat va div 4096 mod 1024 * 4096 + unat va mod 4096 = unat va mod 4194304"
    using mod_mult2_eq [of "unat va" 4096 1024] by simp
  then show "unat (PTX va * 0x1000 + PGOFF va) = unat va mod 4194304"
    by (subst unat_word_ariths(1)) (simp only: p unat_PGOFF, simp)
qed

text \<open>C37. The first page tables map exactly two windows: the low four megabytes to themselves, for
  reading only, and the four megabytes from \<open>KERNBASE\<close> to the same physical memory, writable;
  every other address faults.\<close>

theorem entry_mapping:
  assumes "entered pgdir pgtable s"
  shows "mmu write va s =
    (if va < 0x400000 then (if write then None else Some va)
     else if KERNBASE \<le> va \<and> va - KERNBASE < 0x400000 then Some (va - KERNBASE)
     else None)"
proof -
  let ?t = "pgtable - KERNBASE" and ?d = "pgdir - KERNBASE" and ?v = "PTX va * 0x1000 OR PGOFF va"
  note e = assms [unfolded entered_def]
  have pde: "phys s (PTE_ADDR (cr3 s (cpunum_reg s)) + 4 * PDX va) = entry_pgdir pgtable (PDX va)"
    using e by simp
  have pte: "phys s (?t + 4 * PTX va) = entry_pgtable (PTX va)" using e by simp
  have ptb: "PTE_ADDR (entry_pgtable (PTX va)) = PTX va * 0x1000" "entry_pgtable (PTX va) AND PTE_P \<noteq> 0"
    "entry_pgtable (PTX va) AND PTE_W \<noteq> 0"
    using entry_bits [OF page_slot(1), of "PTX va" 3] by (simp_all add: entry_pgtable_def or.assoc)
  have t: "PTE_ADDR (?t OR f) = ?t OR PTE_ADDR f" "(?t OR f) AND PTE_P = f AND PTE_P" "(?t OR f) AND PTE_W = f AND PTE_W" for f
    using e entry_bits by blast+
  have "?t + 3 = ?t OR 3" "?t + PTE_P = ?t OR 1" by (rule aligned_plus; use e in simp)+
  moreover have "?t + PTE_P + PTE_W = ?t + 3" by (simp only: add.assoc) simp
  ultimately have tp: "?t + PTE_P = ?t OR 1" "?t + PTE_P + PTE_W = ?t OR 3" by metis+
  have "entry_pgdir pgtable 0 = ?t + PTE_P" by (simp add: entry_pgdir_def)
  then have d0: "entry_pgdir pgtable 0 = ?t OR 1" unfolding tp(1) .
  have "entry_pgdir pgtable 0x3C0 = ?t + PTE_P + PTE_W" by (simp add: entry_pgdir_def)
  then have d: "entry_pgdir pgtable 0x3C0 = ?t OR 3" unfolding tp(2) .
  note d = d0 d
  have dm: "unat va = unat (PDX va) * 4194304 + unat va mod 4194304"
    using unat_PDX [of va] by (simp add: div_mult_mod_eq)
  consider (low) "PDX va = 0" | (high) "PDX va = 0x3C0" | (none) "PDX va \<noteq> 0" "PDX va \<noteq> 0x3C0" by blast
  then show ?thesis
  proof cases
    case low
    then have "va < 0x400000" using dm by (simp add: word_less_nat_alt)
    moreover have "?v = va" using low dm entry_translation by (simp add: word_unat_eq_iff)
    ultimately show ?thesis
      using low pde pte ptb t [of 1] by (simp add: mmu_def Let_def d)
  next
    case high
    then have u: "unat va = 0xF0000000 + unat va mod 4194304" using dm by simp
    then have k: "KERNBASE \<le> va" "\<not> va < 0x400000" by (simp_all add: word_le_nat_alt word_less_nat_alt)
    then have v: "unat (va - KERNBASE) = unat va mod 4194304" using u by (simp add: unat_sub)
    then have "va - KERNBASE < 0x400000" by (simp add: word_less_nat_alt)
    moreover have "?v = va - KERNBASE" using v entry_translation by (simp add: word_unat_eq_iff)
    ultimately show ?thesis
      using high pde pte ptb t [of 3] k by (simp add: mmu_def Let_def d)
  next
    case none
    have "\<not> va < 0x400000"
      using none(1) unat_PDX [of va] by (auto simp: word_less_nat_alt word_unat_eq_iff)
    moreover have "\<not> (KERNBASE \<le> va \<and> va - KERNBASE < 0x400000)"
    proof
      assume k: "KERNBASE \<le> va \<and> va - KERNBASE < 0x400000"
      then have "unat (va - KERNBASE) = unat va - 0xF0000000" using unat_sub [of KERNBASE va] by simp
      then have "unat va - 0xF0000000 < 4194304" "0xF0000000 \<le> unat va"
        using k by (simp_all add: word_less_nat_alt word_le_nat_alt)
      then have "unat va div 4194304 = 0x3C0" by (intro div_nat_eqI) simp_all
      then show False using none(2) unat_PDX [of va] by (simp add: word_unat_eq_iff)
    qed
    ultimately show ?thesis using none pde by (simp add: mmu_def Let_def entry_pgdir_def)
  qed
qed

text \<open>The tables at physical 1 and 2 megabytes.\<close>

definition entry_state :: "kstate \<Rightarrow> kstate" where
  "entry_state s = s\<lparr>cr3 := (\<lambda>_. 0x100000),
     phys := (\<lambda>a. if a - 0x100000 < 0x1000 then entry_pgdir 0xF0200000 (drop_bit 2 (a - 0x100000))
       else if a - 0x200000 < 0x1000 then entry_pgtable (drop_bit 2 (a - 0x200000)) else 0)\<rparr>"

lemma entry_mapping_witness:
  "\<forall>s. mmu True 0xF0001234 (entry_state s) = Some 0x1234 \<and> mmu True 0x1234 (entry_state s) = None"
proof
  fix s
  have x: "drop_bit 2 (4 * i) = i" "4 * i < 0x1000" if "i < (1024 :: u32)" for i
    using that by (simp_all add: word_unat_eq_iff unat_drop_bit_u32 word_less_nat_alt unat_word_ariths)
  have "\<not> 0x100000 + 4 * i < 0x1000" if "i < (1024 :: u32)" for i
    using that by (simp add: word_less_nat_alt unat_word_ariths)
  then have "entered 0xF0100000 0xF0200000 (entry_state s)"
    using x by (auto simp: entered_def entry_state_def PGOFF_def algebra_simps)
  from entry_mapping [OF this, of True "0xF0001234"] entry_mapping [OF this, of True "0x1234"]
  show "mmu True 0xF0001234 (entry_state s) = Some 0x1234 \<and> mmu True 0x1234 (entry_state s) = None"
    by simp
qed

end
