(* ===== verification/Kdebug.thy ===== *)
theory Kdebug
  imports Strings Layout
begin

text \<open>
  Symbol lookup of \<^verbatim>\<open>kern/kdebug.c\<close>: the binary search among the debugger's symbol table entries
  and the lookup of an instruction address. A table is a function from indices; the bounds
  between which the search works are the arguments. What the search promises is proved for
  tables whose entries of the type searched are in order, and where no such entry starts one
  byte behind the address: there the search can miss.
\<close>

section \<open>Table (inc/stab.h)\<close>

record Stab =
  n_strx :: u32
  n_type :: u8
  n_other :: u8
  n_desc :: u16
  n_value :: u32

abbreviation (input) N_FUN :: u8 where "N_FUN \<equiv> 0x24"
abbreviation (input) N_SO :: u8 where "N_SO \<equiv> 0x64"
abbreviation (input) N_SOL :: u8 where "N_SOL \<equiv> 0x84"
abbreviation (input) N_PSYM :: u8 where "N_PSYM \<equiv> 0xA0"

section \<open>Binary search\<close>

text \<open>From an index down to the next entry of a type, not below a bound.\<close>

function scan_down :: "(int \<Rightarrow> bool) \<Rightarrow> int \<Rightarrow> int \<Rightarrow> int" where
  "scan_down stop low m = (if m \<ge> low \<and> \<not> stop m then scan_down stop low (m - 1) else m)"
  by pat_completeness auto
termination by (relation "measure (\<lambda>(_, low, m). nat (m - low + 1))") auto

declare scan_down.simps [simp del]

text \<open>The state of the search: \<open>l\<close>, \<open>r\<close>, the two results, whether anything matched, the address.\<close>

partial_function (option) stab_search ::
    "(int \<Rightarrow> Stab) \<Rightarrow> u8 \<Rightarrow> int \<Rightarrow> int \<Rightarrow> int \<Rightarrow> int \<Rightarrow> bool \<Rightarrow> u32 \<Rightarrow> (int \<times> int \<times> bool) option" where
  "stab_search stabs type l r left right any_matches addr =
     (if l \<le> r then
        let true_m = (l + r) div 2;
            m = scan_down (\<lambda>i. n_type (stabs i) = type) l true_m
        in if m < l then stab_search stabs type (true_m + 1) r left right any_matches addr
           else if n_value (stabs m) < addr then stab_search stabs type (true_m + 1) r m right True addr
           else if n_value (stabs m) > addr then stab_search stabs type l (m - 1) left (m - 1) True addr
           else stab_search stabs type m r m right True (addr + 1)
      else Some (left, right, any_matches))"

definition stab_binsearch :: "(int \<Rightarrow> Stab) \<Rightarrow> int \<Rightarrow> int \<Rightarrow> u8 \<Rightarrow> u32 \<Rightarrow> (int \<times> int) option" where
  "stab_binsearch stabs region_left region_right type addr = do {
     (left, right, any_matches) \<leftarrow>
       stab_search stabs type region_left region_right region_left region_right False addr;
     Some (if \<not> any_matches then (left, left - 1)
           else (scan_down (\<lambda>i. i \<le> left \<or> n_type (stabs i) = type) left right, right))}"

section \<open>Lookup of an instruction address\<close>

record Eipdebuginfo =
  eip_file :: u32
  eip_line :: u32
  eip_fn_name :: u32
  eip_fn_namelen :: u32
  eip_fn_addr :: u32
  eip_fn_narg :: u32

text \<open>
  The symbol table of the kernel, or the one a user program describes at \<open>USTABDATA\<close>: where its
  entries are, how many, and its strings. \<open>unknown\<close> is the address of the literal \<open><unknown>\<close>.
\<close>

record Stabtab =
  st_stabs :: "int \<Rightarrow> Stab"
  st_count :: int
  st_str :: u32
  st_str_end :: u32

definition file_stop :: "(int \<Rightarrow> Stab) \<Rightarrow> int \<Rightarrow> bool" where
  "file_stop stabs i \<longleftrightarrow>
     n_type (stabs i) = N_SOL \<or> (n_type (stabs i) = N_SO \<and> n_value (stabs i) \<noteq> 0)"

function count_args :: "(int \<Rightarrow> Stab) \<Rightarrow> int \<Rightarrow> int \<Rightarrow> u32 \<Rightarrow> u32" where
  "count_args stabs lline rfun n =
     (if lline < rfun \<and> n_type (stabs lline) = N_PSYM then count_args stabs (lline + 1) rfun (n + 1) else n)"
  by pat_completeness auto
termination by (relation "measure (\<lambda>(_, lline, rfun, _). nat (rfun - lline))") auto

declare count_args.simps [simp del]

definition debuginfo_eip ::
    "bmem \<Rightarrow> Stabtab \<Rightarrow> Stabtab \<Rightarrow> u32 \<Rightarrow> u32 \<Rightarrow> (u32 \<times> Eipdebuginfo) option" where
  "debuginfo_eip m kern_tab user_tab unknown addr =
     (let info = \<lparr>eip_file = unknown, eip_line = 0, eip_fn_name = unknown, eip_fn_namelen = 9,
                  eip_fn_addr = addr, eip_fn_narg = 0\<rparr>;
          tab = (if addr \<ge> ULIM then kern_tab else user_tab);
          stabs = st_stabs tab; stabstr = st_str tab; stabstr_end = st_str_end tab
      in if stabstr_end \<le> stabstr \<or> m (stabstr_end - 1) \<noteq> 0 then Some (- 1, info)
         else do {
           (lfile, rfile) \<leftarrow> stab_binsearch stabs 0 (st_count tab - 1) N_SO addr;
           if lfile = 0 then Some (- 1, info)
           else do {
             (lfun, rfun) \<leftarrow> stab_binsearch stabs lfile rfile N_FUN addr;
             let (info, lline) =
               (if lfun \<le> rfun then
                  (info\<lparr>eip_fn_name := (if n_strx (stabs lfun) < stabstr_end - stabstr
                                        then stabstr + n_strx (stabs lfun) else eip_fn_name info),
                        eip_fn_addr := n_value (stabs lfun)\<rparr>, lfun)
                else (info\<lparr>eip_fn_addr := addr\<rparr>, lfile));
             colon \<leftarrow> strfind m (eip_fn_name info) (of_char CHR '':'');
             let info = info\<lparr>eip_fn_namelen := colon - eip_fn_name info\<rparr>;
             let lline = scan_down (file_stop stabs) lfile lline;
             let info = (if lline \<ge> lfile \<and> n_strx (stabs lline) < stabstr_end - stabstr
                         then info\<lparr>eip_file := stabstr + n_strx (stabs lline)\<rparr> else info);
             let info = (if lfun < rfun
                         then info\<lparr>eip_fn_narg := count_args stabs (lfun + 1) rfun (eip_fn_narg info)\<rparr>
                         else info);
             Some (0, info)}})"

section \<open>The search ends, in bounds\<close>

lemma scan_down_cases:
  assumes "low \<le> m + 1"
  shows "low - 1 \<le> scan_down stop low m \<and> scan_down stop low m \<le> m \<and>
    (scan_down stop low m \<ge> low \<longrightarrow> stop (scan_down stop low m)) \<and>
    (\<forall>i. scan_down stop low m < i \<and> i \<le> m \<longrightarrow> \<not> stop i)"
  using assms
proof (induction stop low m rule: scan_down.induct)
  case (1 stop low m)
  show ?case
  proof (cases "m \<ge> low \<and> \<not> stop m")
    case True
    then have "scan_down stop low m = scan_down stop low (m - 1)" by (subst scan_down.simps) simp
    moreover have "i = m \<or> i \<le> m - 1" if "i \<le> m" for i using that by auto
    ultimately show ?thesis using 1 True by (auto 4 4)
  next
    case False
    then have "scan_down stop low m = m" by (subst scan_down.simps) auto
    then show ?thesis using False 1(2) by auto
  qed
qed

text \<open>
  Every round but an exact match shortens the range; an exact match that does not is followed by a
  round that does, because the address it looks for has changed.
\<close>

lemma stab_search_ends: "\<exists>res. stab_search stabs type l r left right any addr = Some res"
proof -
  define found where "found l r = scan_down (\<lambda>i. n_type (stabs i) = type) l ((l + r) div 2)" for l r
  define M where "M l r addr = 2 * nat (r - l + 1) + (if l \<le> r \<and> n_value (stabs (found l r)) = addr then 1 else 0)" for l r addr
  show ?thesis
  proof (induction "M l r addr" arbitrary: l r left right any addr rule: less_induct)
    case less
    show ?case
    proof (cases "l \<le> r")
      case False
      then show ?thesis by (subst stab_search.simps) simp
    next
      case True
      let ?t = "(l + r) div 2" and ?m = "found l r"
      have t: "l \<le> ?t" "?t \<le> r" using True by auto
      have m: "l - 1 \<le> ?m" "?m \<le> ?t"
        using scan_down_cases [of l ?t "\<lambda>i. n_type (stabs i) = type"] t(1) by (simp_all add: found_def)
      have shrink: "M l' r' addr' < M l r addr" if "nat (r' - l' + 1) < nat (r - l + 1)" for l' r' addr'
      proof -
        have "M l' r' addr' \<le> 2 * nat (r' - l' + 1) + 1" by (simp add: M_def)
        also have "\<dots> < 2 * nat (r - l + 1)" using that by linarith
        also have "\<dots> \<le> M l r addr" by (simp add: M_def)
        finally show ?thesis .
      qed
      have up: "M (?t + 1) r addr' < M l r addr" for addr' by (rule shrink) (use t True in linarith)
      have down: "M l (?m - 1) addr' < M l r addr" if "l \<le> ?m" for addr'
        by (rule shrink) (use that m t True in linarith)
      have exact: "M ?m r (addr + 1) < M l r addr" if "l \<le> ?m" "n_value (stabs ?m) = addr"
      proof (cases "?m = l")
        case True
        then have "n_value (stabs (found ?m r)) \<noteq> addr + 1" using that by simp
        then show ?thesis using True that \<open>l \<le> r\<close> by (simp add: M_def)
      next
        case False
        then show ?thesis by (intro shrink) (use that \<open>l \<le> r\<close> in linarith)
      qed
      have "\<exists>res. stab_search stabs type (?t + 1) r left' right' any' addr = Some res"
        for left' right' any' using less [OF up] .
      moreover have "\<exists>res. stab_search stabs type l (?m - 1) left' right' any' addr = Some res"
        if "l \<le> ?m" for left' right' any' using less [OF down [OF that]] .
      moreover have "\<exists>res. stab_search stabs type ?m r left' right' any' (addr + 1) = Some res"
        if "l \<le> ?m" "n_value (stabs ?m) = addr" for left' right' any' using less [OF exact [OF that]] .
      moreover have "stab_search stabs type l r left right any addr =
          (if ?m < l then stab_search stabs type (?t + 1) r left right any addr
           else if n_value (stabs ?m) < addr then stab_search stabs type (?t + 1) r ?m right True addr
           else if n_value (stabs ?m) > addr then stab_search stabs type l (?m - 1) left (?m - 1) True addr
           else stab_search stabs type ?m r ?m right True (addr + 1))"
        using True by (subst stab_search.simps) (simp only: if_True Let_def found_def)
      moreover have "?m < l \<or> l \<le> ?m" "n_value (stabs ?m) < addr \<or> n_value (stabs ?m) > addr \<or> n_value (stabs ?m) = addr"
        by auto
      ultimately show ?thesis by (metis (no_types, lifting) not_less)
    qed
  qed
qed

section \<open>The search finds\<close>

text \<open>What holds after every round, for the address \<open>a\<close> asked for and the bounds \<open>L\<close> and \<open>R\<close>.\<close>

definition search_inv where
  "search_inv stabs type L R a l r left right any addr \<longleftrightarrow>
     L \<le> l \<and> l \<le> r + 1 \<and> r \<le> R \<and> right = r \<and> (addr = a \<or> addr = a + 1) \<and>
     (\<forall>i. r < i \<and> i \<le> R \<and> n_type (stabs i) = type \<longrightarrow> a < n_value (stabs i)) \<and>
     (r = R \<or> n_type (stabs (r + 1)) = type) \<and>
     (any \<and> L \<le> left \<and> left \<le> l \<and> left \<le> r \<and> n_type (stabs left) = type \<and> n_value (stabs left) \<le> a \<and>
        (\<forall>i. left < i \<and> i < l \<longrightarrow> n_type (stabs i) \<noteq> type) \<or>
      left = L \<and> (\<forall>i. L \<le> i \<and> i < l \<longrightarrow> n_type (stabs i) \<noteq> type))"

lemmas stab_search_induct = stab_search.raw_induct [rotated, consumes 1, case_names step]

lemma above_search_address:
  assumes "addr = a \<or> addr = a + (1 :: u32)" and "a \<noteq> - 1"
  shows "v < addr \<Longrightarrow> v \<le> a" and "addr < v \<Longrightarrow> a < v"
proof -
  have "1 + a \<noteq> 0" using assms(2) by (metis add.commute eq_neg_iff_add_eq_0)
  then have "unat (a + 1) = unat a + 1" using unatSuc [of a] by (simp only: add.commute [of 1 a]) simp
  then show "v < addr \<Longrightarrow> v \<le> a" "addr < v \<Longrightarrow> a < v"
    using assms(1) by (auto simp: word_less_nat_alt word_le_nat_alt)
qed

text \<open>One round, for each of its four outcomes.\<close>

lemma search_inv_round:
  assumes inv: "search_inv stabs type L R a l r left right any addr" and "l \<le> r" and "a \<noteq> - 1"
    and sorted: "\<forall>i j. L \<le> i \<and> i < j \<and> j \<le> R \<and> n_type (stabs i) = type \<and> n_type (stabs j) = type \<longrightarrow>
      n_value (stabs i) \<le> n_value (stabs j)"
    and gap: "\<forall>i. L \<le> i \<and> i \<le> R \<and> n_type (stabs i) = type \<longrightarrow> n_value (stabs i) \<noteq> a + 1"
  defines "t \<equiv> (l + r) div 2" and "m \<equiv> scan_down (\<lambda>i. n_type (stabs i) = type) l ((l + r) div 2)"
  shows "m < l \<Longrightarrow> search_inv stabs type L R a (t + 1) r left right any addr"
    and "l \<le> m \<Longrightarrow> n_value (stabs m) < addr \<Longrightarrow> search_inv stabs type L R a (t + 1) r m right True addr"
    and "l \<le> m \<Longrightarrow> n_value (stabs m) > addr \<Longrightarrow> search_inv stabs type L R a l (m - 1) left (m - 1) True addr"
    and "l \<le> m \<Longrightarrow> n_value (stabs m) = addr \<Longrightarrow> search_inv stabs type L R a m r m right True (addr + 1)"
proof -
  have t: "l \<le> t" "t \<le> r" using \<open>l \<le> r\<close> by (auto simp: t_def)
  have m: "m \<le> t" "l \<le> m \<Longrightarrow> n_type (stabs m) = type" "\<And>i. m < i \<Longrightarrow> i \<le> t \<Longrightarrow> n_type (stabs i) \<noteq> type"
    using scan_down_cases [of l t "\<lambda>i. n_type (stabs i) = type"] t(1) by (simp_all add: m_def t_def)
  note i = inv [unfolded search_inv_def]
  have b: "L \<le> l" "r \<le> R" "right = r" "addr = a \<or> addr = a + 1"
    "\<And>i. r < i \<Longrightarrow> i \<le> R \<Longrightarrow> n_type (stabs i) = type \<Longrightarrow> a < n_value (stabs i)"
    "r = R \<or> n_type (stabs (r + 1)) = type"
    using i by blast+
  note addr = above_search_address [OF b(4) \<open>a \<noteq> - 1\<close>]
  show "search_inv stabs type L R a (t + 1) r left right any addr" if "m < l"
  proof -
    have none: "n_type (stabs i) \<noteq> type" if "l \<le> i" "i \<le> t" for i using m(3) that \<open>m < l\<close> by auto
    have "left \<noteq> l" if "n_type (stabs left) = type" using none [of l] t that by auto
    then show ?thesis using i t none unfolding search_inv_def by (smt (verit))
  qed
  show "search_inv stabs type L R a (t + 1) r m right True addr" if "l \<le> m" "n_value (stabs m) < addr"
    using b t m that addr(1) unfolding search_inv_def by auto
  show "search_inv stabs type L R a l (m - 1) left (m - 1) True addr" if "l \<le> m" "n_value (stabs m) > addr"
  proof -
    have v: "a < n_value (stabs m)" using addr(2) that by blast
    have "a < n_value (stabs i)" if "m - 1 < i" "i \<le> R" "n_type (stabs i) = type" for i
    proof (cases "i = m")
      case False
      then have "n_value (stabs m) \<le> n_value (stabs i)" using sorted that \<open>l \<le> m\<close> b m(2) by auto
      then show ?thesis using v by simp
    qed (use v in simp)
    moreover have "left \<noteq> m" if "n_value (stabs left) \<le> a" using v that by auto
    ultimately show ?thesis using i t m b that unfolding search_inv_def by (smt (verit))
  qed
  show "search_inv stabs type L R a m r m right True (addr + 1)" if "l \<le> m" "n_value (stabs m) = addr"
  proof -
    have "addr = a" using gap b(1,2,4) m(1,2) t that by (metis order_trans)
    then show ?thesis using b t m that unfolding search_inv_def by auto
  qed
qed

lemma stab_search_correct:
  assumes "stab_search stabs type l r left right any addr = Some res"
    and "search_inv stabs type L R a l r left right any addr" and "a \<noteq> - 1"
    and "\<forall>i j. L \<le> i \<and> i < j \<and> j \<le> R \<and> n_type (stabs i) = type \<and> n_type (stabs j) = type \<longrightarrow>
      n_value (stabs i) \<le> n_value (stabs j)"
    and "\<forall>i. L \<le> i \<and> i \<le> R \<and> n_type (stabs i) = type \<longrightarrow> n_value (stabs i) \<noteq> a + 1"
  shows "\<exists>l' r' addr'. r' < l' \<and> search_inv stabs type L R a l' r' (fst res) (fst (snd res)) (snd (snd res)) addr'"
  using assms
proof (induction rule: stab_search_induct)
  case (step rec stabs type l r left right any addr res)
  show ?case
  proof (cases "l \<le> r")
    case False
    then have "res = (left, right, any)" using step(2) by simp
    moreover have "r < l" using False by simp
    ultimately show ?thesis using step(3) by auto
  next
    case True
    note round = search_inv_round [OF step(3) True step(4-6)]
    show ?thesis
      using step(2) True round step(1) step(4-6)
      by (auto simp: Let_def not_less not_le split: if_splits)
  qed
qed

text \<open>C36. The symbol search ends and finds: in a table whose entries of the wanted type are in order of
  address, and where none starts one byte behind the address, the search returns the last entry
  of that type that starts at or before the address, and the range up to just before the next
  one, provided there is such an entry.\<close>

theorem stab_binsearch_finds:
  assumes "L \<le> R" and "addr \<noteq> - 1"
    and "\<forall>i j. L \<le> i \<and> i < j \<and> j \<le> R \<and> n_type (stabs i) = type \<and> n_type (stabs j) = type \<longrightarrow>
      n_value (stabs i) \<le> n_value (stabs j)"
    and "\<forall>i. L \<le> i \<and> i \<le> R \<and> n_type (stabs i) = type \<longrightarrow> n_value (stabs i) \<noteq> addr + 1"
    and "\<exists>i. L \<le> i \<and> i \<le> R \<and> n_type (stabs i) = type \<and> n_value (stabs i) \<le> addr"
  shows "\<exists>l r. stab_binsearch stabs L R type addr = Some (l, r) \<and> L \<le> l \<and> l \<le> r \<and> r \<le> R \<and>
    n_type (stabs l) = type \<and> n_value (stabs l) \<le> addr \<and>
    (\<forall>i. l < i \<and> i \<le> r \<longrightarrow> n_type (stabs i) \<noteq> type) \<and>
    (r = R \<or> n_type (stabs (r + 1)) = type \<and> addr < n_value (stabs (r + 1)))"
proof -
  obtain left right any where s: "stab_search stabs type L R L R False addr = Some (left, right, any)"
    using stab_search_ends by (metis prod_cases3)
  have "search_inv stabs type L R addr L R L R False addr" using assms(1) by (auto simp: search_inv_def)
  from stab_search_correct [OF s this assms(2-4)] obtain l' r' addr' where
    out: "r' < l'" and inv: "search_inv stabs type L R addr l' r' left right any addr'" by auto
  have r: "right = r'" "l' = r' + 1" "r' \<le> R" and
    above: "\<And>i. r' < i \<Longrightarrow> i \<le> R \<Longrightarrow> n_type (stabs i) = type \<Longrightarrow> addr < n_value (stabs i)" and
    edge: "r' = R \<or> n_type (stabs (r' + 1)) = type"
    using inv out unfolding search_inv_def by auto
  obtain i where i: "L \<le> i" "i \<le> R" "n_type (stabs i) = type" "n_value (stabs i) \<le> addr" using assms(5) by blast
  have "i < l'"
  proof (rule ccontr)
    assume "\<not> i < l'"
    then have "addr < n_value (stabs i)" using above i r(2) by simp
    then show False using i(4) by simp
  qed
  have left: "any" "L \<le> left" "left \<le> r'" "n_type (stabs left) = type" "n_value (stabs left) \<le> addr"
    and none: "\<And>i. left < i \<Longrightarrow> i < l' \<Longrightarrow> n_type (stabs i) \<noteq> type"
  proof -
    have "\<not> (left = L \<and> (\<forall>i. L \<le> i \<and> i < l' \<longrightarrow> n_type (stabs i) \<noteq> type))" using i(1,3) \<open>i < l'\<close> by blast
    then have f: "any \<and> L \<le> left \<and> left \<le> l' \<and> left \<le> r' \<and> n_type (stabs left) = type \<and> n_value (stabs left) \<le> addr \<and>
        (\<forall>i. left < i \<and> i < l' \<longrightarrow> n_type (stabs i) \<noteq> type)"
      using inv unfolding search_inv_def by argo
    then show "any" "L \<le> left" "left \<le> r'" "n_type (stabs left) = type" "n_value (stabs left) \<le> addr" by simp_all
    show "n_type (stabs i) \<noteq> type" if "left < i" "i < l'" for i using f that by blast
  qed
  let ?stop = "\<lambda>i. i \<le> left \<or> n_type (stabs i) = type"
  define x where "x = scan_down ?stop left r'"
  have x: "left - 1 \<le> x" "x \<le> r'" "x \<ge> left \<longrightarrow> ?stop x" "\<forall>i. x < i \<and> i \<le> r' \<longrightarrow> \<not> ?stop i"
  proof -
    have "left \<le> r' + 1" using left(3) by simp
    note c = scan_down_cases [OF this, of ?stop, folded x_def]
    show "left - 1 \<le> x" by (rule conjunct1 [OF c])
    show "x \<le> r'" by (rule conjunct1 [OF conjunct2 [OF c]])
    show "x \<ge> left \<longrightarrow> ?stop x" by (rule conjunct1 [OF conjunct2 [OF conjunct2 [OF c]]])
    show "\<forall>i. x < i \<and> i \<le> r' \<longrightarrow> \<not> ?stop i" by (rule conjunct2 [OF conjunct2 [OF conjunct2 [OF c]]])
  qed
  have "left \<le> x" using x(4) left(3) by (metis linorder_not_less order.refl)
  moreover have "\<not> left < x" using x(2,3) none [of x] r(2) by auto
  ultimately have "scan_down ?stop left r' = left" by (simp add: x_def)
  then have "stab_binsearch stabs L R type addr = Some (left, r')"
    using s left(1) r(1) by (simp add: stab_binsearch_def)
  then show ?thesis using left none r edge above [of "r' + 1"] by auto
qed

text \<open>
  Without the condition on the byte behind, the search misses: of two functions of which the first
  is one byte long it answers the second for the address of the first.
\<close>

definition stab_fun :: "u32 \<Rightarrow> Stab" where
  "stab_fun v = \<lparr>n_strx = 0, n_type = N_FUN, n_other = 0, n_desc = 0, n_value = v\<rparr>"

lemma stab_binsearch_misses:
  "stab_binsearch (\<lambda>i. stab_fun (if i = 0 then 0x100 else 0x101)) 0 1 N_FUN 0x100 = Some (1, 1)"
  by (simp add: stab_binsearch_def stab_search.simps scan_down.simps stab_fun_def)

definition three_funs :: "int \<Rightarrow> Stab" where
  "three_funs i = stab_fun (if i \<le> 0 then 0x100 else if i = 1 then 0x200 else 0x300)"

lemma stab_binsearch_finds_witness: "\<exists>r. stab_binsearch three_funs 0 2 N_FUN 0x250 = Some (1, r)"
proof -
  have t: "n_type (three_funs i) = N_FUN" "n_value (three_funs i) = (if i \<le> 0 then 0x100 else if i = 1 then 0x200 else 0x300)" for i
    by (simp_all add: three_funs_def stab_fun_def)
  have f: "\<exists>l r. stab_binsearch three_funs 0 2 N_FUN 0x250 = Some (l, r) \<and> 0 \<le> l \<and> l \<le> r \<and> r \<le> 2 \<and>
    n_type (three_funs l) = N_FUN \<and> n_value (three_funs l) \<le> 0x250 \<and>
    (\<forall>i. l < i \<and> i \<le> r \<longrightarrow> n_type (three_funs i) \<noteq> N_FUN) \<and>
    (r = 2 \<or> n_type (three_funs (r + 1)) = N_FUN \<and> 0x250 < n_value (three_funs (r + 1)))"
    by (rule stab_binsearch_finds) (auto simp: t intro: exI [of _ 0])
  then obtain l r where "stab_binsearch three_funs 0 2 N_FUN 0x250 = Some (l, r)" "0 \<le> l" "l \<le> r"
    "n_value (three_funs l) \<le> 0x250" "\<forall>i. l < i \<and> i \<le> r \<longrightarrow> n_type (three_funs i) \<noteq> N_FUN"
    "r = 2 \<or> 0x250 < n_value (three_funs (r + 1))"
    by blast
  moreover from calculation have "l = r" unfolding t by (metis order.order_iff_strict order.refl)
  ultimately show ?thesis by (auto simp: t split: if_splits)
qed

end
