(* ===== verification/Mpconf.thy ===== *)
theory Mpconf
  imports Kstate Strings
begin

text \<open>
  The search for the multiprocessor configuration table and its evaluation, \<^verbatim>\<open>kern/mpconfig.c\<close>.
  The tables are read byte by byte through the kernel's linear mapping (\<open>kmem\<close>). The file's
  globals are fields of \<open>machine\<close> beside the kernel state, together with those of the interrupt
  controllers' drivers (see \<open>Lapic\<close>) and what is written to I/O ports and to the local APIC; a call
  of \<^verbatim>\<open>cprintf\<close> is recorded with its format and numbers. A store through \<^verbatim>\<open>bootcpu\<close> when that points
  behind the array \<^verbatim>\<open>cpus\<close> has no defined effect and is \<^term>\<open>None\<close>, like a panic.
\<close>

section \<open>State\<close>

record machine =
  kern :: kstate
  ismp :: bool
  ncpu :: nat
  bootcpu :: nat
  lapicaddr :: u32
  lapic :: u32
  lapic_out :: "(u32 \<times> u32) list"
  mpentry_kstack :: u32
  irq_mask_8259A :: u16
  didinit :: bool
  port_out :: "(u16 \<times> u8) list"
  printed :: "(string \<times> u32 list) list"

definition kmem :: "kstate \<Rightarrow> bmem" where
  "kmem s va = ld8 (phys s) (va - KERNBASE)"

definition load16 :: "bmem \<Rightarrow> u32 \<Rightarrow> u32" where
  "load16 m a = ucast (m a) OR push_bit 8 (ucast (m (a + 1)))"

definition mp_print :: "string \<Rightarrow> u32 list \<Rightarrow> machine \<Rightarrow> machine" where
  "mp_print fmt args s = s\<lparr>printed := printed s @ [(fmt, args)]\<rparr>"

text \<open>The fields of \<^verbatim>\<open>struct mp\<close>, by offset.\<close>

abbreviation (input) sizeof_mp :: u32 where "sizeof_mp \<equiv> 16"

definition mp_physaddr :: "bmem \<Rightarrow> u32 \<Rightarrow> u32" where "mp_physaddr m mp = load32 m (mp + 4)"
definition mp_type :: "bmem \<Rightarrow> u32 \<Rightarrow> u8" where "mp_type m mp = m (mp + 11)"
definition mp_imcrp :: "bmem \<Rightarrow> u32 \<Rightarrow> u8" where "mp_imcrp m mp = m (mp + 12)"

text \<open>The fields of \<^verbatim>\<open>struct mpconf\<close>.\<close>

definition conf_length :: "bmem \<Rightarrow> u32 \<Rightarrow> u32" where "conf_length m conf = load16 m (conf + 4)"
definition conf_version :: "bmem \<Rightarrow> u32 \<Rightarrow> u8" where "conf_version m conf = m (conf + 6)"
definition conf_entry :: "bmem \<Rightarrow> u32 \<Rightarrow> u32" where "conf_entry m conf = load16 m (conf + 34)"
definition conf_lapicaddr :: "bmem \<Rightarrow> u32 \<Rightarrow> u32" where "conf_lapicaddr m conf = load32 m (conf + 36)"
definition conf_xlength :: "bmem \<Rightarrow> u32 \<Rightarrow> u32" where "conf_xlength m conf = load16 m (conf + 40)"
definition conf_xchecksum :: "bmem \<Rightarrow> u32 \<Rightarrow> u8" where "conf_xchecksum m conf = m (conf + 42)"
definition conf_entries :: "u32 \<Rightarrow> u32" where "conf_entries conf = conf + 44"

text \<open>The fields of \<^verbatim>\<open>struct mpproc\<close> and the types of entries.\<close>

abbreviation (input) sizeof_mpproc :: u32 where "sizeof_mpproc \<equiv> 20"

definition proc_apicid :: "bmem \<Rightarrow> u32 \<Rightarrow> u8" where "proc_apicid m proc = m (proc + 1)"
definition proc_flags :: "bmem \<Rightarrow> u32 \<Rightarrow> u8" where "proc_flags m proc = m (proc + 3)"

abbreviation (input) MPPROC_BOOT :: u8 where "MPPROC_BOOT \<equiv> 2"
abbreviation (input) MPPROC :: u8 where "MPPROC \<equiv> 0"
abbreviation (input) MPBUS :: u8 where "MPBUS \<equiv> 1"
abbreviation (input) MPIOAPIC :: u8 where "MPIOAPIC \<equiv> 2"
abbreviation (input) MPIOINTR :: u8 where "MPIOINTR \<equiv> 3"
abbreviation (input) MPLINTR :: u8 where "MPLINTR \<equiv> 4"

section \<open>Search\<close>

primrec mp_sum_loop :: "nat \<Rightarrow> bmem \<Rightarrow> u32 \<Rightarrow> u32 \<Rightarrow> u32" where
  "mp_sum_loop 0 m a acc = acc"
| "mp_sum_loop (Suc n) m a acc = mp_sum_loop n m (a + 1) (acc + ucast (m a))"

definition mp_sum :: "bmem \<Rightarrow> u32 \<Rightarrow> u32 \<Rightarrow> u8" where
  "mp_sum m addr len = ucast (mp_sum_loop (nat (sint len)) m addr 0)"

definition signature_at :: "bmem \<Rightarrow> u32 \<Rightarrow> string \<Rightarrow> bool" where
  "signature_at m a sig \<longleftrightarrow> [m a, m (a + 1), m (a + 2), m (a + 3)] = codes sig"

partial_function (option) mp_scan :: "bmem \<Rightarrow> u32 \<Rightarrow> u32 \<Rightarrow> u32 option option" where
  "mp_scan m mp end =
     (if mp < end then
        (if signature_at m mp ''_MP_'' \<and> mp_sum m mp sizeof_mp = 0 then Some (Some mp)
         else mp_scan m (mp + sizeof_mp) end)
      else Some None)"

definition mpsearch1 :: "kstate \<Rightarrow> u32 \<Rightarrow> u32 \<Rightarrow> u32 option option" where
  "mpsearch1 s a len = do {
     mp \<leftarrow> KADDR s a;
     end \<leftarrow> KADDR s (a + len);
     mp_scan (kmem s) mp end}"

definition mpsearch :: "kstate \<Rightarrow> u32 option option" where
  "mpsearch s = do {
     bda \<leftarrow> KADDR s (push_bit 4 0x40);
     let p = load16 (kmem s) (bda + 0x0E);
     mp \<leftarrow> (if p \<noteq> 0 then mpsearch1 s (push_bit 4 p) 1024
            else let p = load16 (kmem s) (bda + 0x13) * 1024 in mpsearch1 s (p - 1024) 1024);
     (case mp of Some mp \<Rightarrow> Some (Some mp) | None \<Rightarrow> mpsearch1 s 0xF0000 0x10000)}"

text \<open>The table and the floating pointer, if both are acceptable.\<close>

definition mpconfig :: "machine \<Rightarrow> ((u32 \<times> u32) option \<times> machine) option" where
  "mpconfig s =
     (let k = kern s; m = kmem k in do {
        mp \<leftarrow> mpsearch k;
        (case mp of
           None \<Rightarrow> Some (None, s)
         | Some mp \<Rightarrow>
             if mp_physaddr m mp = 0 \<or> mp_type m mp \<noteq> 0
             then Some (None, mp_print (''SMP: Default configurations not implemented'' @ [CHR 0x0A]) [] s)
             else do {
               conf \<leftarrow> KADDR k (mp_physaddr m mp);
               if \<not> signature_at m conf ''PCMP''
               then Some (None, mp_print (''SMP: Incorrect MP configuration table signature'' @ [CHR 0x0A]) [] s)
               else if mp_sum m conf (conf_length m conf) \<noteq> 0
               then Some (None, mp_print (''SMP: Bad MP configuration checksum'' @ [CHR 0x0A]) [] s)
               else if conf_version m conf \<noteq> 1 \<and> conf_version m conf \<noteq> 4
               then Some (None, mp_print (''SMP: Unsupported MP version %d'' @ [CHR 0x0A]) [ucast (conf_version m conf)] s)
               else if (ucast (mp_sum m (conf + conf_length m conf) (conf_xlength m conf)) +
                        ucast (conf_xchecksum m conf) :: u32) AND 0xFF \<noteq> 0
               then Some (None, mp_print (''SMP: Bad MP configuration extended checksum'' @ [CHR 0x0A]) [] s)
               else Some (Some (conf, mp), s)})})"

section \<open>Evaluation\<close>

definition upd_cpu :: "nat \<Rightarrow> (CpuInfo \<Rightarrow> CpuInfo) \<Rightarrow> machine \<Rightarrow> machine" where
  "upd_cpu i f s = s\<lparr>kern := (kern s)\<lparr>cpus := (cpus (kern s))(i := f (cpus (kern s) i))\<rparr>\<rparr>"

definition mp_proc :: "u8 \<Rightarrow> u8 \<Rightarrow> machine \<Rightarrow> machine" where
  "mp_proc apicid flags s =
     (let s = (if flags AND MPPROC_BOOT \<noteq> 0 then s\<lparr>bootcpu := ncpu s\<rparr> else s)
      in if ncpu s < NCPU
         then (upd_cpu (ncpu s) (\<lambda>c. c\<lparr>cpu_id := of_nat (ncpu s)\<rparr>) s)\<lparr>ncpu := ncpu s + 1\<rparr>
         else mp_print (''SMP: too many CPUs, CPU %d disabled'' @ [CHR 0x0A]) [ucast apicid] s)"

text \<open>The entries from \<open>p\<close> on, of which as many are left as the first argument says.\<close>

primrec mp_entries :: "nat \<Rightarrow> u32 \<Rightarrow> machine \<Rightarrow> machine" where
  "mp_entries 0 p s = s"
| "mp_entries (Suc n) p s =
     (let m = kmem (kern s); t = m p in
      if t = MPPROC then mp_entries n (p + sizeof_mpproc) (mp_proc (proc_apicid m p) (proc_flags m p) s)
      else if t = MPBUS \<or> t = MPIOAPIC \<or> t = MPIOINTR \<or> t = MPLINTR then mp_entries n (p + 8) s
      else (mp_print (''mpinit: unknown config type %x'' @ [CHR 0x0A]) [ucast t] s)\<lparr>ismp := False\<rparr>)"

text \<open>\<open>imcr\<close> is what port \<^verbatim>\<open>0x23\<close> reads.\<close>

definition mp_init :: "u8 \<Rightarrow> machine \<Rightarrow> machine option" where
  "mp_init imcr s = do {
     (found, s) \<leftarrow> mpconfig (s\<lparr>bootcpu := 0\<rparr>);
     (case found of
        None \<Rightarrow> Some s
      | Some (conf, mp) \<Rightarrow>
          let m = kmem (kern s);
              s = s\<lparr>ismp := True, lapicaddr := conf_lapicaddr m conf\<rparr>;
              s = mp_entries (unat (conf_entry m conf)) (conf_entries conf) s
          in if bootcpu s \<ge> NCPU then None
             else
               let s = upd_cpu (bootcpu s) (\<lambda>c. c\<lparr>cpu_status := CPU_STARTED\<rparr>) s
               in if \<not> ismp s
                  then Some (mp_print (''SMP: configuration not found, SMP disabled'' @ [CHR 0x0A]) []
                    (s\<lparr>ncpu := 1, lapicaddr := 0\<rparr>))
                  else
                    let s = mp_print (''SMP: CPU %d found %d CPU(s)'' @ [CHR 0x0A])
                              [ucast (cpu_id (cpus (kern s) (bootcpu s))), of_nat (ncpu s)] s
                    in Some (if mp_imcrp m mp \<noteq> 0
                       then (mp_print (''SMP: Setting IMCR to switch from PIC mode to symmetric I/O mode'' @ [CHR 0x0A]) [] s)
                              \<lparr>port_out := port_out s @ [(0x22, 0x70), (0x23, imcr OR 1)]\<rparr>
                       else s))}"

section \<open>Scanning for a structure\<close>

text \<open>The scan ends on every range that does not wrap around, with the first match on a 16-byte step.\<close>

lemma mp_scan_first:
  assumes "unat mp + 16 * n < 2 ^ 32" and "unat end = unat mp + 16 * n"
  shows "mp_scan m mp end =
    Some (find (\<lambda>a. signature_at m a ''_MP_'' \<and> mp_sum m a sizeof_mp = 0) (map (\<lambda>k. mp + 16 * of_nat k) [0..<n]))"
  using assms
proof (induction n arbitrary: mp)
  case 0
  then show ?case by (subst mp_scan.simps) (simp add: word_less_nat_alt)
next
  case (Suc n)
  have u: "unat (mp + 16) = unat mp + 16" using Suc.prems(1) by (simp add: unat_word_ariths)
  have "mp < end" using Suc.prems(2) by (simp add: word_less_nat_alt)
  moreover have "map (\<lambda>k. mp + 16 * of_nat k) [0..<Suc n] = mp # map (\<lambda>k. mp + 16 + 16 * of_nat k) [0..<n]"
    by (simp add: upt_conv_Cons map_Suc_upt [symmetric] algebra_simps comp_def del: upt_Suc)
  moreover have "mp_scan m (mp + 16) end =
    Some (find (\<lambda>a. signature_at m a ''_MP_'' \<and> mp_sum m a sizeof_mp = 0) (map (\<lambda>k. mp + 16 + 16 * of_nat k) [0..<n]))"
    by (rule Suc.IH) (use Suc.prems u in simp_all)
  ultimately show ?case by (subst mp_scan.simps) simp
qed

lemma mpconfig_state: "mpconfig s = Some (Some r, s') \<Longrightarrow> s' = s"
  by (auto simp: mpconfig_def Let_def bind_eq_Some_conv split: option.splits if_splits)

end
