(* ===== verification/Mpconf_Props.thy ===== *)
theory Mpconf_Props
  imports Mpconf Demo
begin

text \<open>
  What \<^verbatim>\<open>mp_init\<close> makes of a configuration table: tables as lists of entries with the bytes that
  stand for them, the effect of the processors on the state, and the result of the whole routine.
\<close>

section \<open>Evaluation of a table\<close>

text \<open>The entries a table lists and the bytes that stand for one.\<close>

datatype mpentry = Processor u8 u8 u8 "u8 list" | Device u8 "u8 list"

fun entry_bytes :: "mpentry \<Rightarrow> u8 list" where
  "entry_bytes (Processor apicid version flags rest) = MPPROC # apicid # version # flags # rest"
| "entry_bytes (Device t rest) = t # rest"

fun entry_ok :: "mpentry \<Rightarrow> bool" where
  "entry_ok (Processor apicid version flags rest) \<longleftrightarrow> length rest = 16"
| "entry_ok (Device t rest) \<longleftrightarrow> t \<in> {MPBUS, MPIOAPIC, MPIOINTR, MPLINTR} \<and> length rest = 7"

text \<open>Identifier and flags of the processors among the entries.\<close>

fun processors :: "mpentry list \<Rightarrow> (u8 \<times> u8) list" where
  "processors [] = []"
| "processors (Processor apicid _ flags _ # es) = (apicid, flags) # processors es"
| "processors (Device _ _ # es) = processors es"

lemma kmem_cpus [simp]: "kmem (k\<lparr>cpus := c\<rparr>) = kmem k"
  by (simp add: kmem_def fun_eq_iff)

lemma mp_proc_kmem [simp]: "kmem (kern (mp_proc apicid flags s)) = kmem (kern s)"
  by (simp add: mp_proc_def upd_cpu_def mp_print_def Let_def)

lemma mp_entries_table:
  "\<lbrakk>\<forall>e\<in>set es. entry_ok e; holds (kmem (kern s)) p (concat (map entry_bytes es))\<rbrakk> \<Longrightarrow>
   mp_entries (length es) p s = fold (\<lambda>(apicid, flags). mp_proc apicid flags) (processors es) s"
proof (induction es arbitrary: p s)
  case Nil
  then show ?case by simp
next
  case (Cons e es)
  show ?case
  proof (cases e)
    case (Processor apicid version flags rest)
    have "length rest = 16" using Cons.prems(1) Processor by simp
    then have "holds (kmem (kern s)) (p + 20) (concat (map entry_bytes es))"
      "kmem (kern s) p = 0" "kmem (kern s) (p + 1) = apicid" "kmem (kern s) (p + 3) = flags"
      using Cons.prems(2) Processor by (simp_all add: holds_append algebra_simps)
    then show ?thesis
      using Cons.IH [of "mp_proc apicid flags s" "p + 20"] Cons.prems(1) Processor
      by (simp add: proc_apicid_def proc_flags_def)
  next
    case (Device t rest)
    have "length rest = 7" "t \<in> {1, 2, 3, 4}" using Cons.prems(1) Device by simp_all
    moreover from this have "holds (kmem (kern s)) (p + 8) (concat (map entry_bytes es))" "kmem (kern s) p = t"
      using Cons.prems(2) Device by (simp_all add: holds_append algebra_simps)
    ultimately show ?thesis using Cons.IH [of s "p + 8"] Cons.prems(1) Device by auto
  qed
qed

text \<open>What the processors of a table do to the state, whatever their flags.\<close>

definition cpus_found :: "nat \<Rightarrow> nat \<Rightarrow> (nat \<Rightarrow> CpuInfo) \<Rightarrow> nat \<Rightarrow> CpuInfo" where
  "cpus_found a b c i = (if a \<le> i \<and> i < b then (c i)\<lparr>cpu_id := of_nat i\<rparr> else c i)"

lemma cpus_found_simps:
  "b \<le> a \<Longrightarrow> cpus_found a b c = c" "cpus_found a (Suc a) c = c(a := (c a)\<lparr>cpu_id := of_nat a\<rparr>)"
  by (auto simp: cpus_found_def fun_eq_iff)

abbreviation mp_procs :: "(u8 \<times> u8) list \<Rightarrow> machine \<Rightarrow> machine" where
  "mp_procs ps s \<equiv> fold (\<lambda>(apicid, flags). mp_proc apicid flags) ps s"

lemma mp_proc_fields:
  "ncpu s \<le> NCPU \<Longrightarrow> ncpu (mp_proc a f s) = min NCPU (ncpu s + 1)"
  "kern (mp_proc a f s) = (kern s)\<lparr>cpus := cpus_found (ncpu s) (min NCPU (ncpu s + 1)) (cpus (kern s))\<rparr>"
  "ismp (mp_proc a f s) = ismp s" "lapicaddr (mp_proc a f s) = lapicaddr s"
  "bootcpu (mp_proc a f s) = (if f AND MPPROC_BOOT \<noteq> 0 then ncpu s else bootcpu s)"
proof -
  have n: "min NCPU (ncpu s + 1) = (if ncpu s < NCPU then Suc (ncpu s) else NCPU)" by simp
  show "ncpu s \<le> NCPU \<Longrightarrow> ncpu (mp_proc a f s) = min NCPU (ncpu s + 1)"
    "kern (mp_proc a f s) = (kern s)\<lparr>cpus := cpus_found (ncpu s) (min NCPU (ncpu s + 1)) (cpus (kern s))\<rparr>"
    "ismp (mp_proc a f s) = ismp s" "lapicaddr (mp_proc a f s) = lapicaddr s"
    "bootcpu (mp_proc a f s) = (if f AND MPPROC_BOOT \<noteq> 0 then ncpu s else bootcpu s)"
    unfolding n by (simp_all add: mp_proc_def upd_cpu_def mp_print_def cpus_found_simps Let_def)
qed

lemma mp_procs_fields:
  assumes "ncpu s \<le> NCPU"
  shows "ncpu (mp_procs ps s) = min NCPU (ncpu s + length ps) \<and>
    kern (mp_procs ps s) = (kern s)\<lparr>cpus := cpus_found (ncpu s) (min NCPU (ncpu s + length ps)) (cpus (kern s))\<rparr> \<and>
    ismp (mp_procs ps s) = ismp s \<and> lapicaddr (mp_procs ps s) = lapicaddr s"
  using assms
proof (induction ps arbitrary: s)
  case Nil
  then show ?case by (simp add: cpus_found_simps)
next
  case (Cons p ps)
  obtain a f where p: "p = (a, f)" by (cases p)
  let ?s = "mp_proc a f s"
  have n: "ncpu ?s = min NCPU (ncpu s + 1)" by (rule mp_proc_fields(1) [OF Cons.prems])
  have join: "cpus_found (min NCPU (x + 1)) (min NCPU (min NCPU (x + 1) + k)) (cpus_found x (min NCPU (x + 1)) c) =
      cpus_found x (min NCPU (x + Suc k)) c" if "x \<le> NCPU" for x k c
    using that by (auto simp: cpus_found_def fun_eq_iff min_def)
  have le: "ncpu ?s \<le> NCPU" by (simp add: n)
  have len: "min NCPU (ncpu ?s + length ps) = min NCPU (ncpu s + length (p # ps))" by (simp add: n)
  have cpus: "cpus_found (ncpu ?s) (min NCPU (ncpu ?s + length ps)) (cpus (kern ?s)) =
      cpus_found (ncpu s) (min NCPU (ncpu s + length (p # ps))) (cpus (kern s))"
    using join [OF Cons.prems, of "length ps"] by (simp add: n mp_proc_fields(2))
  have k: "(kern ?s)\<lparr>cpus := c\<rparr> = (kern s)\<lparr>cpus := c\<rparr>" for c by (simp add: mp_proc_fields(2))
  have "mp_procs (p # ps) s = mp_procs ps ?s" by (simp add: p)
  then show ?case using Cons.IH [OF le] by (simp only: len cpus [unfolded len] k mp_proc_fields(3,4))
qed

lemma mp_procs_boot:
  assumes "\<forall>p\<in>set ps. snd p AND MPPROC_BOOT = 0"
  shows "bootcpu (mp_procs ps s) = bootcpu s"
  using assms by (induction ps arbitrary: s) (auto simp: mp_proc_fields)

lemma mp_procs_one_boot:
  assumes "ncpu s \<le> NCPU" and "f AND MPPROC_BOOT \<noteq> 0"
    and "\<forall>p\<in>set (before @ after). snd p AND MPPROC_BOOT = 0"
  shows "bootcpu (mp_procs (before @ (a, f) # after) s) = min NCPU (ncpu s + length before)"
proof -
  have "bootcpu (mp_procs (before @ (a, f) # after) s) = bootcpu (mp_proc a f (mp_procs before s))"
    using assms(3) by (simp add: mp_procs_boot)
  also have "\<dots> = ncpu (mp_procs before s)" using assms(2) by (simp add: mp_proc_fields)
  also have "\<dots> = min NCPU (ncpu s + length before)" using mp_procs_fields [OF assms(1), of before] by simp
  finally show ?thesis .
qed

section \<open>The processors found\<close>

text \<open>
  C38. For every table the search accepts, with well-formed entries and one boot processor among
  the first eight: \<^verbatim>\<open>mp_init\<close> returns; it enables at most \<^verbatim>\<open>NCPU\<close> processors, as many as the table
  lists up to that, numbers them by position, marks the boot processor as started and changes
  nothing else of the kernel's state.
\<close>

theorem mp_init_correct:
  assumes "mpconfig (s\<lparr>bootcpu := 0\<rparr>) = Some (Some (conf, mp), s0)" and "ncpu s = 0"
    and "unat (conf_entry (kmem (kern s)) conf) = length es" and "\<forall>e\<in>set es. entry_ok e"
    and "holds (kmem (kern s)) (conf_entries conf) (concat (map entry_bytes es))"
    and "processors es = before @ (a, f) # after" and "f AND MPPROC_BOOT \<noteq> 0"
    and "\<forall>p\<in>set (before @ after). snd p AND MPPROC_BOOT = 0" and "length before < NCPU"
  shows "\<exists>s'. mp_init imcr s = Some s' \<and> ismp s' \<and> ncpu s' = min NCPU (length (processors es)) \<and>
    bootcpu s' = length before \<and> lapicaddr s' = conf_lapicaddr (kmem (kern s)) conf \<and>
    kern s' = (kern s)\<lparr>cpus := (cpus_found 0 (ncpu s') (cpus (kern s)))
      (length before := (cpus (kern s) (length before))\<lparr>cpu_id := of_nat (length before), cpu_status := CPU_STARTED\<rparr>)\<rparr>"
proof -
  define s1 where "s1 = s\<lparr>bootcpu := 0, ismp := True, lapicaddr := conf_lapicaddr (kmem (kern s)) conf\<rparr>"
  define s2 where "s2 = mp_procs (processors es) s1"
  have s0: "s0 = s\<lparr>bootcpu := 0\<rparr>" using assms(1) by (rule mpconfig_state)
  have n1: "ncpu s1 = 0" "ncpu s1 \<le> NCPU" "kern s1 = kern s" using assms(2) by (simp_all add: s1_def)
  have e: "mp_entries (unat (conf_entry (kmem (kern s)) conf)) (conf_entries conf) s1 = s2"
    unfolding assms(3) s2_def by (rule mp_entries_table) (use assms(4,5) n1 in simp_all)
  note f = mp_procs_fields [OF n1(2), of "processors es", folded s2_def]
  have b: "bootcpu s2 = length before"
    using mp_procs_one_boot [OF n1(2) assms(7,8), of a] assms(9) n1 unfolding s2_def assms(6) by simp
  have k: "kern s2 = (kern s)\<lparr>cpus := cpus_found 0 (ncpu s2) (cpus (kern s))\<rparr>" and n: "ncpu s2 = min NCPU (length (processors es))"
    and i: "ismp s2" "lapicaddr s2 = conf_lapicaddr (kmem (kern s)) conf"
    using f n1 by (simp_all add: s1_def)
  have in_range: "length before < ncpu s2" using assms(6,9) n by simp
  have run: "mp_init imcr s = Some (let s = upd_cpu (length before) (\<lambda>c. c\<lparr>cpu_status := CPU_STARTED\<rparr>) s2;
      s = mp_print (''SMP: CPU %d found %d CPU(s)'' @ [CHR 0x0A])
        [ucast (cpu_id (cpus (kern s) (bootcpu s))), of_nat (ncpu s)] s
      in if mp_imcrp (kmem (kern s2)) mp \<noteq> 0
         then (mp_print (''SMP: Setting IMCR to switch from PIC mode to symmetric I/O mode'' @ [CHR 0x0A]) [] s)
                \<lparr>port_out := port_out s @ [(0x22, 0x70), (0x23, imcr OR 1)]\<rparr> else s)"
    using assms(1) e b i(1) assms(9) unfolding mp_init_def s0 s1_def
    by (simp add: Let_def k upd_cpu_def)
  show ?thesis
    unfolding run by (simp add: Let_def mp_print_def upd_cpu_def b k n i) (use in_range n in \<open>simp add: cpus_found_def\<close>)
qed

section \<open>A boot processor too late in the table\<close>

text \<open>Behind eight processors the boot processor's entry makes \<^verbatim>\<open>bootcpu\<close> point past the array.\<close>

lemma mp_init_late_boot:
  assumes "mpconfig (s\<lparr>bootcpu := 0\<rparr>) = Some (Some (conf, mp), s0)" and "ncpu s = 0"
    and "unat (conf_entry (kmem (kern s)) conf) = length es" and "\<forall>e\<in>set es. entry_ok e"
    and "holds (kmem (kern s)) (conf_entries conf) (concat (map entry_bytes es))"
    and "processors es = before @ (a, f) # after" and "f AND MPPROC_BOOT \<noteq> 0"
    and "\<forall>p\<in>set (before @ after). snd p AND MPPROC_BOOT = 0" and "NCPU \<le> length before"
  shows "mp_init imcr s = None"
proof -
  define s1 where "s1 = s\<lparr>bootcpu := 0, ismp := True, lapicaddr := conf_lapicaddr (kmem (kern s)) conf\<rparr>"
  have n1: "ncpu s1 = 0" "ncpu s1 \<le> NCPU" "kern s1 = kern s" using assms(2) by (simp_all add: s1_def)
  have e: "mp_entries (unat (conf_entry (kmem (kern s)) conf)) (conf_entries conf) s1 = mp_procs (processors es) s1"
    unfolding assms(3) by (rule mp_entries_table) (use assms(4,5) n1 in simp_all)
  moreover have "bootcpu (mp_procs (processors es) s1) = NCPU"
    using mp_procs_one_boot [OF n1(2) assms(7,8), of a] assms(9) n1 unfolding assms(6) by simp
  ultimately show ?thesis
    using assms(1) mpconfig_state [OF assms(1)] unfolding mp_init_def s1_def by (simp add: Let_def)
qed

section \<open>A table in memory\<close>

lemma ld8_load32: "ld8 (load32 b) a = b a"
proof -
  define r q where "r = a AND 3" and "q = a AND NOT 3"
  have "a AND 3 = a AND mask 2" by (simp add: mask_eq_exp_minus_1)
  then have "unat r < 4" by (simp add: r_def unat_and_mask)
  then have "unat r = 0 \<or> unat r = 1 \<or> unat r = 2 \<or> unat r = 3" by linarith
  then have cases: "r = 0 \<or> r = 1 \<or> r = 2 \<or> r = 3" by (simp add: word_unat_eq_iff)
  have "q + r = q OR r" unfolding q_def r_def by (rule disjunctive_add) (simp add: bit_simps)
  also have "\<dots> = a" unfolding q_def r_def by (rule bit_word_eqI) (auto simp: bit_simps)
  finally have a: "a = q + r" by simp
  have "ld8 (load32 b) a = byte_of (load32 b q) a" by (simp add: ld8_def q_def)
  also have "\<dots> = ucast (drop_bit (8 * unat r) (load32 b q))" by (simp add: byte_of_def r_def)
  finally show ?thesis using cases by (auto simp: a bytes_of_load32)
qed

definition mp_demo_entries :: "mpentry list" where
  "mp_demo_entries = [Processor 0 0x14 3 (replicate 16 0), Device 1 (replicate 7 0)]"

definition mp_demo_bytes :: "u8 list" where
  "mp_demo_bytes =
     codes ''_MP_'' @ [0x10, 0, 9, 0, 1, 4, 0x87, 0, 0, 0, 0, 0] @
     codes ''PCMP'' @ [72, 0, 4, 0x8c] @ replicate 26 0 @ [2, 0, 0, 0, 0xE0, 0xFE, 0, 0, 0, 0] @
     concat (map entry_bytes mp_demo_entries)"

definition mp_demo_mem :: bmem where
  "mp_demo_mem a =
     (if a = 0x40F then 0x90
      else if 0x90000 \<le> a \<and> a < 0x90058 then mp_demo_bytes ! unat (a - 0x90000) else 0)"

definition mp_demo :: machine where
  "mp_demo = \<lparr>kern = demo\<lparr>npages := 0x200, phys := load32 mp_demo_mem\<rparr>, ismp = False, ncpu = 0,
     bootcpu = 0, lapicaddr = 0, lapic = 0, lapic_out = [], mpentry_kstack = 0, irq_mask_8259A = 0xFFFB, didinit = False,
     port_out = [], printed = []\<rparr>"

lemma mp_demo_kmem: "kmem (kern mp_demo) va = mp_demo_mem (va - KERNBASE)"
  by (simp add: kmem_def mp_demo_def ld8_load32)

lemma mp_demo_list:
  "mp_demo_bytes = [0x5F, 0x4D, 0x50, 0x5F, 0x10, 0, 9, 0, 1, 4, 0x87, 0, 0, 0, 0, 0,
     0x50, 0x43, 0x4D, 0x50, 72, 0, 4, 0x8C, 0, 0, 0, 0, 0, 0, 0, 0, 0, 0, 0, 0, 0, 0, 0, 0, 0, 0, 0, 0, 0, 0, 0, 0, 0, 0,
     2, 0, 0, 0, 0xE0, 0xFE, 0, 0, 0, 0,
     0, 0, 0x14, 3, 0, 0, 0, 0, 0, 0, 0, 0, 0, 0, 0, 0, 0, 0, 0, 0, 1, 0, 0, 0, 0, 0, 0, 0]"
  by (simp add: mp_demo_bytes_def mp_demo_entries_def codes_def of_char_def numeral_eq_Suc replicate_Suc)

lemma mp_demo_at:
  "k < 88 \<Longrightarrow> kmem (kern mp_demo) (0xF0090000 + of_nat k) = mp_demo_bytes ! k"
proof -
  assume k: "k < 88"
  have u: "unat (0x90000 + of_nat k :: u32) = 0x90000 + k" using k by (simp add: unat_word_ariths unat_of_nat)
  have "0xF0090000 + of_nat k - KERNBASE = (0x90000 + of_nat k :: u32)" by simp
  moreover have "(0x90000 + of_nat k :: u32) \<noteq> 0x40F" using u k by (auto simp: word_unat_eq_iff)
  ultimately show ?thesis using k u
    by (simp add: mp_demo_kmem mp_demo_mem_def word_less_nat_alt word_le_nat_alt unat_of_nat)
qed

lemma mp_demo_take:
  "i < 88 \<Longrightarrow> take (Suc n) (drop i mp_demo_bytes) = mp_demo_bytes ! i # take n (drop (Suc i) mp_demo_bytes)"
  by (subst Cons_nth_drop_Suc [symmetric]) (simp_all add: mp_demo_list)

lemma mp_sum_at:
  assumes "i + n \<le> 88"
  shows "mp_sum_loop n (kmem (kern mp_demo)) (0xF0090000 + of_nat i) acc =
    fold (\<lambda>b acc. acc + ucast b) (take n (drop i mp_demo_bytes)) acc"
  using assms
proof (induction n arbitrary: i acc)
  case (Suc n)
  have "take (Suc n) (drop i mp_demo_bytes) = mp_demo_bytes ! i # take n (drop (Suc i) mp_demo_bytes)"
    using Suc.prems by (intro mp_demo_take) simp
  moreover have "kmem (kern mp_demo) (0xF0090000 + of_nat i) = mp_demo_bytes ! i"
    using Suc.prems by (intro mp_demo_at) simp
  ultimately show ?case using Suc.IH [of "Suc i"] Suc.prems by (simp add: algebra_simps)
qed simp

lemma mp_demo_sums:
  "mp_sum (kmem (kern mp_demo)) 0xF0090000 16 = 0" "mp_sum (kmem (kern mp_demo)) 0xF0090010 72 = 0"
  "mp_sum m a 0 = 0"
  using mp_sum_at [of 0 16 0] mp_sum_at [of 16 72 0] by (simp_all add: mp_sum_def mp_demo_list)

lemmas mp_demo_read = mp_demo_kmem mp_demo_mem_def mp_demo_list

lemma mp_demo_signatures:
  "signature_at (kmem (kern mp_demo)) 0xF0090000 ''_MP_''" "signature_at (kmem (kern mp_demo)) 0xF0090010 ''PCMP''"
  by (simp_all add: signature_at_def mp_demo_read codes_def of_char_def)

lemma mp_demo_fields:
  "load16 (kmem (kern mp_demo)) 0xF000040E = 0x9000"
  "mp_physaddr (kmem (kern mp_demo)) 0xF0090000 = 0x90010" "mp_type (kmem (kern mp_demo)) 0xF0090000 = 0"
  "conf_length (kmem (kern mp_demo)) 0xF0090010 = 72" "conf_version (kmem (kern mp_demo)) 0xF0090010 = 4"
  "conf_xlength (kmem (kern mp_demo)) 0xF0090010 = 0" "conf_xchecksum (kmem (kern mp_demo)) 0xF0090010 = 0"
  "conf_entry (kmem (kern mp_demo)) 0xF0090010 = 2" "conf_lapicaddr (kmem (kern mp_demo)) 0xF0090010 = 0xFEE00000"
  by (simp_all add: mp_physaddr_def mp_type_def conf_length_def conf_version_def conf_xlength_def conf_xchecksum_def
      conf_entry_def conf_lapicaddr_def load16_def load32_def mp_demo_read)

lemma mp_demo_holds:
  "i + n \<le> 88 \<Longrightarrow> holds (kmem (kern mp_demo)) (0xF0090000 + of_nat i) (take n (drop i mp_demo_bytes))"
proof (induction n arbitrary: i)
  case (Suc n)
  have "take (Suc n) (drop i mp_demo_bytes) = mp_demo_bytes ! i # take n (drop (Suc i) mp_demo_bytes)"
    using Suc.prems by (intro mp_demo_take) simp
  then show ?case using Suc.IH [of "Suc i"] Suc.prems mp_demo_at [of i] by (simp add: algebra_simps)
qed simp

lemma mp_demo_entries_hold:
  "holds (kmem (kern mp_demo)) (conf_entries 0xF0090010) (concat (map entry_bytes mp_demo_entries))"
proof -
  have "concat (map entry_bytes mp_demo_entries) = take 28 (drop 60 mp_demo_bytes)"
    by (simp add: mp_demo_bytes_def mp_demo_entries_def codes_def)
  then show ?thesis using mp_demo_holds [of 60 28] by (simp add: conf_entries_def)
qed

lemma mp_demo_KADDR: "PGNUM pa < 0x200 \<Longrightarrow> KADDR (kern mp_demo) pa = Some (pa + KERNBASE)"
  by (simp add: KADDR_def mp_demo_def)

lemma mp_demo_config: "mpconfig (mp_demo\<lparr>bootcpu := 0\<rparr>) = Some (Some (0xF0090010, 0xF0090000), mp_demo\<lparr>bootcpu := 0\<rparr>)"
proof -
  have scan: "mp_scan (kmem (kern mp_demo)) 0xF0090000 0xF0090400 = Some (Some 0xF0090000)"
    by (subst mp_scan.simps) (simp add: mp_demo_signatures mp_demo_sums)
  have "mpsearch1 (kern mp_demo) 0x90000 1024 = Some (Some 0xF0090000)"
    by (simp add: mpsearch1_def mp_demo_KADDR PGNUM_def drop_bit_eq_div scan)
  then have "mpsearch (kern mp_demo) = Some (Some 0xF0090000)"
    by (simp add: mpsearch_def mp_demo_KADDR PGNUM_def drop_bit_eq_div push_bit_eq_mult mp_demo_fields)
  then show ?thesis
    by (simp add: mpconfig_def mp_demo_fields mp_demo_signatures mp_demo_sums mp_demo_KADDR PGNUM_def drop_bit_eq_div)
qed

lemma mp_init_correct_witness:
  "\<exists>s'. mp_init 0 mp_demo = Some s' \<and> ncpu s' = 1 \<and> bootcpu s' = 0 \<and> lapicaddr s' = 0xFEE00000"
proof -
  have p: "processors mp_demo_entries = [] @ (0, 3) # []" by (simp add: mp_demo_entries_def)
  have "\<exists>s'. mp_init 0 mp_demo = Some s' \<and> ismp s' \<and> ncpu s' = min NCPU (length (processors mp_demo_entries)) \<and>
      bootcpu s' = length ([] :: (u8 \<times> u8) list) \<and> lapicaddr s' = conf_lapicaddr (kmem (kern mp_demo)) 0xF0090010 \<and>
      kern s' = (kern mp_demo)\<lparr>cpus := (cpus_found 0 (ncpu s') (cpus (kern mp_demo)))
        (length ([] :: (u8 \<times> u8) list) := (cpus (kern mp_demo) (length ([] :: (u8 \<times> u8) list)))
           \<lparr>cpu_id := of_nat (length ([] :: (u8 \<times> u8) list)), cpu_status := CPU_STARTED\<rparr>)\<rparr>"
    by (rule mp_init_correct [OF mp_demo_config _ _ _ mp_demo_entries_hold p])
      (simp_all add: mp_demo_def [THEN arg_cong, of ncpu] mp_demo_fields mp_demo_entries_def)
  then show ?thesis by (auto simp: p mp_demo_fields)
qed

end
