(* ===== verification/Lapic.thy ===== *)
theory Lapic
  imports Mpconf Trap Meminit
begin

text \<open>
  The interrupt controllers: the local APIC (\<^verbatim>\<open>kern/lapic.c\<close>), the 8259A pair (\<^verbatim>\<open>kern/picirq.c\<close>) and
  the write to the clock's memory (\<^verbatim>\<open>kern/kclock.c\<close>). A write to a device register or I/O port is
  appended to a list, which is the driver's whole effect on the device; what a register reads is
  an argument. A loop that polls a register is given the values it reads; when they are used up
  with the device still busy the loop has not ended, which is \<^term>\<open>None\<close>. Registers of the local
  APIC are named by their index into \<^verbatim>\<open>lapic[]\<close>.
\<close>

section \<open>Ports\<close>

definition outb :: "u16 \<Rightarrow> u8 \<Rightarrow> machine \<Rightarrow> machine" where
  "outb port v s = s\<lparr>port_out := port_out s @ [(port, v)]\<rparr>"

abbreviation (input) IO_RTC :: u16 where "IO_RTC \<equiv> 0x70"

definition mc146818_write :: "u32 \<Rightarrow> u32 \<Rightarrow> machine \<Rightarrow> machine" where
  "mc146818_write reg datum s = outb (IO_RTC + 1) (ucast datum) (outb IO_RTC (ucast reg) s)"

section \<open>The local APIC\<close>

abbreviation (input) LAPIC_ID :: u32 where "LAPIC_ID \<equiv> 0x20 div 4"
abbreviation (input) VER :: u32 where "VER \<equiv> 0x30 div 4"
abbreviation (input) TPR :: u32 where "TPR \<equiv> 0x80 div 4"
abbreviation (input) EOI :: u32 where "EOI \<equiv> 0xB0 div 4"
abbreviation (input) SVR :: u32 where "SVR \<equiv> 0xF0 div 4"
abbreviation (input) ENABLE :: u32 where "ENABLE \<equiv> 0x100"
abbreviation (input) ESR :: u32 where "ESR \<equiv> 0x280 div 4"
abbreviation (input) ICRLO :: u32 where "ICRLO \<equiv> 0x300 div 4"
abbreviation (input) INIT :: u32 where "INIT \<equiv> 0x500"
abbreviation (input) STARTUP :: u32 where "STARTUP \<equiv> 0x600"
abbreviation (input) DELIVS :: u32 where "DELIVS \<equiv> 0x1000"
abbreviation (input) ASSERT :: u32 where "ASSERT \<equiv> 0x4000"
abbreviation (input) LEVEL :: u32 where "LEVEL \<equiv> 0x8000"
abbreviation (input) BCAST :: u32 where "BCAST \<equiv> 0x80000"
abbreviation (input) OTHERS :: u32 where "OTHERS \<equiv> 0xC0000"
abbreviation (input) FIXED :: u32 where "FIXED \<equiv> 0"
abbreviation (input) ICRHI :: u32 where "ICRHI \<equiv> 0x310 div 4"
abbreviation (input) TIMER :: u32 where "TIMER \<equiv> 0x320 div 4"
abbreviation (input) X1 :: u32 where "X1 \<equiv> 0xB"
abbreviation (input) PERIODIC :: u32 where "PERIODIC \<equiv> 0x20000"
abbreviation (input) PCINT :: u32 where "PCINT \<equiv> 0x340 div 4"
abbreviation (input) LINT0 :: u32 where "LINT0 \<equiv> 0x350 div 4"
abbreviation (input) LINT1 :: u32 where "LINT1 \<equiv> 0x360 div 4"
abbreviation (input) ERROR :: u32 where "ERROR \<equiv> 0x370 div 4"
abbreviation (input) MASKED :: u32 where "MASKED \<equiv> 0x10000"
abbreviation (input) TICR :: u32 where "TICR \<equiv> 0x380 div 4"
abbreviation (input) TDCR :: u32 where "TDCR \<equiv> 0x3E0 div 4"

abbreviation (input) IRQ_SPURIOUS :: u32 where "IRQ_SPURIOUS \<equiv> 7"
abbreviation (input) IRQ_ERROR :: u32 where "IRQ_ERROR \<equiv> 19"

definition lapicw :: "u32 \<Rightarrow> u32 \<Rightarrow> machine \<Rightarrow> machine" where
  "lapicw index v s = s\<lparr>lapic_out := lapic_out s @ [(index, v)]\<rparr>"

text \<open>Waiting for delivery, with the values the command register reads.\<close>

fun wait_delivery :: "u32 list \<Rightarrow> machine \<Rightarrow> machine option" where
  "wait_delivery [] s = None"
| "wait_delivery (v # vs) s = (if v AND DELIVS \<noteq> 0 then wait_delivery vs s else Some s)"

definition lapic_init :: "u32 \<Rightarrow> u32 list \<Rightarrow> machine \<Rightarrow> machine option" where
  "lapic_init version icr s =
     (if lapicaddr s = 0 then Some s
      else do {
        (base, k) \<leftarrow> mmio_map_region (lapicaddr s) 4096 (kern s);
        let s = s\<lparr>kern := k, lapic := base\<rparr>;
        let s = lapicw SVR (ENABLE OR (IRQ_OFFSET + IRQ_SPURIOUS)) s;
        let s = lapicw TDCR X1 s;
        let s = lapicw TIMER (PERIODIC OR (IRQ_OFFSET + IRQ_TIMER)) s;
        let s = lapicw TICR 10000000 s;
        let s = (if cpunum_reg (kern s) \<noteq> bootcpu s then lapicw LINT0 MASKED s else s);
        let s = lapicw LINT1 MASKED s;
        let s = (if drop_bit 16 version AND 0xFF \<ge> 4 then lapicw PCINT MASKED s else s);
        let s = lapicw ERROR (IRQ_OFFSET + IRQ_ERROR) s;
        let s = lapicw ESR 0 s;
        let s = lapicw ESR 0 s;
        let s = lapicw EOI 0 s;
        let s = lapicw ICRHI 0 s;
        let s = lapicw ICRLO (BCAST OR INIT OR LEVEL) s;
        s \<leftarrow> wait_delivery icr s;
        Some (lapicw TPR 0 s)})"

text \<open>The number of the executing CPU from its APIC's identification register.\<close>

definition cpunum :: "u32 \<Rightarrow> machine \<Rightarrow> u32" where
  "cpunum ident s = (if lapic s \<noteq> 0 then drop_bit 24 ident else 0)"

definition lapic_eoi :: "machine \<Rightarrow> machine" where
  "lapic_eoi s = (if lapic s \<noteq> 0 then lapicw EOI 0 s else s)"

text \<open>The warm reset vector, two 16-bit stores at \<^verbatim>\<open>40:67\<close>; \<open>st16\<close> stores into physical memory.\<close>

definition st16 :: "u32 \<Rightarrow> u32 \<Rightarrow> kstate \<Rightarrow> kstate" where
  "st16 kva v k = k\<lparr>phys := st8 (kva - KERNBASE + 1) (ucast (drop_bit 8 v)) (st8 (kva - KERNBASE) (ucast v) (phys k))\<rparr>"

definition lapic_startap :: "u8 \<Rightarrow> u32 \<Rightarrow> machine \<Rightarrow> machine option" where
  "lapic_startap apicid addr s = do {
     let s = outb (IO_RTC + 1) 0x0A (outb IO_RTC 0xF s);
     wrv \<leftarrow> KADDR (kern s) (push_bit 4 0x40 OR 0x67);
     let s = s\<lparr>kern := st16 (wrv + 2) (drop_bit 4 addr) (st16 wrv 0 (kern s))\<rparr>;
     let s = lapicw ICRHI (push_bit 24 (ucast apicid)) s;
     let s = lapicw ICRLO (INIT OR LEVEL OR ASSERT) s;
     let s = lapicw ICRLO (INIT OR LEVEL) s;
     let startup = (\<lambda>s. lapicw ICRLO (STARTUP OR drop_bit 12 addr) (lapicw ICRHI (push_bit 24 (ucast apicid)) s));
     Some ((startup ^^ 2) s)}"

definition lapic_ipi :: "u32 \<Rightarrow> u32 list \<Rightarrow> machine \<Rightarrow> machine option" where
  "lapic_ipi vector icr s = wait_delivery icr (lapicw ICRLO (OTHERS OR FIXED OR vector) s)"

section \<open>The 8259A controllers\<close>

abbreviation (input) IO_PIC1 :: u16 where "IO_PIC1 \<equiv> 0x20"
abbreviation (input) IO_PIC2 :: u16 where "IO_PIC2 \<equiv> 0xA0"
abbreviation (input) IRQ_SLAVE :: nat where "IRQ_SLAVE \<equiv> 2"

definition irq_setmask_8259A :: "u16 \<Rightarrow> machine \<Rightarrow> machine" where
  "irq_setmask_8259A msk s =
     (let s = s\<lparr>irq_mask_8259A := msk\<rparr> in
      if \<not> didinit s then s
      else
        let s = outb (IO_PIC2 + 1) (ucast (drop_bit 8 msk)) (outb (IO_PIC1 + 1) (ucast msk) s);
            s = mp_print ''enabled interrupts:'' [] s;
            s = fold (\<lambda>i. if NOT msk AND push_bit i 1 \<noteq> 0 then mp_print '' %d'' [of_nat i] else id) [0..<16] s
        in mp_print [CHR 0x0A] [] s)"

definition pic_init :: "machine \<Rightarrow> machine" where
  "pic_init s =
     (let s = fold (\<lambda>(port, v). outb port v)
        [(IO_PIC1 + 1, 0xFF), (IO_PIC2 + 1, 0xFF),
         (IO_PIC1, 0x11), (IO_PIC1 + 1, ucast IRQ_OFFSET), (IO_PIC1 + 1, push_bit IRQ_SLAVE 1), (IO_PIC1 + 1, 0x3),
         (IO_PIC2, 0x11), (IO_PIC2 + 1, ucast (IRQ_OFFSET + 8)), (IO_PIC2 + 1, of_nat IRQ_SLAVE), (IO_PIC2 + 1, 0x01),
         (IO_PIC1, 0x68), (IO_PIC1, 0x0A), (IO_PIC2, 0x68), (IO_PIC2, 0x0A)] (s\<lparr>didinit := True\<rparr>)
      in if irq_mask_8259A s \<noteq> 0xFFFF then irq_setmask_8259A (irq_mask_8259A s) s else s)"

section \<open>Interrupt mask\<close>

text \<open>Once the controllers are set up, the mask registers are written last, with exactly the mask.\<close>

lemma irq_setmask_out:
  "didinit s \<Longrightarrow> port_out (irq_setmask_8259A msk s) =
     port_out s @ [(IO_PIC1 + 1, ucast msk), (IO_PIC2 + 1, ucast (drop_bit 8 msk))]"
proof -
  have p: "port_out (fold (\<lambda>i. if P i then mp_print '' %d'' [of_nat i] else id) xs s) = port_out s" for P xs and s :: machine
    by (induction xs arbitrary: s) (simp_all add: mp_print_def)
  show "didinit s \<Longrightarrow> ?thesis" by (simp add: irq_setmask_8259A_def outb_def mp_print_def Let_def p)
qed

lemma pic_init_mask:
  assumes "irq_mask_8259A s \<noteq> 0xFFFF"
  shows "\<exists>before. port_out (pic_init s) = port_out s @ before @
    [(IO_PIC1 + 1, ucast (irq_mask_8259A s)), (IO_PIC2 + 1, ucast (drop_bit 8 (irq_mask_8259A s)))]"
  using assms by (simp add: pic_init_def Let_def irq_setmask_out outb_def)

end
