(* ===== verification/Init.thy ===== *)
theory Init
  imports Lapic
begin

text \<open>
  Start-up of the kernel, \<^verbatim>\<open>kern/init.c\<close>: the initialisation of the boot processor, the start of
  the others, and the hand-over to the scheduler. What the hardware, the firmware and the linker
  supply is the record \<open>hw\<close>. A processor that is being started runs \<^verbatim>\<open>mp_main\<close> up to the store that
  \<^verbatim>\<open>boot_aps\<close> waits for; until the boot processor releases the lock it can do no more than spin, so
  that part runs as one step of \<^verbatim>\<open>boot_aps\<close>. Loading segment registers has no modelled effect.
\<close>

record hw =
  hw_cga :: "bool \<times> u8 \<times> u8"
  hw_lsr :: u8
  hw_cmos :: "u32 \<Rightarrow> u8"
  hw_kend :: u32
  hw_bootstack :: u32
  hw_kstack :: "nat \<Rightarrow> u32"
  hw_entry :: "nat \<Rightarrow> u32"
  hw_ts_addr :: "nat \<Rightarrow> u32"
  hw_imcr :: u8
  hw_lapic_version :: u32
  hw_icr :: "u32 list"
  hw_mpentry_start :: u32
  hw_mpentry_end :: u32
  hw_user_yield :: u32

definition upd_kern :: "(kstate \<Rightarrow> kstate option) \<Rightarrow> machine \<Rightarrow> machine option" where
  "upd_kern f s = do { k \<leftarrow> f (kern s); Some (s\<lparr>kern := k\<rparr>) }"

section \<open>The other processors\<close>

text \<open>What processor \<open>i\<close> does before it asks for the lock, up to \<^verbatim>\<open>xchg(&thiscpu->cpu_status, ...)\<close>.\<close>

definition mp_main_setup :: "hw \<Rightarrow> nat \<Rightarrow> machine \<Rightarrow> machine option" where
  "mp_main_setup h i s = do {
     let s = s\<lparr>kern := (kern s)\<lparr>cpunum_reg := i\<rparr>\<rparr>;
     s \<leftarrow> upd_kern (\<lambda>k. do { cr \<leftarrow> PADDR (kern_pgdir k); Some (lcr3 cr k) }) s;
     let s = mp_print (''SMP: CPU %d starting'' @ [CHR 0x0A]) [of_nat i] s;
     s \<leftarrow> lapic_init (hw_lapic_version h) (hw_icr h) s;
     upd_kern (\<lambda>k. Some (cpu_set_status CPU_STARTED (trap_init_percpu (hw_ts_addr h) k))) s}"

text \<open>And what it does once the lock is free.\<close>

definition mp_main_run :: "kstate \<Rightarrow> unit kout option" where
  "mp_main_run k = kbind (lock_kernel k) (\<lambda>_ k. sched_yield k)"

definition boot_ap :: "hw \<Rightarrow> u32 \<Rightarrow> nat \<Rightarrow> machine \<Rightarrow> machine option" where
  "boot_ap h code c s =
     (let self = cpunum_reg (kern s) in
      if c = self then Some s
      else do {
        let s = s\<lparr>mpentry_kstack := hw_kstack h c + KSTKSIZE\<rparr>;
        pa \<leftarrow> PADDR code;
        s \<leftarrow> lapic_startap (cpu_id (cpus (kern s) c)) pa s;
        s \<leftarrow> mp_main_setup h c s;
        Some (s\<lparr>kern := (kern s)\<lparr>cpunum_reg := self\<rparr>\<rparr>)})"

definition boot_aps :: "hw \<Rightarrow> machine \<Rightarrow> machine option" where
  "boot_aps h s = do {
     code \<leftarrow> KADDR (kern s) MPENTRY_PADDR;
     s \<leftarrow> upd_kern (memmove code (hw_mpentry_start h) (hw_mpentry_end h - hw_mpentry_start h)) s;
     foldM (boot_ap h code) [0..<ncpu s] s}"

section \<open>The boot processor\<close>

definition i386_init :: "hw \<Rightarrow> machine \<Rightarrow> unit kout option" where
  "i386_init h s = do {
     s \<leftarrow> upd_kern (\<lambda>k. do {
       con \<leftarrow> (case hw_cga h of (present, hi, lo) \<Rightarrow> cons_init present hi lo (hw_lsr h) (cons k));
       Some (k\<lparr>cons := con\<rparr>)}) s;
     let s = mp_print (''6828 decimal is %o octal!'' @ [CHR 0x0A]) [6828] s;
     s \<leftarrow> upd_kern (mem_init (hw_cmos h) (hw_kend h) (hw_bootstack h) (hw_kstack h)) s;
     s \<leftarrow> upd_kern (\<lambda>k. Some (trap_init (hw_entry h) (hw_ts_addr h) (env_init k))) s;
     s \<leftarrow> mp_init (hw_imcr h) s;
     s \<leftarrow> lapic_init (hw_lapic_version h) (hw_icr h) s;
     let s = pic_init s;
     kbind (lock_kernel (kern s)) (\<lambda>_ k. do {
       s \<leftarrow> boot_aps h (s\<lparr>kern := k\<rparr>);
       k \<leftarrow> foldM (\<lambda>_. env_create (hw_user_yield h) ENV_TYPE_USER) [0..<3] (kern s);
       sched_yield k})}"

end
