(* ===== verification/Monitor.thy ===== *)
theory Monitor
  imports Printfmt Trap Kdebug
begin

text \<open>
  The kernel monitor (\<^verbatim>\<open>kern/monitor.c\<close>), the line editor it reads commands with
  (\<^verbatim>\<open>lib/readline.c\<close>), and two walks along the chain of saved frame pointers. The line buffer, in
  which the interpreter then finds the command, is part of memory; output goes to the console through \<^verbatim>\<open>cprintf\<close>, for which
  a string argument that is a literal is printed character by character. The value of \<^verbatim>\<open>ebp\<close> on
  entry and the linker's symbols are arguments.
\<close>

section \<open>Line input\<close>

abbreviation (input) BUFLEN :: nat where "BUFLEN \<equiv> 1024"

definition cprintf :: "string \<Rightarrow> u32 list \<Rightarrow> console \<Rightarrow> console option" where
  "cprintf fmt args con = do { (_, con) \<leftarrow> kern_vcprintf (lit (codes fmt)) 0 args con; Some con }"

definition echo :: "bool \<Rightarrow> u32 \<Rightarrow> console \<Rightarrow> console" where
  "echo echoing c con = (if echoing then cputchar c con else con)"

text \<open>
  \<open>i\<close> characters of the line are in the buffer, which starts at \<open>buf\<close>. The result says whether a
  line was read.
\<close>

partial_function (option) readline_loop ::
    "bool \<Rightarrow> nat \<Rightarrow> u32 \<Rightarrow> bmem \<Rightarrow> (console \<Rightarrow> console) list \<Rightarrow> console \<Rightarrow>
     (bool \<times> bmem \<times> (console \<Rightarrow> console) list \<times> console) option" where
  "readline_loop echoing i buf m arrivals con = do {
     (c, arrivals, con) \<leftarrow> getchar arrivals con;
     if sint c < 0 then do {
       con \<leftarrow> cprintf (''read error: %e'' @ [CHR 0x0A]) [c] con;
       Some (False, m, arrivals, con)}
     else if (c = 0x08 \<or> c = 0x7F) \<and> i > 0
     then readline_loop echoing (i - 1) buf m arrivals (echo echoing 0x08 con)
     else if sint c \<ge> 0x20 \<and> i < BUFLEN - 1
     then readline_loop echoing (i + 1) buf (m(buf + of_nat i := ucast c)) arrivals (echo echoing c con)
     else if c = 0x0A \<or> c = 0x0D
     then Some (True, m(buf + of_nat i := 0), arrivals, echo echoing 0x0A con)
     else readline_loop echoing i buf m arrivals con}"

definition readline ::
    "string option \<Rightarrow> u32 \<Rightarrow> bmem \<Rightarrow> (console \<Rightarrow> console) list \<Rightarrow> console \<Rightarrow>
     (bool \<times> bmem \<times> (console \<Rightarrow> console) list \<times> console) option" where
  "readline prompt buf m arrivals con =
     readline_loop (iscons 0 \<noteq> 0) 0 buf m arrivals
       (case prompt of None \<Rightarrow> con | Some p \<Rightarrow> cprintf_lit (codes p) con)"

section \<open>Commands\<close>

datatype command = Help | Kerninfo

text \<open>Name, description and function of every command.\<close>

definition commands :: "(string \<times> string \<times> command) list" where
  "commands = [(''help'', ''Display this list of commands'', Help),
     (''kerninfo'', ''Display information about the kernel'', Kerninfo)]"

definition mon_help :: "console \<Rightarrow> console" where
  "mon_help = fold (\<lambda>(name, desc, _). cprintf_lit (codes name @ codes '' - '' @ codes desc @ [0x0A])) commands"

record ksyms =
  sym_start :: u32
  sym_entry :: u32
  sym_etext :: u32
  sym_edata :: u32
  sym_end :: u32

definition mon_kerninfo :: "ksyms \<Rightarrow> console \<Rightarrow> console option" where
  "mon_kerninfo ks con = do {
     con \<leftarrow> cprintf (''Special kernel symbols:'' @ [CHR 0x0A]) [] con;
     con \<leftarrow> cprintf (''  _start                  %08x (phys)'' @ [CHR 0x0A]) [sym_start ks] con;
     con \<leftarrow> cprintf (''  entry  %08x (virt)  %08x (phys)'' @ [CHR 0x0A]) [sym_entry ks, sym_entry ks - KERNBASE] con;
     con \<leftarrow> cprintf (''  etext  %08x (virt)  %08x (phys)'' @ [CHR 0x0A]) [sym_etext ks, sym_etext ks - KERNBASE] con;
     con \<leftarrow> cprintf (''  edata  %08x (virt)  %08x (phys)'' @ [CHR 0x0A]) [sym_edata ks, sym_edata ks - KERNBASE] con;
     con \<leftarrow> cprintf (''  end    %08x (virt)  %08x (phys)'' @ [CHR 0x0A]) [sym_end ks, sym_end ks - KERNBASE] con;
     cprintf (''Kernel executable memory footprint: %dKB'' @ [CHR 0x0A])
       [ROUNDUP (sym_end ks - sym_entry ks) 1024 div 1024] con}"

section \<open>Call stacks\<close>

partial_function (option) mon_backtrace :: "bmem \<Rightarrow> u32 \<Rightarrow> console \<Rightarrow> console option" where
  "mon_backtrace m ebp con =
     (if ebp \<noteq> 0 then do {
        con \<leftarrow> cprintf (''ebp %x eip %x args %08x %08x %08x %08x %08x'' @ [CHR 0x0A])
          (ebp # map (\<lambda>k. load32 m (ebp + 4 * of_nat k)) [1..<7]) con;
        mon_backtrace m (load32 m ebp) con}
      else Some con)"

text \<open>The return addresses of at most \<open>n\<close> frames; the array is filled up with zeros.\<close>

primrec caller_pcs :: "nat \<Rightarrow> bmem \<Rightarrow> u32 \<Rightarrow> u32 list" where
  "caller_pcs 0 m ebp = []"
| "caller_pcs (Suc n) m ebp =
     (if ebp = 0 \<or> ebp < ULIM then [] else load32 m (ebp + 4) # caller_pcs n m (load32 m ebp))"

definition get_caller_pcs :: "bmem \<Rightarrow> u32 \<Rightarrow> u32 list" where
  "get_caller_pcs m ebp = (let pcs = caller_pcs 10 m ebp in pcs @ replicate (10 - length pcs) 0)"

section \<open>Command interpreter\<close>

abbreviation (input) MAXARGS :: nat where "MAXARGS \<equiv> 16"

definition is_white :: "u8 \<Rightarrow> bool" where
  "is_white c \<longleftrightarrow> c \<in> {0x09, 0x0D, 0x0A, 0x20}"

partial_function (option) gobble :: "u32 \<Rightarrow> bmem \<Rightarrow> (u32 \<times> bmem) option" where
  "gobble p m = (if m p \<noteq> 0 \<and> is_white (m p) then gobble (p + 1) (m(p := 0)) else Some (p, m))"

partial_function (option) scan_arg :: "bmem \<Rightarrow> u32 \<Rightarrow> u32 option" where
  "scan_arg m p = (if m p \<noteq> 0 \<and> \<not> is_white (m p) then scan_arg m (p + 1) else Some p)"

text \<open>The arguments found so far; the result is \<^term>\<open>None\<close> inside when there are too many.\<close>

partial_function (option) parse_args :: "u32 \<Rightarrow> bmem \<Rightarrow> u32 list \<Rightarrow> (u32 list option \<times> bmem) option" where
  "parse_args p m argv = do {
     (p, m) \<leftarrow> gobble p m;
     if m p = 0 then Some (Some argv, m)
     else if length argv = MAXARGS - 1 then Some (None, m)
     else do {
       let argv = argv @ [p];
       p \<leftarrow> scan_arg m p;
       parse_args p m argv}}"

definition lookup_command :: "bmem \<Rightarrow> u32 \<Rightarrow> command option" where
  "lookup_command m p =
     map_option (\<lambda>(_, _, f). f) (find (\<lambda>(name, _, _). holds m p (codes name @ [0])) commands)"

definition run_command :: "ksyms \<Rightarrow> command \<Rightarrow> console \<Rightarrow> (u32 \<times> console) option" where
  "run_command ks f con =
     (case f of
        Help \<Rightarrow> Some (0, mon_help con)
      | Kerninfo \<Rightarrow> do { con \<leftarrow> mon_kerninfo ks con; Some (0, con) })"

definition runcmd :: "ksyms \<Rightarrow> u32 \<Rightarrow> bmem \<Rightarrow> console \<Rightarrow> (u32 \<times> bmem \<times> console) option" where
  "runcmd ks p m con = do {
     (argv, m) \<leftarrow> parse_args p m [];
     case argv of
       None \<Rightarrow> do {
         con \<leftarrow> cprintf (''Too many arguments (max %d)'' @ [CHR 0x0A]) [of_nat MAXARGS] con;
         Some (0, m, con)}
     | Some [] \<Rightarrow> Some (0, m, con)
     | Some (a # argv) \<Rightarrow>
         (case lookup_command m a of
            Some f \<Rightarrow> do { (r, con) \<leftarrow> run_command ks f con; Some (r, m, con) }
          | None \<Rightarrow> do {
              (_, con, n) \<leftarrow> put_str kern_putch (\<lambda>_. m) False a (- 1) (- 1)
                (cprintf_lit (codes ''Unknown command '' @ [0x27]) con, 0);
              Some (0, m, cprintf_lit [0x27, 0x0A] con)})}"

text \<open>One round of the monitor's loop. The first component says whether the loop goes on.\<close>

definition monitor_round ::
    "ksyms \<Rightarrow> u32 \<Rightarrow> bmem \<Rightarrow> (console \<Rightarrow> console) list \<Rightarrow> console \<Rightarrow>
     (bool \<times> bmem \<times> (console \<Rightarrow> console) list \<times> console) option" where
  "monitor_round ks buf m arrivals con = do {
     (line, m, arrivals, con) \<leftarrow> readline (Some ''K> '') buf m arrivals con;
     if line then do {
       (r, m, con) \<leftarrow> runcmd ks buf m con;
       Some (\<not> sint r < 0, m, arrivals, con)}
     else Some (True, m, arrivals, con)}"

text \<open>The monitor, from a trap or from a panic; the trap frame's printing is left out.\<close>

partial_function (option) monitor_loop ::
    "ksyms \<Rightarrow> u32 \<Rightarrow> bmem \<Rightarrow> (console \<Rightarrow> console) list \<Rightarrow> console \<Rightarrow> (bmem \<times> console) option" where
  "monitor_loop ks buf m arrivals con = do {
     (go_on, m, arrivals, con) \<leftarrow> monitor_round ks buf m arrivals con;
     if go_on then monitor_loop ks buf m arrivals con else Some (m, con)}"

definition monitor :: "ksyms \<Rightarrow> u32 \<Rightarrow> bmem \<Rightarrow> (console \<Rightarrow> console) list \<Rightarrow> console \<Rightarrow> (bmem \<times> console) option" where
  "monitor ks buf m arrivals con =
     monitor_loop ks buf m arrivals
       (cprintf_lit (codes ''Type 'help' for a list of commands.'' @ [0x0A])
         (cprintf_lit (codes ''Welcome to the JOS kernel monitor!'' @ [0x0A]) con))"

end
