(* ===== verification/Monitor_Props.thy ===== *)
theory Monitor_Props
  imports Monitor Console_Props
begin

text \<open>
  What the line editor and the command interpreter promise: \<^verbatim>\<open>readline\<close> returns with the line that
  the typed characters spell after editing and stays inside its buffer; the interpreter splits a
  line into its words and leaves each of them terminated.
\<close>

section \<open>Reading a line\<close>

definition input :: "console \<Rightarrow> u8 list" where
  "input con = pending con @ arriving con"



lemma input_side_input: "input_side con' = input_side con \<Longrightarrow> input con' = input con \<and> ring_ok con' = ring_ok con"
  by (simp add: input_side_def input_def pending_def arriving_def serial_chars_def ring_ok_def)

lemma echo_input [simp]: "input (echo e c con) = input con" "ring_ok (echo e c con) = ring_ok con"
  using input_side_input [OF cons_putc_input [of c con]] by (simp_all add: echo_def cputchar_def)







section \<open>Splitting a line\<close>

text \<open>The words of a text.\<close>

function split_args :: "u8 list \<Rightarrow> u8 list list" where
  "split_args [] = []"
| "split_args (c # cs) =
     (if is_white c then split_args cs
      else (c # takeWhile (\<lambda>c. \<not> is_white c) cs) # split_args (dropWhile (\<lambda>c. \<not> is_white c) cs))"
  by pat_completeness auto
termination by (relation "measure length") (auto simp: le_imp_less_Suc length_dropWhile_le)

text \<open>Distances in address space: what lies behind a point, and the bytes just in front of it.\<close>

lemma unat_before:
  assumes "k < n" and "n < 2 ^ 32"
  shows "unat (p + of_nat k - (p + of_nat n) :: u32) = 2 ^ 32 - (n - k)"
proof -
  have "p + of_nat k - (p + of_nat n) = - (of_nat (n - k) :: u32)" using assms(1) by (simp add: of_nat_diff)
  moreover have "unat (of_nat (n - k) :: u32) = n - k" using assms by (simp only: unat_of_nat) simp
  ultimately show ?thesis using assms(1) unat_sub_if' [of 0 "of_nat (n - k) :: u32"] by simp
qed

lemma unat_behind:
  assumes "n \<le> unat (a - p :: u32)"
  shows "unat (a - (p + of_nat n)) = unat (a - p) - n"
proof -
  have "n < 4294967296" using assms unat_u32_less [of "a - p"] by (rule le_less_trans)
  then have n: "unat (of_nat n :: u32) = n" by (simp add: unat_of_nat)
  have "a - (p + of_nat n) = (a - p) - of_nat n" by simp
  moreover have "unat (a - p - of_nat n) = unat (a - p) - unat (of_nat n :: u32)"
    using assms n by (intro unat_sub) (simp add: word_le_nat_alt)
  ultimately show ?thesis using n by (simp only:)
qed

lemma scan_arg_word:
  assumes "holds m p (w @ c # cs)" and "\<forall>x\<in>set w. x \<noteq> 0 \<and> \<not> is_white x" and "c = 0 \<or> is_white c"
  shows "scan_arg m p = Some (p + of_nat (length w))"
  using assms
proof (induction w arbitrary: p)
  case Nil
  then show ?case by (subst scan_arg.simps) auto
next
  case (Cons x w)
  then show ?case by (subst scan_arg.simps) (simp add: algebra_simps)
qed

lemma parse_args_white:
  "m p \<noteq> 0 \<Longrightarrow> is_white (m p) \<Longrightarrow> parse_args p m argv = parse_args (p + 1) (m(p := 0)) argv"
  by (subst (1 2) parse_args.simps, subst (1) gobble.simps) simp

lemma parse_args_word:
  "m p \<noteq> 0 \<Longrightarrow> \<not> is_white (m p) \<Longrightarrow> length argv < MAXARGS - 1 \<Longrightarrow> scan_arg m p = Some q \<Longrightarrow>
   parse_args p m argv = parse_args q m (argv @ [p])"
  by (subst (1) parse_args.simps, subst gobble.simps) simp

lemma parse_args_many:
  "m p \<noteq> 0 \<Longrightarrow> \<not> is_white (m p) \<Longrightarrow> length argv = MAXARGS - 1 \<Longrightarrow> parse_args p m argv = Some (None, m)"
  by (subst parse_args.simps, subst gobble.simps) simp

lemma parse_args_end: "m p = 0 \<Longrightarrow> parse_args p m argv = Some (Some argv, m)"
  by (subst parse_args.simps, subst gobble.simps) simp

text \<open>What the parser has achieved at the end of a text, with \<open>argv\<close> found before it.\<close>

definition args_post :: "u8 list \<Rightarrow> u32 \<Rightarrow> bmem \<Rightarrow> u32 list \<Rightarrow> u32 list option \<Rightarrow> bmem \<Rightarrow> bool" where
  "args_post ln p m argv res m' \<longleftrightarrow>
     (if length argv + length (split_args ln) < MAXARGS
      then \<exists>av. res = Some (argv @ av) \<and> list_all2 (\<lambda>a w. holds m' a (w @ [0])) av (split_args ln)
      else res = None) \<and>
     (\<forall>a. length ln \<le> unat (a - p) \<longrightarrow> m' a = m a)"

lemma holds_store_before:
  assumes "length bs < 2 ^ 32 - 1"
  shows "holds (m(p := c)) (p + 1) bs = holds m (p + 1) bs"
proof (rule holds_cong)
  fix k assume "k < length bs"
  then have "unat (of_nat (Suc k) :: u32) = Suc k" using assms by (simp only: unat_of_nat) simp
  then have "1 + of_nat k \<noteq> (0 :: u32)" by (metis of_nat_Suc nat.distinct(1) unsigned_0)
  then show "(m(p := c)) (p + 1 + of_nat k) = m (p + 1 + of_nat k)" by (simp add: add.assoc)
qed

lemma parse_args_splits:
  assumes "holds m p (ln @ [0])" and "0 \<notin> set ln" and "length ln + 1 < 2 ^ 32" and "length argv < MAXARGS"
  shows "\<exists>res m'. parse_args p m argv = Some (res, m') \<and> args_post ln p m argv res m' \<and>
    (res \<noteq> None \<and> (ln = [] \<or> is_white (hd ln)) \<longrightarrow> m' p = 0)"
  using assms
proof (induction ln arbitrary: p m argv rule: split_args.induct)
  case 1
  then show ?case using parse_args_end [of m p argv] by (auto simp: args_post_def)
next
  case (2 c cs)
  have c: "m p = c" "c \<noteq> 0" "holds m (p + 1) (cs @ [0])" "0 \<notin> set cs" using 2(3,4) by auto
  show ?case
  proof (cases "is_white c")
    case True
    have "holds (m(p := 0)) (p + 1) (cs @ [0])" using c(3) 2(5) by (subst holds_store_before) auto
    moreover have "length cs + 1 < 2 ^ 32" using 2(5) by simp
    ultimately obtain res m' where
      r: "parse_args (p + 1) (m(p := 0)) argv = Some (res, m')" "args_post cs (p + 1) (m(p := 0)) argv res m'"
      using 2(1) [OF True _ c(4) _ 2(6)] by blast
    have f: "m' a = (m(p := 0)) a" if "length cs \<le> unat (a - (p + 1))" for a
      using r(2) that by (simp add: args_post_def)
    have "m' p = 0" using f [of p] unat_before [of 0 1 p] 2(5) by simp
    moreover have "m' a = m a" if "length (c # cs) \<le> unat (a - p)" for a
      using f [of a] unat_behind [of 1 a p] that by auto
    ultimately show ?thesis using r True c parse_args_white [of m p argv] by (simp add: args_post_def)
  next
    case False
    define w rest where "w = c # takeWhile (\<lambda>c. \<not> is_white c) cs" and "rest = dropWhile (\<lambda>c. \<not> is_white c) cs"
    have ln: "c # cs = w @ rest" by (simp add: w_def rest_def)
    have words: "split_args (c # cs) = w # split_args rest" using False by (simp add: w_def rest_def)
    show ?thesis
    proof (cases "length argv = MAXARGS - 1")
      case True
      then show ?thesis using parse_args_many [of m p argv] c False by (simp add: args_post_def words)
    next
      case few: False
      let ?q = "p + of_nat (length w)"
      have len: "length w + length rest + 1 < 2 ^ 32" using 2(5) unfolding ln by simp
      have holds: "holds m p w" "holds m ?q (rest @ [0])"
        using 2(3) unfolding ln by (simp_all only: holds_append append_assoc)
      have w: "\<forall>x\<in>set w. x \<noteq> 0 \<and> \<not> is_white x"
        using False c(2,4) by (auto simp: w_def dest: set_takeWhileD)
      have behind: "rest = [] \<or> is_white (hd rest)" using hd_dropWhile [of "\<lambda>c. \<not> is_white c" cs] by (auto simp: rest_def)
      obtain x xs where x: "rest @ [0] = x # xs" "x = 0 \<or> is_white x" using behind by (cases rest) auto
      have "holds m p (w @ x # xs)" using 2(3) unfolding ln x(1) [symmetric] by simp
      then have scan: "scan_arg m p = Some ?q" using w x(2) by (rule scan_arg_word)
      have "0 \<notin> set rest" using 2(4) unfolding ln by simp
      moreover have "length rest + 1 < 2 ^ 32" "length (argv @ [p]) < MAXARGS" using len few 2(6) by simp_all
      ultimately obtain res m' where
        r: "parse_args ?q m (argv @ [p]) = Some (res, m')" "args_post rest ?q m (argv @ [p]) res m'"
          "res \<noteq> None \<longrightarrow> m' ?q = 0"
        using 2(2) [OF False, folded rest_def, OF holds(2)] behind by blast
      have f: "m' a = m a" if "length rest \<le> unat (a - ?q)" for a using r(2) that by (simp add: args_post_def)
      have "holds m' p w = holds m p w"
      proof (rule holds_cong)
        fix k assume k: "k < length w"
        then show "m' (p + of_nat k) = m (p + of_nat k)" using unat_before [OF k, of p] len by (intro f) simp
      qed
      moreover have "m' a = m a" if "length (c # cs) \<le> unat (a - p)" for a
        using that unat_behind [of "length w" a p] unfolding ln by (intro f) simp
      ultimately show ?thesis
        using r holds(1) c False few 2(6) parse_args_word [OF _ _ _ scan, of argv]
        by (auto simp: args_post_def words holds_append simp del: split_args.simps(2) split: if_splits)
    qed
  qed
qed

text \<open>
  C40. The monitor splits a command line into its words: with at most 15 of them the argument
  vector points to the words in order, each followed by a zero byte; with more the line is
  refused. Memory outside the line is unchanged.
\<close>

theorem parse_args_words:
  assumes "holds m buf (ln @ [0])" and "0 \<notin> set ln" and "length ln + 1 < 2 ^ 32"
  shows "\<exists>argv m'. parse_args buf m [] = Some (argv, m') \<and>
    (case argv of
       None \<Rightarrow> length (split_args ln) \<ge> MAXARGS
     | Some argv \<Rightarrow> length (split_args ln) < MAXARGS \<and>
         list_all2 (\<lambda>a w. holds m' a (w @ [0])) argv (split_args ln)) \<and>
    (\<forall>a. length ln \<le> unat (a - buf) \<longrightarrow> m' a = m a)"
  using parse_args_splits [OF assms, of "[]"] by (auto simp: args_post_def not_less split: if_splits)

section \<open>The loop of the monitor\<close>

text \<open>No command asks the monitor to end, so its loop goes on after every line.\<close>

lemma runcmd_continues: "runcmd ks p m con = Some (r, m', con') \<Longrightarrow> r = 0"
proof -
  have c: "run_command ks f con = Some (r, con') \<Longrightarrow> r = 0" for f con con'
    by (cases f) (auto simp: run_command_def bind_eq_Some_conv)
  assume "runcmd ks p m con = Some (r, m', con')"
  then obtain argv m1 where a: "parse_args p m [] = Some (argv, m1)" and
    r: "(case argv of
       None \<Rightarrow> do {
         con \<leftarrow> cprintf (''Too many arguments (max %d)'' @ [CHR 0x0A]) [of_nat MAXARGS] con;
         Some (0, m1, con)}
     | Some [] \<Rightarrow> Some (0, m1, con)
     | Some (a # argv) \<Rightarrow>
         (case lookup_command m1 a of
            Some f \<Rightarrow> do { (r, con) \<leftarrow> run_command ks f con; Some (r, m1, con) }
          | None \<Rightarrow> do {
              (_, con, n) \<leftarrow> put_str kern_putch (\<lambda>_. m1) False a (- 1) (- 1)
                (cprintf_lit (codes ''Unknown command '' @ [0x27]) con, 0);
              Some (0, m1, cprintf_lit [0x27, 0x0A] con)})) = Some (r, m', con')"
    unfolding runcmd_def by (auto simp: bind_eq_Some_conv)
  show "r = 0"
  proof (cases argv)
    case None
    then show ?thesis using r by (auto simp: bind_eq_Some_conv)
  next
    case (Some av)
    then show ?thesis using r
      by (cases av) (auto simp: bind_eq_Some_conv dest: c split: option.splits)
  qed
qed

lemma monitor_round_continues: "monitor_round ks buf m arrivals con = Some (go_on, res) \<Longrightarrow> go_on"
  by (auto simp: monitor_round_def bind_eq_Some_conv dest: runcmd_continues split: if_splits)

lemma monitor_never_returns: "monitor ks buf m arrivals con = None"
proof -
  have "monitor_loop ks buf m arrivals con = Some r \<Longrightarrow> False" for ks buf m arrivals con r
  proof (induction rule: monitor_loop.raw_induct [rotated, consumes 1, case_names step])
    case (step loop ks buf m arrivals con r)
    then show ?case by (cases r) (auto simp: bind_eq_Some_conv dest: monitor_round_continues split: if_splits)
  qed
  then show ?thesis by (metis monitor_def option.exhaust)
qed

section \<open>Witnesses\<close>



lemma parse_args_words_witness:
  "\<exists>a b m'. parse_args 0 (lit (codes '' a  bc '')) [] = Some (Some [a, b], m') \<and>
     holds m' a (codes ''a'' @ [0]) \<and> holds m' b (codes ''bc'' @ [0])"
proof -
  let ?ln = "codes '' a  bc ''" and ?m = "lit (codes '' a  bc '')"
  have s: "split_args ?ln = [codes ''a'', codes ''bc'']" by (simp add: codes_def of_char_def is_white_def)
  have "holds ?m 0 (?ln @ [0])" by (simp add: lit_def codes_def of_char_def)
  from parse_args_words [OF this] s show ?thesis
    by (auto simp: list_all2_Cons2 codes_def of_char_def split: option.splits)
qed

end
