(* ===== verification/Fork_Props.thy ===== *)
theory Fork_Props
  imports Cow_Demo
begin

text \<open>
  Copying an address space: what \<^verbatim>\<open>duppage\<close> makes of one page, the loop of \<^verbatim>\<open>fork\<close> over all of them,
  and \<^verbatim>\<open>fork\<close> as a whole.
\<close>

section \<open>One page\<close>

text \<open>The entries of the child and of the parent that stand for an entry \<open>w\<close> of the parent.\<close>

definition user_page :: "u32 \<Rightarrow> bool" where
  "user_page w \<longleftrightarrow> w AND PTE_P \<noteq> 0 \<and> w AND PTE_U \<noteq> 0"

definition private_page :: "u32 \<Rightarrow> bool" where
  "private_page w \<longleftrightarrow> w AND PTE_SHARE = 0 \<and> (w AND PTE_W \<noteq> 0 \<or> w AND PTE_COW \<noteq> 0)"

definition cow_entry :: "u32 \<Rightarrow> u32" where
  "cow_entry w = PTE_ADDR w OR PTE_COW OR PTE_U OR PTE_P"

definition child_entry :: "u32 \<Rightarrow> u32" where
  "child_entry w =
     (if \<not> user_page w then 0
      else if private_page w then cow_entry w
      else if w AND PTE_SHARE = 0 then PTE_ADDR w OR PTE_U OR PTE_P
      else if w AND PTE_W \<noteq> 0 then PTE_ADDR w OR PTE_SYSCALL else 0)"

definition parent_entry :: "u32 \<Rightarrow> u32" where
  "parent_entry w = (if user_page w \<and> private_page w then cow_entry w else w)"

text \<open>
  From \<open>s\<close> to \<open>s'\<close> the entries for the page at \<open>a\<close> became \<open>wc\<close> in the child \<open>e\<close> and \<open>wp\<close> in the parent \<open>c\<close>,
  with at most \<open>k\<close> new references to it; the child may have got a page table for it. The parent reads
  the same bytes as before.
\<close>

definition forked :: "nat \<Rightarrow> nat \<Rightarrow> u32 \<Rightarrow> nat \<Rightarrow> u32 \<Rightarrow> u32 \<Rightarrow> kstate \<Rightarrow> kstate \<Rightarrow> bool" where
  "forked c e a k wc wp s s' \<longleftrightarrow>
     kinv s' \<and> vm_frame s s' \<and>
     (\<forall>d\<in>dirs s. pde_of s' d (PDX UVPT) = pde_of s d (PDX UVPT)) \<and>
     (\<forall>v < UTOP. env_view e s' v = (if PTE_ADDR v = a then wc else env_view e s v)) \<and>
     (\<forall>v < UTOP. env_view c s' v = (if PTE_ADDR v = a then wp else env_view c s v)) \<and>
     env_mem c s' = env_mem c s \<and>
     (\<forall>i\<in>in_use s. i \<noteq> c \<longrightarrow> i \<noteq> e \<longrightarrow> env_space i s' = env_space i s) \<and>
     (\<forall>i. has_pt s (env_pgdir (envs s e)) i \<longrightarrow> has_pt s' (env_pgdir (envs s e)) i) \<and>
     length (free_pages s) \<le> length (free_pages s') +
       (if has_pt s (env_pgdir (envs s e)) (PDX a) \<or> \<not> has_pt s' (env_pgdir (envs s e)) (PDX a) then 0 else 1) \<and>
     (\<forall>v < UTOP. env_view c s v AND PTE_P \<noteq> 0 \<longrightarrow>
        unat (pp_ref (pages s' (pte_page (env_view c s v)))) \<le>
        unat (pp_ref (pages s (pte_page (env_view c s v)))) +
          (if pte_page (env_view c s v) = pte_page (env_view c s a) then k else 0))"

lemma forkedD:
  assumes "forked c e a k wc wp s s'"
  shows "kinv s'" "vm_frame s s'" "d \<in> dirs s \<Longrightarrow> pde_of s' d (PDX UVPT) = pde_of s d (PDX UVPT)"
    "v < UTOP \<Longrightarrow> env_view e s' v = (if PTE_ADDR v = a then wc else env_view e s v)"
    "v < UTOP \<Longrightarrow> env_view c s' v = (if PTE_ADDR v = a then wp else env_view c s v)"
    "i \<in> in_use s \<Longrightarrow> i \<noteq> c \<Longrightarrow> i \<noteq> e \<Longrightarrow> env_space i s' = env_space i s"
    "has_pt s (env_pgdir (envs s e)) j \<Longrightarrow> has_pt s' (env_pgdir (envs s e)) j"
    "length (free_pages s) \<le> length (free_pages s') +
       (if has_pt s (env_pgdir (envs s e)) (PDX a) \<or> \<not> has_pt s' (env_pgdir (envs s e)) (PDX a) then 0 else 1)"
    "v < UTOP \<Longrightarrow> env_view c s v AND PTE_P \<noteq> 0 \<Longrightarrow>
        unat (pp_ref (pages s' (pte_page (env_view c s v)))) \<le>
        unat (pp_ref (pages s (pte_page (env_view c s v)))) +
          (if pte_page (env_view c s v) = pte_page (env_view c s a) then k else 0)" "env_mem c s' = env_mem c s"
proof -
  note F = assms [unfolded forked_def]
  show "kinv s'" "vm_frame s s'" "d \<in> dirs s \<Longrightarrow> pde_of s' d (PDX UVPT) = pde_of s d (PDX UVPT)"
    "v < UTOP \<Longrightarrow> env_view e s' v = (if PTE_ADDR v = a then wc else env_view e s v)"
    "v < UTOP \<Longrightarrow> env_view c s' v = (if PTE_ADDR v = a then wp else env_view c s v)"
    "i \<in> in_use s \<Longrightarrow> i \<noteq> c \<Longrightarrow> i \<noteq> e \<Longrightarrow> env_space i s' = env_space i s"
    "has_pt s (env_pgdir (envs s e)) j \<Longrightarrow> has_pt s' (env_pgdir (envs s e)) j" "env_mem c s' = env_mem c s"
    using F by blast+
  show "length (free_pages s) \<le> length (free_pages s') +
       (if has_pt s (env_pgdir (envs s e)) (PDX a) \<or> \<not> has_pt s' (env_pgdir (envs s e)) (PDX a) then 0 else 1)"
    using F by blast
  show "v < UTOP \<Longrightarrow> env_view c s v AND PTE_P \<noteq> 0 \<Longrightarrow>
        unat (pp_ref (pages s' (pte_page (env_view c s v)))) \<le>
        unat (pp_ref (pages s (pte_page (env_view c s v)))) +
          (if pte_page (env_view c s v) = pte_page (env_view c s a) then k else 0)"
    using F by blast
qed

lemma forked_refl:
  assumes "kinv s" and "PTE_ADDR a = a" and "a < UTOP"
  shows "forked c e a k (env_view e s a) (env_view c s a) s s"
proof -
  have "env_view i s v = (if PTE_ADDR v = a then env_view i s a else env_view i s v)" if "v < UTOP" for i v
    using env_view_page [of v a i s] assms(2) by simp
  moreover have "vm_frame s s" by (simp add: vm_frame_def)
  ultimately show ?thesis unfolding forked_def using assms(1) by auto
qed

lemma forked_fields:
  assumes "forked c e a k wc wp s s'"
  shows "envs s' = envs s" "curenv s' = curenv s" "in_use s' = in_use s" "dirs s' = dirs s"
    "cr3 s' = cr3 s" "cpunum_reg s' = cpunum_reg s"
proof -
  have f: "vm_frame s s'" using assms by (simp add: forked_def)
  note v = vm_frame_fields [OF f]
  show "envs s' = envs s" "curenv s' = curenv s" "cr3 s' = cr3 s" "cpunum_reg s' = cpunum_reg s" by (simp_all add: v)
  show "in_use s' = in_use s" "dirs s' = dirs s" by (simp_all add: in_use_def dirs_def v)
qed

lemma forked_trans:
  assumes 1: "forked c e a k wc wp s s1" and 2: "forked c e a k' wc' wp' s1 s2"
    and a: "PTE_ADDR a = a" "a < UTOP" and wp: "wp AND PTE_P \<noteq> 0" "pte_page wp = pte_page (env_view c s a)"
  shows "forked c e a (k + k') wc' wp' s s2"
proof -
  note f = forked_fields [OF 1] and D1 = forkedD [OF 1] and D2 = forkedD [OF 2]
  have pa: "pte_page (env_view c s1 a) = pte_page (env_view c s a)" using D1(5) [OF a(2)] a(1) wp(2) by simp
  have refs: "unat (pp_ref (pages s2 (pte_page (env_view c s v)))) \<le> unat (pp_ref (pages s (pte_page (env_view c s v)))) +
      (if pte_page (env_view c s v) = pte_page (env_view c s a) then k + k' else 0)"
    if v: "v < UTOP" "env_view c s v AND PTE_P \<noteq> 0" for v
  proof -
    have "env_view c s v = env_view c s a" if "PTE_ADDR v = a" using env_view_page [of v a c s] that a by simp
    then have eq: "env_view c s1 v AND PTE_P \<noteq> 0" "pte_page (env_view c s1 v) = pte_page (env_view c s v)"
      using D1(5) [OF v(1)] wp v(2) by auto
    from D1(9) [OF v] D2(9) [OF v(1) eq(1), unfolded eq(2) pa] show ?thesis by (simp split: if_splits)
  qed
  have len: "length (free_pages s) \<le> length (free_pages s2) +
       (if has_pt s (env_pgdir (envs s e)) (PDX a) \<or> \<not> has_pt s2 (env_pgdir (envs s e)) (PDX a) then 0 else 1)"
    using D1(7,8) D2(7,8) [unfolded f(1)] by (auto split: if_splits)
  have dirs: "pde_of s2 d (PDX UVPT) = pde_of s d (PDX UVPT)" if "d \<in> dirs s" for d
    using D1(3) [OF that] D2(3) [of d] that f(4) by simp
  have mem: "env_mem c s2 = env_mem c s" using D1(10) D2(10) by simp
  have others: "env_space i s2 = env_space i s" if "i \<in> in_use s" "i \<noteq> c" "i \<noteq> e" for i
    using D1(6) [OF that] D2(6) [of i] that f(3) by simp
  have pts: "has_pt s2 (env_pgdir (envs s e)) j" if "has_pt s (env_pgdir (envs s e)) j" for j
    using D2(7) [of j] D1(7) [OF that] f(1) by simp
  have views: "env_view e s2 v = (if PTE_ADDR v = a then wc' else env_view e s v)"
    "env_view c s2 v = (if PTE_ADDR v = a then wp' else env_view c s v)" if "v < UTOP" for v
    using D1(4,5) [OF that] D2(4,5) [OF that] by simp_all
  note fr = vm_frame_trans [OF D1(2) D2(2)]
  show ?thesis unfolding forked_def
    by (intro conjI allI ballI impI D2(1) fr dirs views mem others pts len refs)
qed

text \<open>The parent \<open>c\<close> runs, and \<open>envid\<close> names its child \<open>e\<close>.\<close>

definition fork_ok :: "nat \<Rightarrow> nat \<Rightarrow> u32 \<Rightarrow> kstate \<Rightarrow> bool" where
  "fork_ok c e envid s \<longleftrightarrow> kinv s \<and> running c s \<and> envid2env envid True s = Some (Inr (Some e)) \<and> e \<in> in_use s \<and> e \<noteq> c"

lemma fork_okD:
  assumes "fork_ok c e envid s"
  shows "kinv s" "running c s" "envid2env envid True s = Some (Inr (Some e))" "e \<in> in_use s" "e \<noteq> c"
    "curenv s = Some c" "c \<in> in_use s" "pgdir_ok s (env_pgdir (envs s c))"
    "env_pgdir (envs s c) \<in> dirs s" "env_pgdir (envs s e) \<in> dirs s" "env_pgdir (envs s e) \<noteq> env_pgdir (envs s c)"
proof -
  show 1: "kinv s" "running c s" "envid2env envid True s = Some (Inr (Some e))" "e \<in> in_use s" "e \<noteq> c"
    using assms by (simp_all add: fork_ok_def)
  show "curenv s = Some c" using 1(2) by (simp add: running_def)
  then show c: "c \<in> in_use s" by (rule kinvD(6) [OF 1(1)])
  show d: "env_pgdir (envs s c) \<in> dirs s" by (rule kinvD(4) [OF 1(1) c])
  show "env_pgdir (envs s e) \<in> dirs s" by (rule kinvD(4) [OF 1(1,4)])
  show "pgdir_ok s (env_pgdir (envs s c))" using d kinvD(1) [OF 1(1)] by (simp add: spaces_ok_def)
  show "env_pgdir (envs s e) \<noteq> env_pgdir (envs s c)" using kinvD(9) [OF 1(1,4) c] 1(5) by simp
qed

lemma fork_ok_forked:
  assumes ok: "fork_ok c e envid s" and f: "forked c e a k wc wp s s'"
  shows "fork_ok c e envid s'"
proof -
  note o = fork_okD [OF ok] and g = forked_fields [OF f]
  have "running c s'" using o(2) forkedD(3) [OF f o(9)] by (simp add: running_def g)
  moreover have "envid2env envid True s' = envid2env envid True s" by (simp only: envid2env_def g)
  ultimately show ?thesis using o forkedD(1) [OF f] by (simp add: fork_ok_def g)
qed

lemma view_map_done: "map_done x a y a perm s s' \<Longrightarrow> v < UTOP \<Longrightarrow>
    env_view y s' v = (if PTE_ADDR v = a then PTE_ADDR (env_view x s a) OR perm else env_view y s v)"
  by (simp add: map_done_def)

lemma map_child:
  assumes ok: "fork_ok c e envid s" and a: "PTE_ADDR a = a" "a < UTOP"
    and m: "map_valid c a a perm s" and ref: "unat (pp_ref (pages s (pte_page (env_view c s a)))) < 65535"
    and room: "has_pt s (env_pgdir (envs s e)) (PDX a) \<or> free_pages s \<noteq> []"
  shows "\<exists>s'. usys_page_map 0 a envid a perm s = Some (Returns 0 s') \<and>
    forked c e a 1 (PTE_ADDR (env_view c s a) OR perm) (env_view c s a) s s'"
proof -
  note o = fork_okD [OF ok]
  have w: "env_view c s a AND PTE_P \<noteq> 0" using m by (simp add: map_valid_def)
  have self: "envid2env 0 True s = Some (Inr (Some c))" using o(6) by (simp add: envid2env_def)
  from sys_page_map_valid [OF o(1,6) self o(7,3,4) m ref] room obtain s' where
    s': "sys_page_map 0 a envid a perm s = Some (Returns 0 s')" "call_post e 0 s s'" "map_done c a e a perm s s'" by auto
  have d: "vm_frame s s'" "insert_cost (env_pgdir (envs s e)) a (pte_page (env_view c s a)) s s'"
    "dirs_kept (env_pgdir (envs s e)) (dirs s) s s'" using s'(3) by (simp_all add: map_done_def)
  have p: "kinv s'" "i \<in> in_use s \<Longrightarrow> i \<noteq> e \<Longrightarrow> env_space i s' = env_space i s" for i
    using s'(2) call_post_space [OF s'(2)] by (simp_all add: call_post_def)
  have pc: "env_view c s' = env_view c s" "env_mem c s' = env_mem c s"
    using p(2) [OF o(7)] o(5) by (simp_all add: env_space_def)
  have "forked c e a 1 (PTE_ADDR (env_view c s a) OR perm) (env_view c s a) s s'"
    unfolding forked_def
  proof (intro conjI allI ballI impI p(1) d(1) pc(2) p(2))
    fix v assume v: "v < UTOP"
    show "env_view e s' v = (if PTE_ADDR v = a then PTE_ADDR (env_view c s a) OR perm else env_view e s v)"
      by (rule view_map_done [OF s'(3) v])
    show "env_view c s' v = (if PTE_ADDR v = a then env_view c s a else env_view c s v)"
      using env_view_page [of v a c s] a pc(1) by simp
    assume "env_view c s v AND PTE_P \<noteq> 0"
    with insert_cost_refs(1) [OF o(1,4) a(2) d(2) view_not_free [OF o(1,7) v]] ref
    show "unat (pp_ref (pages s' (pte_page (env_view c s v)))) \<le> unat (pp_ref (pages s (pte_page (env_view c s v)))) +
        (if pte_page (env_view c s v) = pte_page (env_view c s a) then 1 else 0)" by blast
  qed (use d(2,3) in \<open>simp_all add: insert_cost_def dirs_kept_def\<close>)
  with s'(1) show ?thesis by (simp add: usys_page_map_eq)
qed

lemma map_parent:
  assumes ok: "fork_ok c e envid s" and a: "PTE_ADDR a = a" "a < UTOP"
    and m: "map_valid c a a perm s" and ref: "unat (pp_ref (pages s (pte_page (env_view c s a)))) < 65535"
  shows "\<exists>s'. usys_page_map 0 a 0 a perm s = Some (Returns 0 s') \<and>
    forked c e a 0 (env_view e s a) (PTE_ADDR (env_view c s a) OR perm) s s'"
proof -
  note o = fork_okD [OF ok]
  have w: "env_view c s a AND PTE_P \<noteq> 0" using m by (simp add: map_valid_def)
  from remap_self [OF o(1,6) m ref] obtain s' where
    s': "sys_page_map 0 a 0 a perm s = Some (Returns 0 s')" "call_post c 0 s s'" "map_done c a c a perm s s'" by auto
  have d: "vm_frame s s'" "insert_cost (env_pgdir (envs s c)) a (pte_page (env_view c s a)) s s'"
    "dirs_kept (env_pgdir (envs s c)) (dirs s) s s'" using s'(3) by (simp_all add: map_done_def)
  have p: "kinv s'" "i \<in> in_use s \<Longrightarrow> i \<noteq> c \<Longrightarrow> env_space i s' = env_space i s" for i
    using s'(2) call_post_space [OF s'(2)] by (simp_all add: call_post_def)
  have pe: "env_view e s' = env_view e s" using p(2) [OF o(4,5)] by (simp add: env_space_def)
  have mem: "env_mem c s' = env_mem c s"
  proof
    fix v
    have "PTE_ADDR v = a \<Longrightarrow> a OR PGOFF v = v" using PTE_ADDR_PGOFF [of v] by simp
    then show "env_mem c s' v = env_mem c s v" using map_done_mem [OF o(1,7,7) m s'(3), of v] by simp
  qed
  have "has_pt s (env_pgdir (envs s c)) (PDX a)" using a(2) w by (rule env_view_has_pt)
  then have len: "length (free_pages s) \<le> length (free_pages s')" using d(2) by (simp add: insert_cost_def)
  have "forked c e a 0 (env_view e s a) (PTE_ADDR (env_view c s a) OR perm) s s'"
    unfolding forked_def
  proof (intro conjI allI ballI impI p(1) d(1) mem p(2))
    fix v assume v: "v < UTOP"
    show "env_view c s' v = (if PTE_ADDR v = a then PTE_ADDR (env_view c s a) OR perm else env_view c s v)"
      by (rule view_map_done [OF s'(3) v])
    show "env_view e s' v = (if PTE_ADDR v = a then env_view e s a else env_view e s v)"
      using pe env_view_page [of v a e s] a by simp
    assume "env_view c s v AND PTE_P \<noteq> 0"
    with insert_cost_refs(2) [OF o(1,7) a(2) d(2) view_not_free [OF o(1,7) v] w refl]
    show "unat (pp_ref (pages s' (pte_page (env_view c s v)))) \<le> unat (pp_ref (pages s (pte_page (env_view c s v)))) +
        (if pte_page (env_view c s v) = pte_page (env_view c s a) then 0 else 0)" by simp
  qed (use d(3) len o(10,11) in \<open>simp_all add: dirs_kept_def\<close>)
  with s'(1) show ?thesis by (simp add: usys_page_map_eq)
qed

lemma cow_entry_bits:
  "cow_entry w AND PTE_P \<noteq> 0" "cow_entry w \<noteq> 0" "pte_page (cow_entry w) = pte_page w" "cow_entry w AND PTE_W = 0"
proof -
  show p: "cow_entry w AND PTE_P \<noteq> 0" by (simp add: cow_entry_def bit.conj_disj_distrib2)
  then show "cow_entry w \<noteq> 0" by auto
  have "PTE_ADDR (cow_entry w) = PTE_ADDR w" by (simp add: cow_entry_def PTE_ADDR_or)
  then show "pte_page (cow_entry w) = pte_page w" by (metis PGNUM_PTE_ADDR)
  show "cow_entry w AND PTE_W = 0" by (simp add: cow_entry_def PTE_ADDR_def bit.conj_disj_distrib2 and.assoc)
qed

text \<open>Where the child has an entry, both entries are present and name the parent's page.\<close>

lemma entries_alias:
  assumes "child_entry w \<noteq> 0"
  shows "child_entry w AND PTE_P \<noteq> 0" "parent_entry w AND PTE_P \<noteq> 0"
    and "PTE_ADDR (child_entry w) = PTE_ADDR (parent_entry w)"
proof -
  have u: "user_page w" using assms by (auto simp: child_entry_def split: if_splits)
  then have p: "w AND PTE_P \<noteq> 0" by (simp add: user_page_def)
  have a: "PTE_ADDR (cow_entry w) = PTE_ADDR w" "PTE_ADDR (PTE_ADDR w OR f) = PTE_ADDR w" if "f < 4096" for f
    using that by (simp_all add: cow_entry_def PTE_ADDR_or)
  have b: "(PTE_ADDR w OR PTE_SYSCALL) AND PTE_P \<noteq> 0" "(PTE_ADDR w OR PTE_U OR PTE_P) AND PTE_P \<noteq> 0"
    by (simp_all add: bit.conj_disj_distrib2)
  show "parent_entry w AND PTE_P \<noteq> 0" using p cow_entry_bits(1) [of w] by (simp add: parent_entry_def)
  from assms u consider "private_page w" | "\<not> private_page w" "w AND PTE_SHARE = 0"
    | "\<not> private_page w" "w AND PTE_SHARE \<noteq> 0" "w AND PTE_W \<noteq> 0"
    unfolding child_entry_def by metis
  then show "child_entry w AND PTE_P \<noteq> 0"
    by cases (use b cow_entry_bits(1) [of w] u in \<open>simp_all add: child_entry_def\<close>)
  show "PTE_ADDR (child_entry w) = PTE_ADDR (parent_entry w)"
    using assms u a(1) [of 0] a(2) [of PTE_SYSCALL] a(2) [of "PTE_U OR PTE_P"]
    by (auto simp: child_entry_def parent_entry_def or.assoc split: if_splits)
qed

lemma duppage_forks:
  assumes ok: "fork_ok c e envid s" and pn: "unat pn < 1048576" and lt: "pn * PGSIZE < UTOP"
    and user: "user_page (env_view c s (pn * PGSIZE))"
    and ref: "unat (pp_ref (pages s (pte_page (env_view c s (pn * PGSIZE))))) + 1 < 65535"
    and room: "has_pt s (env_pgdir (envs s e)) (PDX (pn * PGSIZE)) \<or> free_pages s \<noteq> []"
  shows "\<exists>s'. duppage envid pn s = Some (Returns 0 s') \<and>
    forked c e (pn * PGSIZE) 1
      (if child_entry (env_view c s (pn * PGSIZE)) = 0 then env_view e s (pn * PGSIZE)
       else child_entry (env_view c s (pn * PGSIZE)))
      (parent_entry (env_view c s (pn * PGSIZE))) s s'"
proof -
  define a where "a = pn * PGSIZE"
  let ?w = "env_view c s a"
  note o = fork_okD [OF ok]
  have a: "PTE_ADDR a = a" "a < UTOP" "\<not> bad_va a"
    using page_addr [OF pn] lt by (auto simp: a_def bad_va_def)
  have w: "?w AND PTE_P \<noteq> 0" using user by (simp add: user_page_def a_def)
  have read: "uvpt pn s = Some ?w"
    using uvpt_reads [OF o(2,8) pn env_view_has_pt [OF lt]] lt w by (simp add: env_view_def user_view_def a_def)
  have ref': "unat (pp_ref (pages s (pte_page ?w))) < 65535" using ref by (simp add: a_def)
  have valid: "map_valid c a a perm s" if "\<not> bad_perm perm" "perm AND PTE_W \<noteq> 0 \<longrightarrow> ?w AND PTE_W \<noteq> 0" for perm
    using that a w by (simp add: map_valid_def)
  note child = map_child [OF ok a(1,2) valid ref' room [folded a_def]]
  have n: "(x :: u32) OR y OR PTE_P \<noteq> 0" for x y
  proof
    assume "x OR y OR PTE_P = 0"
    moreover have "(x OR y OR PTE_P) AND PTE_P \<noteq> 0" by (simp add: bit.conj_disj_distrib2)
    ultimately show False by simp
  qed
  have "\<exists>s'. duppage envid pn s = Some (Returns 0 s') \<and>
      forked c e a 1 (if child_entry ?w = 0 then env_view e s a else child_entry ?w) (parent_entry ?w) s s'"
  proof -
    consider (share) "?w AND PTE_SHARE \<noteq> 0" "?w AND PTE_W \<noteq> 0" | (lost) "?w AND PTE_SHARE \<noteq> 0" "?w AND PTE_W = 0"
      | (cow) "private_page ?w" | (plain) "\<not> private_page ?w" "?w AND PTE_SHARE = 0"
      by (auto simp: private_page_def)
    then show ?thesis
    proof cases
      case share
      from child [of PTE_SYSCALL] share obtain s' where
        "usys_page_map 0 a envid a PTE_SYSCALL s = Some (Returns 0 s')" "forked c e a 1 (PTE_ADDR ?w OR PTE_SYSCALL) ?w s s'"
        by (auto simp: bad_perm_def)
      moreover from this(2) have "PTE_ADDR ?w OR PTE_SYSCALL \<noteq> 0" using n [of "PTE_ADDR ?w" "0xE06"] by simp
      ultimately show ?thesis
        using share read user
        by (simp add: duppage_def Let_def a_def [symmetric] child_entry_def parent_entry_def private_page_def)
    next
      case lost
      have "\<not> map_valid c a a PTE_SYSCALL s" using lost by (simp add: map_valid_def)
      from sys_page_map_invalid [OF o(1,6) _ o(7,3) this, of 0] o(6)
      have "usys_page_map 0 a envid a PTE_SYSCALL s = Some (Returns (- E_INVAL) s)"
        by (simp add: envid2env_def usys_page_map_eq)
      then show ?thesis
        using lost read user forked_refl [OF o(1) a(1,2), of c e 1]
        by (simp add: duppage_def Let_def a_def [symmetric] child_entry_def parent_entry_def private_page_def)
    next
      case cow
      let ?p = "PTE_COW OR PTE_U OR PTE_P"
      have pm: "\<not> bad_perm ?p" "?p AND PTE_W = 0" by (simp_all add: bad_perm_def)
      have eq: "PTE_ADDR ?w OR ?p = cow_entry ?w" by (simp add: cow_entry_def or.assoc)
      from child [OF pm(1)] pm(2) obtain s1 where
        s1: "usys_page_map 0 a envid a ?p s = Some (Returns 0 s1)" "forked c e a 1 (cow_entry ?w) ?w s s1"
        unfolding eq by auto
      note ok1 = fork_ok_forked [OF ok s1(2)]
      have w1: "env_view c s1 a = ?w" "env_view e s1 a = cow_entry ?w"
        using forkedD(4,5) [OF s1(2) a(2)] a(1) by simp_all
      have "unat (pp_ref (pages s1 (pte_page (env_view c s1 a)))) < 65535"
        using forkedD(9) [OF s1(2) a(2) w] ref unfolding w1 by (simp add: a_def)
      moreover have "map_valid c a a ?p s1" using a w pm w1(1) by (simp add: map_valid_def)
      ultimately obtain s2 where
        s2: "usys_page_map 0 a 0 a ?p s1 = Some (Returns 0 s2)" "forked c e a 0 (cow_entry ?w) (cow_entry ?w) s1 s2"
        using map_parent [OF ok1 a(1,2)] w1 eq by metis
      have "forked c e a (1 + 0) (cow_entry ?w) (cow_entry ?w) s s2"
        by (rule forked_trans [OF s1(2) s2(2) a(1,2) w refl])
      then show ?thesis
        using s1(1) s2(1) read user cow cow_entry_bits(2) [of ?w]
        by (simp add: duppage_def Let_def a_def [symmetric] child_entry_def parent_entry_def private_page_def)
    next
      case plain
      from child [of "PTE_U OR PTE_P"] obtain s' where
        "usys_page_map 0 a envid a (PTE_U OR PTE_P) s = Some (Returns 0 s')"
        "forked c e a 1 (PTE_ADDR ?w OR (PTE_U OR PTE_P)) ?w s s'"
        by (auto simp: bad_perm_def)
      moreover have "PTE_ADDR ?w OR (PTE_U OR PTE_P) \<noteq> 0" using n [of "PTE_ADDR ?w" PTE_U] by simp
      ultimately show ?thesis
        using plain read user
        by (simp add: duppage_def Let_def a_def [symmetric] child_entry_def parent_entry_def private_page_def)
    qed
  qed
  then show ?thesis by (simp only: a_def)
qed

section \<open>All pages\<close>

lemma fork_page_forks:
  assumes ok: "fork_ok c e envid s" and a: "PTE_ADDR a = a" "a < UTOP" and new: "env_view e s a = 0"
    and res: "user_page (env_view c s a) \<Longrightarrow> unat (pp_ref (pages s (pte_page (env_view c s a)))) + 1 < 65535"
      "user_page (env_view c s a) \<Longrightarrow> has_pt s (env_pgdir (envs s e)) (PDX a) \<or> free_pages s \<noteq> []"
  shows "\<exists>s'. fork_page envid a s = Some (Returns 0 s') \<and> (\<not> user_page (env_view c s a) \<longrightarrow> s' = s) \<and>
    forked c e a (if user_page (env_view c s a) then 1 else 0) (child_entry (env_view c s a)) (parent_entry (env_view c s a)) s s'"
proof -
  let ?w = "env_view c s a" and ?d = "env_pgdir (envs s c)"
  note o = fork_okD [OF ok]
  have pn: "PGNUM a * PGSIZE = a" "unat (PGNUM a) < 1048576"
  proof -
    have "unat (PGNUM a) = unat a div 4096" by (simp add: PGNUM_def drop_bit_eq_div unat_div)
    moreover have "unat a mod 4096 = 0"
      using a(1) unat_PTE_ADDR [of a] by (metis diff_diff_cancel diff_self_eq_0 mod_less_eq_dividend)
    ultimately show "PGNUM a * PGSIZE = a" "unat (PGNUM a) < 1048576"
      using unat_u32_less [of a] by (auto intro!: word_eq_unatI simp: unat_word_ariths div_less_iff_less_mult)
  qed
  have i: "PDX a < 1024" using unat_u32_less [of a] by (simp add: word_less_nat_alt unat_PDX div_less_iff_less_mult)
  have pde: "uvpd (PDX a) s = Some (pde_of s ?d (PDX a))" by (rule uvpd_reads [OF o(2,8) i])
  have t: "tree_slot (PDX a)" by (rule user_slot(1) [OF a(2)])
  have view: "?w = pte_of s ?d a" using a(2) by (simp add: env_view_def user_view_def)
  show ?thesis
  proof (cases "user_page ?w")
    case no: False
    have "fork_page envid a s = Some (Returns 0 s)"
    proof (cases "has_pt s ?d (PDX a)")
      case True
      then have "uvpt (PGNUM a) s = Some ?w" using uvpt_reads [OF o(2,8) pn(2)] by (simp add: pn(1) view)
      with True pde no show ?thesis by (auto simp: fork_page_def has_pt_def user_page_def)
    next
      case False
      with t pde show ?thesis by (simp add: fork_page_def has_pt_def)
    qed
    with forked_refl [OF o(1) a, of c e 0] no new show ?thesis by (simp add: child_entry_def parent_entry_def)
  next
    case yes: True
    then have p: "has_pt s ?d (PDX a)" using env_view_has_pt [OF a(2)] by (simp add: user_page_def)
    then have "uvpt (PGNUM a) s = Some ?w" using uvpt_reads [OF o(2,8) pn(2)] by (simp add: pn(1) view)
    then have "fork_page envid a s = duppage envid (PGNUM a) s"
      using p pde yes by (simp add: fork_page_def has_pt_def user_page_def)
    with duppage_forks [OF ok pn(2), unfolded pn(1), OF a(2) yes res(1,2)] yes new show ?thesis by (auto split: if_splits)
  qed
qed

text \<open>The page tables the child needs.\<close>

definition fork_pts :: "nat \<Rightarrow> nat \<Rightarrow> u32 set \<Rightarrow> kstate \<Rightarrow> u32 set" where
  "fork_pts c e A s = PDX ` {a \<in> A. user_page (env_view c s a)} - {i. has_pt s (env_pgdir (envs s e)) i}"

definition fork_refs :: "nat \<Rightarrow> u32 list \<Rightarrow> kstate \<Rightarrow> u32 \<Rightarrow> nat" where
  "fork_refs c addrs s a = unat (pp_ref (pages s (pte_page (env_view c s a)))) +
     length (filter (\<lambda>b. user_page (env_view c s b) \<and> pte_page (env_view c s b) = pte_page (env_view c s a)) addrs)"

lemma fork_pages_forks:
  assumes "fork_ok c e envid s" and "distinct addrs" and "\<forall>a\<in>set addrs. PTE_ADDR a = a \<and> a < UTOP \<and> env_view e s a = 0"
    and "\<forall>a\<in>set addrs. user_page (env_view c s a) \<longrightarrow> fork_refs c addrs s a < 65535"
    and "card (fork_pts c e (set addrs) s) \<le> length (free_pages s)"
  shows "\<exists>s'. fork_pages envid addrs s = Some (Returns 0 s') \<and> fork_ok c e envid s' \<and> vm_frame s s' \<and>
    (\<forall>v < UTOP. env_view e s' v = (if PTE_ADDR v \<in> set addrs then child_entry (env_view c s v) else env_view e s v)) \<and>
    (\<forall>v < UTOP. env_view c s' v = (if PTE_ADDR v \<in> set addrs then parent_entry (env_view c s v) else env_view c s v)) \<and>
    env_mem c s' = env_mem c s \<and>
    (\<forall>i\<in>in_use s. i \<noteq> c \<longrightarrow> i \<noteq> e \<longrightarrow> env_space i s' = env_space i s) \<and>
    length (free_pages s) \<le> length (free_pages s') + card (fork_pts c e (set addrs) s)"
  using assms
proof (induction addrs arbitrary: s)
  case Nil
  then show ?case by (simp add: vm_frame_def)
next
  case (Cons a addrs)
  let ?w = "env_view c s a" and ?d = "env_pgdir (envs s e)"
  have a: "PTE_ADDR a = a" "a < UTOP" "env_view e s a = 0" using Cons.prems(3) by simp_all
  have fin: "finite (fork_pts c e (set xs) s)" for xs s by (simp add: fork_pts_def)
  have ref: "unat (pp_ref (pages s (pte_page ?w))) + 1 < 65535" if "user_page ?w"
    using Cons.prems(4) that by (auto simp: fork_refs_def)
  have room: "has_pt s ?d (PDX a) \<or> free_pages s \<noteq> []" if "user_page ?w"
  proof (rule ccontr)
    assume "\<not> ?thesis"
    with Cons.prems(5) fin have "fork_pts c e (set (a # addrs)) s = {}" by simp
    with that \<open>\<not> ?thesis\<close> show False by (auto simp: fork_pts_def)
  qed
  from fork_page_forks [OF Cons.prems(1) a ref room] obtain s1 where
    s1: "fork_page envid a s = Some (Returns 0 s1)" "\<not> user_page ?w \<longrightarrow> s1 = s" and
    f: "forked c e a (if user_page ?w then 1 else 0) (child_entry ?w) (parent_entry ?w) s s1" by auto
  note ok1 = fork_ok_forked [OF Cons.prems(1) f] and g = forked_fields [OF f] and D = forkedD [OF f]
  have other: "PTE_ADDR b = b" "b < UTOP" "b \<noteq> a" "env_view c s1 b = env_view c s b" "env_view e s1 b = 0"
    if "b \<in> set addrs" for b
  proof -
    show b: "PTE_ADDR b = b" "b < UTOP" "b \<noteq> a" using Cons.prems(2,3) that by auto
    show "env_view c s1 b = env_view c s b" "env_view e s1 b = 0" using D(4,5) [OF b(2)] b Cons.prems(3) that by simp_all
  qed
  have refs1: "fork_refs c addrs s1 b < 65535" if b: "b \<in> set addrs" "user_page (env_view c s1 b)" for b
  proof -
    let ?i = "pte_page (env_view c s b)"
    have u: "user_page (env_view c s b)" using b other(4) by simp
    then have "unat (pp_ref (pages s1 ?i)) \<le> unat (pp_ref (pages s ?i)) +
        (if ?i = pte_page ?w then if user_page ?w then 1 else 0 else 0)"
      using D(9) [OF other(2) [OF b(1)]] by (simp add: user_page_def)
    moreover have "filter (\<lambda>x. user_page (env_view c s1 x) \<and> pte_page (env_view c s1 x) = ?i) addrs =
        filter (\<lambda>x. user_page (env_view c s x) \<and> pte_page (env_view c s x) = ?i) addrs"
      by (rule filter_cong) (simp_all add: other(4))
    moreover have "fork_refs c (a # addrs) s b < 65535" using Cons.prems(4) b(1) u by simp
    ultimately show ?thesis using other(4) [OF b(1)] by (auto simp: fork_refs_def split: if_splits)
  qed
  define cost where "cost = (if has_pt s ?d (PDX a) \<or> \<not> has_pt s1 ?d (PDX a) then 0 else 1 :: nat)"
  have cost: "card (fork_pts c e (set addrs) s1) + cost \<le> card (fork_pts c e (set (a # addrs)) s)"
  proof -
    have eq: "{b \<in> set addrs. user_page (env_view c s1 b)} = {b \<in> set addrs. user_page (env_view c s b)}"
      using other(4) by auto
    have sub: "fork_pts c e (set addrs) s1 \<subseteq> fork_pts c e (set (a # addrs)) s"
      unfolding fork_pts_def eq g(1) using D(7) by auto
    show ?thesis
    proof (cases "cost = 0")
      case True
      with card_mono [OF fin sub] show ?thesis by simp
    next
      case False
      then have n: "\<not> has_pt s ?d (PDX a)" "has_pt s1 ?d (PDX a)" "cost = 1" by (auto simp: cost_def split: if_splits)
      then have "user_page ?w" using s1(2) by auto
      with n have "insert (PDX a) (fork_pts c e (set addrs) s1) \<subseteq> fork_pts c e (set (a # addrs)) s"
        using sub by (auto simp: fork_pts_def)
      from card_mono [OF fin this] fin have "card (insert (PDX a) (fork_pts c e (set addrs) s1)) \<le> card (fork_pts c e (set (a # addrs)) s)"
        by simp
      moreover have "PDX a \<notin> fork_pts c e (set addrs) s1" using n(2) by (simp add: fork_pts_def g(1))
      ultimately show ?thesis using n(3) fin by simp
    qed
  qed
  have len: "length (free_pages s) \<le> length (free_pages s1) + cost" using D(8) by (simp add: cost_def)
  have "\<exists>s'. fork_pages envid addrs s1 = Some (Returns 0 s') \<and> fork_ok c e envid s' \<and> vm_frame s1 s' \<and>
    (\<forall>v < UTOP. env_view e s' v = (if PTE_ADDR v \<in> set addrs then child_entry (env_view c s1 v) else env_view e s1 v)) \<and>
    (\<forall>v < UTOP. env_view c s' v = (if PTE_ADDR v \<in> set addrs then parent_entry (env_view c s1 v) else env_view c s1 v)) \<and>
    env_mem c s' = env_mem c s1 \<and>
    (\<forall>i\<in>in_use s1. i \<noteq> c \<longrightarrow> i \<noteq> e \<longrightarrow> env_space i s' = env_space i s1) \<and>
    length (free_pages s1) \<le> length (free_pages s') + card (fork_pts c e (set addrs) s1)"
  proof (rule Cons.IH [OF ok1])
    show "distinct addrs" using Cons.prems(2) by simp
    show "\<forall>b\<in>set addrs. PTE_ADDR b = b \<and> b < UTOP \<and> env_view e s1 b = 0" using other by blast
    show "\<forall>b\<in>set addrs. user_page (env_view c s1 b) \<longrightarrow> fork_refs c addrs s1 b < 65535" using refs1 by blast
    show "card (fork_pts c e (set addrs) s1) \<le> length (free_pages s1)" using cost len Cons.prems(5) by linarith
  qed
  then obtain s' where s': "fork_pages envid addrs s1 = Some (Returns 0 s')" "fork_ok c e envid s'" "vm_frame s1 s'" and
    v': "\<And>v. v < UTOP \<Longrightarrow> env_view e s' v = (if PTE_ADDR v \<in> set addrs then child_entry (env_view c s1 v) else env_view e s1 v)"
      "\<And>v. v < UTOP \<Longrightarrow> env_view c s' v = (if PTE_ADDR v \<in> set addrs then parent_entry (env_view c s1 v) else env_view c s1 v)"
      "\<And>i. i \<in> in_use s1 \<Longrightarrow> i \<noteq> c \<Longrightarrow> i \<noteq> e \<Longrightarrow> env_space i s' = env_space i s1"
      "env_mem c s' = env_mem c s1" and
    len': "length (free_pages s1) \<le> length (free_pages s') + card (fork_pts c e (set addrs) s1)" by blast
  have notin: "a \<notin> set addrs" using Cons.prems(2) by simp
  have same: "env_view c s v = ?w" if "v < UTOP" "PTE_ADDR v = a" for v
    using env_view_page [of v a c s] that a by simp
  have mem: "env_mem c s' = env_mem c s" using v'(4) D(10) by simp
  have "env_view e s' v = (if PTE_ADDR v \<in> set (a # addrs) then child_entry (env_view c s v) else env_view e s v)"
    "env_view c s' v = (if PTE_ADDR v \<in> set (a # addrs) then parent_entry (env_view c s v) else env_view c s v)"
    if v: "v < UTOP" for v
    using v'(1,2) [OF v] D(4,5) [OF v] same [OF v] notin by auto
  moreover have "vm_frame s s'" by (rule vm_frame_trans [OF D(2) s'(3)])
  moreover have "fork_pages envid (a # addrs) s = Some (Returns 0 s')" using s1(1) s'(1) by simp
  moreover have "env_space i s' = env_space i s" if "i \<in> in_use s" "i \<noteq> c" "i \<noteq> e" for i
    using v'(3) [of i] D(6) [OF that] that g(3) by simp
  moreover have "length (free_pages s) \<le> length (free_pages s') + card (fork_pts c e (set (a # addrs)) s)"
    using len len' cost by linarith
  ultimately show ?case using s'(2) mem by (intro exI [of _ s'] conjI allI ballI impI) simp_all
qed

section \<open>The addresses of the loop\<close>

abbreviation (input) page_addrs :: "nat \<Rightarrow> u32 list" where
  "page_addrs n \<equiv> map (\<lambda>k. of_nat k * PGSIZE) [0..<n]"

lemma unat_page_addr: "k < 1048576 \<Longrightarrow> unat (of_nat k * PGSIZE :: u32) = 4096 * k"
  by (simp add: unat_word_ariths unat_of_nat)

lemma page_addrs_distinct: "n \<le> 1048576 \<Longrightarrow> distinct (page_addrs n)"
proof -
  assume n: "n \<le> 1048576"
  have "inj_on (\<lambda>k. of_nat k * PGSIZE :: u32) (set [0..<n])"
  proof (rule inj_onI)
    fix x y
    assume "x \<in> set [0..<n]" "y \<in> set [0..<n]" "of_nat x * PGSIZE = (of_nat y * PGSIZE :: u32)"
    then have "x < 1048576" "y < 1048576" "unat (of_nat x * PGSIZE :: u32) = unat (of_nat y * PGSIZE :: u32)" using n by simp_all
    then have "4096 * x = 4096 * y" by (simp only: unat_page_addr)
    then show "x = y" by simp
  qed
  then show ?thesis by (simp only: distinct_map distinct_upt simp_thms)
qed

lemma page_addrs_set:
  assumes "n \<le> 1048576"
  shows "set (page_addrs n) = {a. PTE_ADDR a = a \<and> unat a < 4096 * n}"
proof (intro set_eqI iffI)
  fix a assume "a \<in> set (page_addrs n)"
  then obtain k where k: "k < n" "a = of_nat k * PGSIZE" by auto
  with unat_page_addr [of k] assms have u: "unat a = 4096 * k" by simp
  then have "PTE_ADDR a = a" by (intro word_eq_unatI) (simp add: unat_PTE_ADDR)
  with u k(1) show "a \<in> {a. PTE_ADDR a = a \<and> unat a < 4096 * n}" by simp
next
  fix a assume "a \<in> {a. PTE_ADDR a = a \<and> unat a < 4096 * n}"
  then have a: "PTE_ADDR a = a" "unat a < 4096 * n" by simp_all
  then have "unat a mod 4096 = 0" using unat_PTE_ADDR [of a] by (metis diff_diff_cancel diff_self_eq_0 mod_less_eq_dividend)
  then obtain k where u: "unat a = 4096 * k" by (auto simp flip: dvd_eq_mod_eq_0)
  then have k: "k < n" using a(2) by simp
  then have "unat (of_nat k * PGSIZE :: u32) = unat a" using unat_page_addr [of k] assms u by simp
  then have "a = of_nat k * PGSIZE" by (metis word_eq_unatI)
  moreover have "k \<in> set [0..<n]" using k by simp
  ultimately show "a \<in> set (page_addrs n)" unfolding set_map by (rule image_eqI)
qed

text \<open>The pages \<^verbatim>\<open>fork\<close> goes over are those below \<^verbatim>\<open>USTACKTOP\<close>.\<close>

definition fork_addrs :: "u32 list" where
  "fork_addrs = page_addrs (unat (USTACKTOP div PGSIZE))"

lemma fork_addrs: "distinct fork_addrs" "set fork_addrs = {a. PTE_ADDR a = a \<and> a < USTACKTOP}"
proof -
  have n: "unat (USTACKTOP div PGSIZE) = 977918" by simp
  show "distinct fork_addrs" unfolding fork_addrs_def n by (rule page_addrs_distinct) simp
  show "set fork_addrs = {a. PTE_ADDR a = a \<and> a < USTACKTOP}"
    unfolding fork_addrs_def n by (subst page_addrs_set) (simp_all add: word_less_nat_alt)
qed

lemma fork_addrs_page: "PTE_ADDR v \<in> set fork_addrs \<longleftrightarrow> v < USTACKTOP"
proof -
  have "unat (PTE_ADDR v) = 4096 * (unat v div 4096)" by (simp only: unat_PTE_ADDR minus_mod_eq_mult_div)
  moreover have "4096 * (unat v div 4096) < 4096 * 977918 \<longleftrightarrow> unat v div 4096 < 977918" by (simp only: mult_less_cancel1) simp
  moreover have "unat v div 4096 < 977918 \<longleftrightarrow> unat v < 977918 * 4096" by (rule div_less_iff_less_mult) simp
  ultimately have "unat (PTE_ADDR v) < 4005552128 \<longleftrightarrow> unat v < 4005552128" by simp
  then show ?thesis by (simp add: fork_addrs(2) word_less_nat_alt)
qed

section \<open>The whole call\<close>

text \<open>What the memory must supply: page tables for the child's pages, its directory and its exception stack.\<close>

definition user_slots :: "nat \<Rightarrow> kstate \<Rightarrow> u32 set" where
  "user_slots c s = PDX ` {v. v < USTACKTOP \<and> user_page (env_view c s v)}"

definition fork_room :: "nat \<Rightarrow> kstate \<Rightarrow> bool" where
  "fork_room c s \<longleftrightarrow> card (user_slots c s) + 3 \<le> length (free_pages s) \<and>
     (\<forall>i. unat (pp_ref (pages s i)) + card (mapped s (env_pgdir (envs s c)) i) < 65535)"

lemma child_fork_ok:
  assumes k: "kinv s" and r: "running c s" and m: "child_made c e s s'" and f: "alloc_frame (dirs s) s s'"
  shows "fork_ok c e (env_id (envs s' e)) s'"
proof -
  have c: "curenv s = Some c" using r by (simp add: running_def)
  have u: "c \<in> in_use s" by (rule kinvD(6) [OF k c])
  have M: "kinv s'" "e \<notin> in_use s" "in_use s' = insert e (in_use s)" "curenv s' = curenv s" "0 < sint (env_id (envs s' e))"
    "env_parent_id (envs s' e) = env_id (envs s c)" "env_status (envs s' e) = ENV_NOT_RUNNABLE"
    "envs s' c = envs s c" using m u by (simp_all add: child_made_def)
  have x: "ENVX (env_id (envs s' e)) = e" using kinvD(5) [OF M(1), of e] M(3) by simp
  have "env_id (envs s' e) \<noteq> 0" using M(5) by auto
  then have "envid2env (env_id (envs s' e)) True s' = Some (Inr (Some e))"
    using x M(4,6-8) c by (simp add: envid2env_def)
  moreover have "running c s'"
    using r f kinvD(4) [OF k u] M(4,8) by (simp add: running_def alloc_frame_def)
  ultimately show ?thesis using M(1-3) u by (auto simp: fork_ok_def)
qed

lemma child_room:
  assumes k: "kinv s" and c: "c \<in> in_use s" and room: "fork_room c s"
    and m: "child_made c e s s'" and f: "alloc_frame (dirs s) s s'"
  shows "card (fork_pts c e (set fork_addrs) s') + 2 \<le> length (free_pages s')"
    and "a \<in> set fork_addrs \<Longrightarrow> user_page (env_view c s' a) \<Longrightarrow> fork_refs c fork_addrs s' a < 65535"
proof -
  have v: "env_view c s' = env_view c s" using m c by (simp add: child_made_def)
  have "fork_pts c e (set fork_addrs) s' \<subseteq> user_slots c s"
    by (auto simp: fork_pts_def user_slots_def v fork_addrs(2))
  from card_mono [OF _ this] have "card (fork_pts c e (set fork_addrs) s') \<le> card (user_slots c s)" by simp
  moreover have "length (free_pages s') = length (free_pages s) - 1" using f by (simp add: alloc_frame_def)
  ultimately show "card (fork_pts c e (set fork_addrs) s') + 2 \<le> length (free_pages s')"
    using room unfolding fork_room_def by linarith
  assume a: "a \<in> set fork_addrs" "user_page (env_view c s' a)"
  let ?i = "pte_page (env_view c s a)" and ?P = "\<lambda>b. user_page (env_view c s b) \<and> pte_page (env_view c s b) = pte_page (env_view c s a)"
  have lt: "a < UTOP" using a(1) by (simp add: fork_addrs(2) word_less_nat_alt)
  have "?i \<notin> set (free_pages s)"
    by (rule view_not_free [OF k c lt]) (use a(2) in \<open>simp add: v user_page_def\<close>)
  then have eq: "pp_ref (pages s' ?i) = pp_ref (pages s ?i)" using f by (simp add: alloc_frame_def)
  have "length (filter ?P fork_addrs) \<le> card (mapped s (env_pgdir (envs s c)) ?i)"
  proof -
    have "length (filter ?P fork_addrs) = card (set (filter ?P fork_addrs))"
      by (rule distinct_card [symmetric, OF distinct_filter]) (rule fork_addrs(1))
    also have "\<dots> \<le> card (mapped s (env_pgdir (envs s c)) ?i)"
    proof (rule card_mono)
      show "set (filter ?P fork_addrs) \<subseteq> mapped s (env_pgdir (envs s c)) ?i"
        by (auto simp: fork_addrs(2) mapped_def user_page_def env_view_def user_view_def word_less_nat_alt)
          (metis PGOFF_PTE_ADDR)+
    qed simp
    finally show ?thesis .
  qed
  moreover have "unat (pp_ref (pages s ?i)) + card (mapped s (env_pgdir (envs s c)) ?i) < 65535"
    using room by (simp only: fork_room_def)
  ultimately have "unat (pp_ref (pages s' ?i)) + length (filter ?P fork_addrs) < 65535" unfolding eq by linarith
  then show "fork_refs c fork_addrs s' a < 65535" by (simp only: fork_refs_def v)
qed

text \<open>The last three calls: exception stack, upcall and status of the child.\<close>

definition child_started :: "nat \<Rightarrow> nat \<Rightarrow> u32 \<Rightarrow> kstate \<Rightarrow> kstate \<Rightarrow> bool" where
  "child_started e p upcall s s' \<longleftrightarrow>
     kinv s' \<and> in_use s' = in_use s \<and> curenv s' = curenv s \<and> p \<in> set (free_pages s) \<and>
     envs s' = (envs s)(e := (envs s e)\<lparr>env_pgfault_upcall := upcall, env_status := ENV_RUNNABLE\<rparr>) \<and>
     (\<forall>v < UTOP. env_view e s' v =
        (if PTE_ADDR v = UXSTACKTOP - PGSIZE then page2pa p OR PTE_P OR PTE_W OR PTE_U else env_view e s v)) \<and>
     (\<forall>i\<in>in_use s. i \<noteq> e \<longrightarrow> env_space i s' = env_space i s)"

lemma upd_env_call:
  assumes k: "kinv s" and c: "curenv s = Some c" and e: "e \<in> in_use s"
    and id: "envid2env envid True s = Some (Inr (Some e))"
    and g: "\<And>v. env_pgdir (f v) = env_pgdir v" "\<And>v. env_id (f v) = env_id v" "\<And>v. env_parent_id (f v) = env_parent_id v"
      "env_status (f (envs s e)) \<noteq> ENV_FREE"
  shows "kinv (upd_env e f s)" "in_use (upd_env e f s) = in_use s" "curenv (upd_env e f s) = Some c"
    "envid2env envid True (upd_env e f s) = Some (Inr (Some e))" "env_view i (upd_env e f s) = env_view i s"
    "env_space i (upd_env e f s) = env_space i s"
proof -
  note u = kinv_upd_env [OF k e, of f, OF g(1,2,4)]
  show "kinv (upd_env e f s)" "in_use (upd_env e f s) = in_use s" by (rule u(1), rule u(2))
  show c': "curenv (upd_env e f s) = Some c" using c by (simp add: upd_env_def curenv_def)
  note cp = call_post_upd_env [of s e f, OF k e g(1,2,4)]
  show "env_view i (upd_env e f s) = env_view i s" "env_space i (upd_env e f s) = env_space i s"
    using cp(2,3) by (simp_all add: env_space_def)
  have "env_status (envs s e) \<noteq> ENV_FREE" using e by (simp add: in_use_def)
  then have fields: "env_id (envs (upd_env e f s) i) = env_id (envs s i)" "env_parent_id (envs (upd_env e f s) i) = env_parent_id (envs s i)"
    "env_status (envs (upd_env e f s) i) = ENV_FREE \<longleftrightarrow> env_status (envs s i) = ENV_FREE" for i
    using g by (simp_all add: upd_env_def)
  have "envid2env envid True (upd_env e f s) = envid2env envid True s"
    by (simp only: envid2env_def fields c c')
  with id show "envid2env envid True (upd_env e f s) = Some (Inr (Some e))" by simp
qed

lemma fork_rest:
  assumes ok: "fork_ok c e envid s" and free: "2 \<le> length (free_pages s)" and id: "envid \<noteq> 0"
  shows "\<exists>p s'. child_started e p upcall s s' \<and>
    kbind (usys_page_alloc envid (UXSTACKTOP - PGSIZE) (PTE_P OR PTE_W OR PTE_U) s) (\<lambda>r s.
      if sint r < 0 then upanic s
      else kbind (usys_env_set_pgfault_upcall envid upcall s) (\<lambda>r s.
        if sint r < 0 then upanic s
        else kbind (usys_env_set_status envid ENV_RUNNABLE s) (\<lambda>r s.
          if sint r < 0 then upanic s else Some (Returns x s)))) = Some (Returns x s')"
proof -
  let ?va = "UXSTACKTOP - PGSIZE" and ?p = "PTE_P OR PTE_W OR PTE_U"
  note o = fork_okD [OF ok]
  have t: "target c envid = e"
    using o(3) id by (auto simp: target_def envid2env_def Let_def o(6) split: if_splits)
  have v: "\<not> bad_va ?va" "\<not> bad_perm ?p" by (simp_all add: bad_va_def bad_perm_def PGOFF_def)
  from sys_page_alloc_ok [OF o(1,6), of envid ?va ?p] v free o(3) obtain s1 where
    s1: "sys_page_alloc envid ?va ?p s = Some (Returns 0 s1)" "call_post e 0 s s1" "alloc_done e ?va ?p s s1"
    unfolding t by auto
  then have f: "vm_frame s s1" by (simp add: alloc_done_def)
  note fr = vm_frame_fields [OF f]
  have iu: "in_use s1 = in_use s" by (simp add: in_use_def fr)
  have k1: "kinv s1" "curenv s1 = Some c" using s1(2) o(6) by (simp_all add: call_post_def)
  have id1: "envid2env envid True s1 = Some (Inr (Some e))"
    using o(3) by (simp only: envid2env_def fr)
  have e1: "e \<in> in_use s1" using o(4) iu by simp
  define s2 where "s2 = upd_env e (\<lambda>v. v\<lparr>env_pgfault_upcall := upcall\<rparr>) s1"
  have st: "env_status (envs s1 e) \<noteq> ENV_FREE" using e1 by (simp add: in_use_def)
  note u2 = upd_env_call [OF k1 e1 id1, of "\<lambda>v. v\<lparr>env_pgfault_upcall := upcall\<rparr>", folded s2_def, simplified, OF st]
  define s3 where "s3 = upd_env e (\<lambda>v. v\<lparr>env_status := ENV_RUNNABLE\<rparr>) s2"
  have e2: "e \<in> in_use s2" using e1 u2(2) by simp
  note u3 = upd_env_call [OF u2(1,3) e2 u2(4), of "\<lambda>v. v\<lparr>env_status := ENV_RUNNABLE\<rparr>", folded s3_def, simplified]
  have calls: "usys_page_alloc envid ?va ?p s = Some (Returns 0 s1)"
    "usys_env_set_pgfault_upcall envid upcall s1 = Some (Returns 0 s2)"
    "usys_env_set_status envid ENV_RUNNABLE s2 = Some (Returns 0 s3)"
    using s1(1) id1 u2(4)
    by (simp_all add: usys_page_alloc_eq usys_env_set_pgfault_upcall_def usys_env_set_status_def stub_def
        syscall_def sys_env_set_pgfault_upcall_def sys_env_set_status_def s2_def s3_def)
  from s1(3) obtain p where p: "p \<in> set (free_pages s)"
    "\<forall>v < UTOP. env_view e s1 v = (if PTE_ADDR v = ?va then page2pa p OR ?p else env_view e s v)"
    unfolding alloc_done_def by blast
  have ev: "envs s3 = (envs s)(e := (envs s e)\<lparr>env_pgfault_upcall := upcall, env_status := ENV_RUNNABLE\<rparr>)"
    by (simp add: s3_def s2_def upd_env_def fr)
  have "child_started e p upcall s s3"
    unfolding child_started_def ev using u3(1-3) u2(2) iu o(6) p s1(2) u2(5,6) u3(5,6) call_post_space [OF s1(2)]
    by (simp add: call_post_def or.assoc)
  with calls show ?thesis by (intro exI [of _ p] exI [of _ s3]) simp
qed

text \<open>
  C8. \<^verbatim>\<open>fork\<close> with a registered fault handler, when an environment is free and memory and reference
  counts have room: it returns the positive identifier of a new runnable child of the caller, with
  the caller's registers except that its call returns 0, and with the given upcall. Below
  \<^verbatim>\<open>USTACKTOP\<close> the child has the caller's user pages: a writable or copy-on-write page is now
  copy-on-write and read-only in both; a read-only page is mapped read-only; a page marked shared is
  shared if it is writable, and missing in the child if not; nothing else of the caller's space
  changed. The caller reads the bytes it read before, and the child the same ones wherever it has a
  page. The child has a writable exception stack of its own and nothing else. All other
  environments keep their mappings and bytes, and the kernel's invariant holds.
\<close>

theorem fork_correct:
  assumes "kinv s" and "running c s" and "pgfault_handler u \<noteq> 0" and "free_envs s \<noteq> []" and "fork_room c s"
  shows "\<exists>e p s'. fork upcall handler u s = Some (Returns (env_id (envs s' e), u\<lparr>pgfault_handler := handler\<rparr>) s') \<and>
    kinv s' \<and> e \<notin> in_use s \<and> in_use s' = insert e (in_use s) \<and>
    0 < sint (env_id (envs s' e)) \<and> env_parent_id (envs s' e) = env_id (envs s c) \<and>
    env_status (envs s' e) = ENV_RUNNABLE \<and> env_pgfault_upcall (envs s' e) = upcall \<and>
    env_tf (envs s' e) = (env_tf (envs s c))\<lparr>tf_regs := (tf_regs (env_tf (envs s c)))\<lparr>reg_eax := 0\<rparr>\<rparr> \<and>
    (\<forall>v < USTACKTOP. env_view e s' v = child_entry (env_view c s v) \<and> env_view c s' v = parent_entry (env_view c s v)) \<and>
    (\<forall>v < UTOP. USTACKTOP \<le> v \<longrightarrow> env_view c s' v = env_view c s v \<and> env_view e s' v =
       (if PTE_ADDR v = UXSTACKTOP - PGSIZE then page2pa p OR PTE_P OR PTE_W OR PTE_U else 0)) \<and>
    (\<forall>v < USTACKTOP. child_entry (env_view c s v) \<noteq> 0 \<longrightarrow> env_mem e s' v = env_mem c s v) \<and>
    env_mem c s' = env_mem c s \<and>
    (\<forall>i\<in>in_use s. i \<noteq> c \<longrightarrow> env_space i s' = env_space i s)"
proof -
  note k = assms(1)
  have c: "curenv s = Some c" using assms(2) by (simp add: running_def)
  have u: "c \<in> in_use s" by (rule kinvD(6) [OF k c])
  obtain e es where fe: "free_envs s = e # es" using assms(4) by (cases "free_envs s") auto
  obtain q qs where fp: "free_pages s = q # qs" using assms(5) by (cases "free_pages s") (auto simp: fork_room_def)
  from sys_exofork_child [OF k c fe fp] obtain s1 where
    s1: "sys_exofork s = Some (Returns (env_id (envs s1 e)) s1)" "child_made c e s s1" "alloc_frame (dirs s) s s1" by blast
  define envid where "envid = env_id (envs s1 e)"
  have ok1: "fork_ok c e envid s1" unfolding envid_def by (rule child_fork_ok [OF k assms(2) s1(2,3)])
  note room = child_room [OF k u assms(5) s1(2,3)]
  have new: "env_view e s1 v = 0" if "v < UTOP" for v using s1(2) that by (simp add: child_made_def)
  have old: "env_view i s1 = env_view i s" "envs s1 i = envs s i" "env_space i s1 = env_space i s" if "i \<in> in_use s" for i
    using s1(2) that by (simp_all add: child_made_def env_space_def)
  have iu: "in_use s1 = insert e (in_use s)" "e \<notin> in_use s" using s1(2) by (simp_all add: child_made_def)
  have pos: "0 < sint envid" using s1(2) by (simp add: child_made_def envid_def)
  have "\<exists>s'. fork_pages envid fork_addrs s1 = Some (Returns 0 s') \<and> fork_ok c e envid s' \<and> vm_frame s1 s' \<and>
    (\<forall>v < UTOP. env_view e s' v = (if PTE_ADDR v \<in> set fork_addrs then child_entry (env_view c s1 v) else env_view e s1 v)) \<and>
    (\<forall>v < UTOP. env_view c s' v = (if PTE_ADDR v \<in> set fork_addrs then parent_entry (env_view c s1 v) else env_view c s1 v)) \<and>
    env_mem c s' = env_mem c s1 \<and>
    (\<forall>i\<in>in_use s1. i \<noteq> c \<longrightarrow> i \<noteq> e \<longrightarrow> env_space i s' = env_space i s1) \<and>
    length (free_pages s1) \<le> length (free_pages s') + card (fork_pts c e (set fork_addrs) s1)"
  proof (rule fork_pages_forks [OF ok1 fork_addrs(1)])
    show "\<forall>a\<in>set fork_addrs. PTE_ADDR a = a \<and> a < UTOP \<and> env_view e s1 a = 0"
      using new by (auto simp: fork_addrs(2) word_less_nat_alt)
    show "\<forall>a\<in>set fork_addrs. user_page (env_view c s1 a) \<longrightarrow> fork_refs c fork_addrs s1 a < 65535" using room(2) by blast
    show "card (fork_pts c e (set fork_addrs) s1) \<le> length (free_pages s1)" using room(1) by linarith
  qed
  then obtain s2 where s2: "fork_pages envid fork_addrs s1 = Some (Returns 0 s2)" "fork_ok c e envid s2" "vm_frame s1 s2" and
    w2: "\<forall>v < UTOP. env_view e s2 v = (if PTE_ADDR v \<in> set fork_addrs then child_entry (env_view c s1 v) else env_view e s1 v)"
      "\<forall>v < UTOP. env_view c s2 v = (if PTE_ADDR v \<in> set fork_addrs then parent_entry (env_view c s1 v) else env_view c s1 v)"
      "\<forall>i\<in>in_use s1. i \<noteq> c \<longrightarrow> i \<noteq> e \<longrightarrow> env_space i s2 = env_space i s1" "env_mem c s2 = env_mem c s1" and
    free2: "length (free_pages s1) \<le> length (free_pages s2) + card (fork_pts c e (set fork_addrs) s1)" by blast
  have v2: "env_view e s2 v = (if v < USTACKTOP then child_entry (env_view c s v) else 0)"
    "env_view c s2 v = (if v < USTACKTOP then parent_entry (env_view c s v) else env_view c s v)" if "v < UTOP" for v
    using w2(1,2) that by (simp_all only: fork_addrs_page old(1) [OF u] new if_cancel)
  have others: "env_space i s2 = env_space i s" if "i \<in> in_use s" "i \<noteq> c" for i
    using w2(3) old(3) that iu by auto
  have len2: "2 \<le> length (free_pages s2)" using free2 room(1) by linarith
  note fr2 = vm_frame_fields [OF s2(3)]
  have iu2: "in_use s2 = in_use s1" by (simp add: in_use_def fr2)
  have nz: "envid \<noteq> 0" using pos by auto
  from fork_rest [OF s2(2) len2 nz, of upcall "(envid, u\<lparr>pgfault_handler := handler\<rparr>)"] obtain p s' where
    s': "child_started e p upcall s2 s'" and
    rest: "kbind (usys_page_alloc envid (UXSTACKTOP - PGSIZE) (PTE_P OR PTE_W OR PTE_U) s2) (\<lambda>r s.
      if sint r < 0 then upanic s
      else kbind (usys_env_set_pgfault_upcall envid upcall s) (\<lambda>r s.
        if sint r < 0 then upanic s
        else kbind (usys_env_set_status envid ENV_RUNNABLE s) (\<lambda>r s.
          if sint r < 0 then upanic s else Some (Returns (envid, u\<lparr>pgfault_handler := handler\<rparr>) s)))) =
      Some (Returns (envid, u\<lparr>pgfault_handler := handler\<rparr>) s')" by blast
  have ev: "envs s' e = (envs s1 e)\<lparr>env_pgfault_upcall := upcall, env_status := ENV_RUNNABLE\<rparr>"
    using s' by (simp add: child_started_def fr2)
  have "usys_exofork s = Some (Returns envid s1)"
    using s1(1) by (simp add: usys_exofork_def stub_def syscall_def envid_def)
  then have run: "fork upcall handler u s = Some (Returns (envid, u\<lparr>pgfault_handler := handler\<rparr>) s')"
    unfolding fork_def fork_addrs_def [symmetric] using assms(3) pos nz s2(1) rest
    by (simp add: set_pgfault_handler_def)
  have view: "env_view e s' v = (if PTE_ADDR v = UXSTACKTOP - PGSIZE then page2pa p OR PTE_P OR PTE_W OR PTE_U else env_view e s2 v)"
    "env_view c s' v = env_view c s2 v" "env_mem c s' = env_mem c s" if "v < UTOP" for v
    using s' that u iu iu2 w2(4) old(3) [OF u] by (auto simp: child_started_def env_space_def)
  have low: "v < UTOP" "PTE_ADDR v \<noteq> UXSTACKTOP - PGSIZE" if "v < USTACKTOP" for v
  proof -
    have "unat v < 4005552128" using that by (simp add: word_less_nat_alt)
    moreover from this have "unat (PTE_ADDR v) < 4005552128" by (simp add: unat_PTE_ADDR)
    ultimately show "v < UTOP" "PTE_ADDR v \<noteq> UXSTACKTOP - PGSIZE" by (auto simp: word_less_nat_alt)
  qed
  have child: "kinv s'" "in_use s' = insert e (in_use s)" "\<forall>i\<in>in_use s. i \<noteq> c \<longrightarrow> env_space i s' = env_space i s"
    using s' others iu iu2 by (auto simp: child_started_def)
  have made: "env_parent_id (envs s1 e) = env_id (envs s c)"
    "env_tf (envs s1 e) = (env_tf (envs s c))\<lparr>tf_regs := (tf_regs (env_tf (envs s c)))\<lparr>reg_eax := 0\<rparr>\<rparr>"
    using s1(2) by (simp_all add: child_made_def)
  show ?thesis
  proof (intro exI conjI)
    show "fork upcall handler u s = Some (Returns (env_id (envs s' e), u\<lparr>pgfault_handler := handler\<rparr>) s')"
      using run by (simp add: ev envid_def)
    show "kinv s'" "in_use s' = insert e (in_use s)" "\<forall>i\<in>in_use s. i \<noteq> c \<longrightarrow> env_space i s' = env_space i s"
      by (fact child)+
    show "env_mem c s' = env_mem c s" by (rule view(3) [of 0]) simp
    show "\<forall>v < USTACKTOP. child_entry (env_view c s v) \<noteq> 0 \<longrightarrow> env_mem e s' v = env_mem c s v"
    proof (intro allI impI)
      fix v assume v: "v < USTACKTOP" "child_entry (env_view c s v) \<noteq> 0"
      have "env_view e s' v = child_entry (env_view c s v)" "env_view c s' v = parent_entry (env_view c s v)"
        using view(1,2) v2 low [OF v(1)] v(1) by simp_all
      then have "env_mem e s' v = env_mem c s' v"
        using entries_alias [OF v(2)] u child(2) by (intro env_mem_alias [OF child(1) _ data_kept_same]) simp_all
      also have "\<dots> = env_mem c s v" using view(3) [of 0] by simp
      finally show "env_mem e s' v = env_mem c s v" .
    qed
    show "\<forall>v < USTACKTOP. env_view e s' v = child_entry (env_view c s v) \<and> env_view c s' v = parent_entry (env_view c s v)"
      using view v2 low by simp
    show "\<forall>v < UTOP. USTACKTOP \<le> v \<longrightarrow> env_view c s' v = env_view c s v \<and> env_view e s' v =
       (if PTE_ADDR v = UXSTACKTOP - PGSIZE then page2pa p OR PTE_P OR PTE_W OR PTE_U else 0)"
      using view v2 by (simp add: not_less [symmetric])
  qed (use pos made iu(2) in \<open>simp_all add: ev envid_def\<close>)
qed

theorem fork_correct_witness:
  "\<exists>e u s'. fork 0x800020 0x800040 \<lparr>thisenv = 0, pgfault_handler = 0x800040\<rparr> (cow_demo 0xC007) =
      Some (Returns (env_id (envs s' e), u) s') \<and>
    kinv s' \<and> env_status (envs s' e) = ENV_RUNNABLE \<and>
    env_view e s' 0x800000 = 0xC805 \<and> env_view 0 s' 0x800000 = 0xC805"
proof -
  have w: "pte_page 0xC007 = 12" by (simp add: PGNUM_def drop_bit_eq_div)
  have "user_slots 0 (cow_demo 0xC007) \<subseteq> {2}"
  proof
    fix i assume "i \<in> user_slots 0 (cow_demo 0xC007)"
    then obtain v where v: "i = PDX v" "v < USTACKTOP" "user_page (env_view 0 (cow_demo 0xC007) v)"
      by (auto simp: user_slots_def)
    have "v < UTOP" using v(2) by (rule less_trans) simp
    with v(3) have "PTE_ADDR v = PTE_ADDR 0x800000"
      by (auto simp: cow_view user_page_def PTE_ADDR_def split: if_splits)
    then have "PDX v = PDX 0x800000" by (simp only: same_page_iff)
    with v(1) show "i \<in> {2}" by (simp add: PDX_def drop_bit_eq_div)
  qed
  from card_mono [OF _ this] have "card (user_slots 0 (cow_demo 0xC007)) \<le> 1" by simp
  moreover have "unat (pp_ref (pages (cow_demo 0xC007) i)) + card (mapped (cow_demo 0xC007) 0xF0008000 i) < 65535" for i
    using cow_card [OF w, of i] by (auto simp: cow_page_def demo_page_def split: if_splits)
  ultimately have "fork_room 0 (cow_demo 0xC007)" by (simp add: fork_room_def cow_pages demo_env_def)
  from fork_correct [OF cow_kinv(1) [OF w] cow_running _ cow_kinv(2) [OF w] this,
      of "\<lparr>thisenv = 0, pgfault_handler = 0x800040\<rparr>" "0x800020" "0x800040"]
  obtain e s' u where s': "fork 0x800020 0x800040 \<lparr>thisenv = 0, pgfault_handler = 0x800040\<rparr> (cow_demo 0xC007) =
      Some (Returns (env_id (envs s' e), u) s')" "kinv s'" "env_status (envs s' e) = ENV_RUNNABLE"
    "\<forall>v < USTACKTOP. env_view e s' v = child_entry (env_view 0 (cow_demo 0xC007) v) \<and>
       env_view 0 s' v = parent_entry (env_view 0 (cow_demo 0xC007) v)" by auto
  have "env_view 0 (cow_demo 0xC007) 0x800000 = 0xC007" by (simp add: cow_view PTE_ADDR_def)
  moreover have "child_entry 0xC007 = 0xC805" "parent_entry 0xC007 = 0xC805"
    by (simp_all add: child_entry_def parent_entry_def user_page_def private_page_def cow_entry_def PTE_ADDR_def)
  ultimately have "env_view e s' 0x800000 = 0xC805 \<and> env_view 0 s' 0x800000 = 0xC805" using s'(4) by simp
  with s'(1-3) show ?thesis by blast
qed

end
