(* ===== verification/Cow_Props.thy ===== *)
theory Cow_Props
  imports Cow_Demo
begin

text \<open>
  A write to a copy-on-write page: the bytes of memory under byte stores, the copy of one page to
  another through the page tables, and the fault handler \<^verbatim>\<open>pgfault\<close> as a whole.
\<close>

section \<open>Bytes of memory\<close>

lemma byte_index: "unat (a AND 3 :: u32) \<in> {0, 1, 2, 3}"
proof -
  have "(3 :: u32) = mask 2" by (simp add: mask_eq_exp_minus_1)
  then have "unat (a AND 3) = unat a mod 4" by (simp only: unat_and_mask) simp
  then have "unat (a AND 3) < 4" by simp
  then show ?thesis by auto
qed

lemma word_byte_eq: "a AND NOT 3 = b AND NOT 3 \<Longrightarrow> a AND 3 = b AND 3 \<Longrightarrow> a = (b :: u32)"
proof (rule bit_word_eqI)
  fix n
  assume h: "a AND NOT 3 = b AND NOT 3" "a AND 3 = b AND 3" and n: "n < LENGTH(32)"
  have "bit (a AND NOT 3) n = bit (b AND NOT 3) n" "bit (a AND 3) n = bit (b AND 3) n" by (simp_all only: h)
  with n show "bit a n = bit b n" by (simp only: bit_and_iff bit_not_iff) auto
qed

lemma byte_replaced:
  fixes w :: u32 and v :: u8
  assumes "i \<in> {0, 1, 2, 3 :: nat}" and "j \<in> {0, 1, 2, 3}"
  shows "ucast (drop_bit (8 * j) ((w AND NOT (push_bit (8 * i) 0xFF)) OR push_bit (8 * i) (ucast v))) =
    (if i = j then v else ucast (drop_bit (8 * j) w))"
proof -
  have m: "(0xFF :: u32) = mask 8" by (simp add: mask_eq_exp_minus_1)
  show ?thesis
    unfolding m using assms by (intro bit_word_eqI) (auto simp: bit_simps dest: bit_imp_le_length)
qed

lemma ld8_st8: "ld8 (st8 a v m) b = (if b = a then v else ld8 m b)"
proof (cases "b AND NOT 3 = a AND NOT 3")
  case True
  have eq: "b = a \<longleftrightarrow> unat (a AND 3) = unat (b AND 3)"
    using True word_byte_eq [of a b] by (metis word_eq_unatI)
  show ?thesis
    unfolding ld8_def st8_def byte_of_def Let_def True fun_upd_same byte_replaced [OF byte_index byte_index] eq ..
next
  case False
  then show ?thesis by (auto simp: ld8_def st8_def byte_of_def Let_def)
qed

lemma st8_other: "a AND NOT 3 \<noteq> b \<Longrightarrow> st8 a v m b = m b"
  by (simp add: st8_def Let_def)

lemma in_page_offset: "PTE_ADDR b = b \<Longrightarrow> x < 4096 \<Longrightarrow> PTE_ADDR (b OR x) = b" "PTE_ADDR b = b \<Longrightarrow> x < 4096 \<Longrightarrow> PGOFF (b OR x) = x"
  using PTE_ADDR_entry [of b x] PGOFF_entry [of b x] PGOFF_PTE_ADDR [of b] by simp_all

section \<open>Copying a page\<close>

text \<open>
  The loop of \<^verbatim>\<open>memmove\<close> from a page at \<open>src\<close> to one at \<open>d\<close>, in frames \<open>Q\<close> and \<open>P\<close>, with \<open>n\<close> bytes to go:
  writing to \<open>P\<close> must not change the translation.
\<close>

lemma copy_up_page:
  assumes rd: "\<And>m v. \<forall>a. PTE_ADDR a \<noteq> P \<longrightarrow> m a = phys s a \<Longrightarrow> PTE_ADDR v = src \<Longrightarrow>
      mmu False v (s\<lparr>phys := m\<rparr>) = Some (Q OR PGOFF v)"
    and wr: "\<And>m v. \<forall>a. PTE_ADDR a \<noteq> P \<longrightarrow> m a = phys s a \<Longrightarrow> PTE_ADDR v = d \<Longrightarrow>
      mmu True v (s\<lparr>phys := m\<rparr>) = Some (P OR PGOFF v)"
    and al: "PGOFF src = 0" "PGOFF d = 0" "PTE_ADDR P = P" "PTE_ADDR Q = Q" "P \<noteq> Q"
    and n: "n \<le> 4096" and m0: "\<forall>a. PTE_ADDR a \<noteq> P \<longrightarrow> m0 a = phys s a"
  shows "\<exists>m. copy_up n (d + of_nat (4096 - n)) (src + of_nat (4096 - n)) (s\<lparr>phys := m0\<rparr>) = Some (s\<lparr>phys := m\<rparr>) \<and>
    (\<forall>a. PTE_ADDR a \<noteq> P \<longrightarrow> m a = phys s a) \<and>
    (\<forall>x < 4096. ld8 m (P OR x) = (if 4096 - n \<le> unat x then ld8 m0 (Q OR x) else ld8 m0 (P OR x)))"
  using n m0
proof (induction n arbitrary: m0)
  case 0
  have "unat x < 4096" if "x < 4096" for x :: u32 using that by (simp add: word_less_nat_alt)
  then have "\<not> 4096 \<le> unat x" if "x < 4096" for x :: u32 using that by (simp add: not_le)
  with 0 show ?case by (intro exI [of _ m0]) simp
next
  case (Suc n)
  define j where "j = 4096 - Suc n"
  have j: "j < 4096" "4096 - n = Suc j" using Suc.prems(1) by (simp_all add: j_def)
  have oj: "(of_nat j :: u32) < 4096" "unat (of_nat j :: u32) = j"
    using j(1) by (simp_all add: word_less_nat_alt unat_of_nat)
  have pg: "PTE_ADDR (b + of_nat j) = b" "PGOFF (b + of_nat j) = of_nat j" if "PGOFF b = 0" for b
  proof -
    show "PTE_ADDR (b + of_nat j) = b" using page_range_iff [OF that, of "b + of_nat j"] oj(1) by simp
    show "PGOFF (b + of_nat j) = of_nat j" using PGOFF_add_aligned [OF that, of "of_nat j"] oj(1) by (simp add: add.commute)
  qed
  define m1 where "m1 = st8 (P OR of_nat j) (ld8 m0 (Q OR of_nat j)) m0"
  have m1: "m1 a = m0 a" if "PTE_ADDR a \<noteq> P" for a
  proof -
    have "PTE_ADDR ((P OR of_nat j) AND NOT 3) = P"
      using byte_page [of P "of_nat j"] al(3) oj(1) by simp
    with that show ?thesis unfolding m1_def by (intro st8_other) metis
  qed
  have ag: "\<forall>a. PTE_ADDR a \<noteq> P \<longrightarrow> m1 a = phys s a" using m1 Suc.prems(2) by simp
  from Suc.IH [OF _ ag] Suc.prems(1) obtain m where
    m: "copy_up n (d + of_nat (4096 - n)) (src + of_nat (4096 - n)) (s\<lparr>phys := m1\<rparr>) = Some (s\<lparr>phys := m\<rparr>)"
    "\<forall>a. PTE_ADDR a \<noteq> P \<longrightarrow> m a = phys s a"
    "\<forall>x < 4096. ld8 m (P OR x) = (if 4096 - n \<le> unat x then ld8 m1 (Q OR x) else ld8 m1 (P OR x))" by auto
  have "copy_up (Suc n) (d + of_nat j) (src + of_nat j) (s\<lparr>phys := m0\<rparr>) = Some (s\<lparr>phys := m\<rparr>)"
    using rd [OF Suc.prems(2) pg(1) [OF al(1)]] wr [OF Suc.prems(2) pg(1) [OF al(2)]] m(1)
    by (simp add: vld8_def vst8_def pg(2) [OF al(1)] pg(2) [OF al(2)] m1_def [symmetric] j(2) ac_simps)
  moreover have "ld8 m (P OR x) = (if j \<le> unat x then ld8 m0 (Q OR x) else ld8 m0 (P OR x))" if x: "x < 4096" for x
  proof -
    have "Q OR x \<noteq> P OR of_nat j" using in_page_offset(1) x oj(1) al(3-5) by metis
    then have q: "ld8 m1 (Q OR x) = ld8 m0 (Q OR x)" by (simp add: m1_def ld8_st8)
    have "P OR x = P OR of_nat j \<longleftrightarrow> x = of_nat j" using in_page_offset(2) [OF al(3)] x oj(1) by metis
    then have p: "ld8 m1 (P OR x) = (if x = of_nat j then ld8 m0 (Q OR x) else ld8 m0 (P OR x))"
      by (simp add: m1_def ld8_st8)
    have "x = of_nat j \<longleftrightarrow> unat x = j" using oj(2) by (metis word_eq_unatI)
    with m(3) x p q j(2) show ?thesis by auto
  qed
  ultimately show ?case using m(2) unfolding j_def [symmetric] by blast
qed

section \<open>Writing to a data page\<close>

lemma data_write_spaces:
  assumes inv: "spaces_ok s D" and sh: "shared_data s D p"
    and m: "\<forall>a. PTE_ADDR a \<noteq> page2pa p \<longrightarrow> m a = phys s a"
  shows "spaces_ok (s\<lparr>phys := m\<rparr>) D"
    and "d \<in> D \<Longrightarrow> user_view d (s\<lparr>phys := m\<rparr>) = user_view d s"
    and "d \<in> D \<Longrightarrow> has_pt (s\<lparr>phys := m\<rparr>) d i = has_pt s d i"
    and "d \<in> D \<Longrightarrow> i < 1024 \<Longrightarrow> pde_of (s\<lparr>phys := m\<rparr>) d i = pde_of s d i"
proof -
  let ?s = "s\<lparr>phys := m\<rparr>"
  have ph: "phys ?s a = phys s a" if "d \<in> D" "PTE_ADDR a \<in> frames s d" for d a
  proof -
    have "PTE_ADDR a \<noteq> page2pa p" using that(2) shared_data_frame(1) [OF inv that(1) sh] by metis
    with m show ?thesis by simp
  qed
  have pd: "pgdir_ok s d" if "d \<in> D" for d using inv that by (simp add: spaces_ok_def)
  note v = view_footprint [OF pd ph]
  show "d \<in> D \<Longrightarrow> has_pt ?s d i = has_pt s d i" and pde: "d \<in> D \<Longrightarrow> i < 1024 \<Longrightarrow> pde_of ?s d i = pde_of s d i"
    for d i by (rule v(2), assumption+) (rule v(1), assumption+)
  have pte: "pte_of ?s d v = pte_of s d v" if "d \<in> D" "v < UTOP" for d v
    by (rule v(3) [OF that(1) that(1)]) (use user_slot(1) that in auto)
  then show "d \<in> D \<Longrightarrow> user_view d ?s = user_view d s" by (auto simp: user_view_def)
  have fr: "frames ?s d = frames s d" "own_frames ?s d = own_frames s d" if "d \<in> D" for d
    by (rule v(4) [OF that that], assumption) (rule v(5) [OF that that], assumption)
  have mp: "mapped ?s d i = mapped s d i" if "d \<in> D" for d i using pte [OF that] by (auto simp: mapped_def)
  have c: "pages_ok ?s = pages_ok s" "free_pages ?s = free_pages s" by (rule pages_ok_cong; simp)+
  have sd: "shared_data ?s D i = shared_data s D i" for i by (simp add: shared_data_def data_page_iff fr c)
  have "pgdir_ok ?s d" if "d \<in> D" for d
    by (rule pgdir_ok_transfer [OF pd [OF that]])
      (use ph that pgdir_okD(1) [OF pd [OF that]] c in \<open>simp_all add: frame_ok_def\<close>)
  moreover have "(\<Sum>d\<in>D. card (mapped ?s d i)) = (\<Sum>d\<in>D. card (mapped s d i))" for i
    by (rule sum.cong) (simp_all add: mp)
  ultimately show "spaces_ok ?s D"
    using inv unfolding spaces_ok_def by (auto simp: c fr sd pte)
qed

text \<open>The kernel's invariant and all mappings survive; bytes change in the page written only.\<close>

lemma data_write_kinv:
  assumes k: "kinv s" and sh: "shared_data s (dirs s) p"
    and m: "\<forall>a. PTE_ADDR a \<noteq> page2pa p \<longrightarrow> m a = phys s a"
  shows "kinv (s\<lparr>phys := m\<rparr>)" and "e \<in> in_use s \<Longrightarrow> env_view e (s\<lparr>phys := m\<rparr>) = env_view e s"
    and "e \<in> in_use s \<Longrightarrow> env_view e s v AND PTE_P = 0 \<or> pte_page (env_view e s v) \<noteq> p \<Longrightarrow>
      env_mem e (s\<lparr>phys := m\<rparr>) v = env_mem e s v"
proof -
  let ?s = "s\<lparr>phys := m\<rparr>"
  note w = data_write_spaces [OF kinvD(1) [OF k] sh m]
  have f: "vm_frame s ?s" by (simp add: vm_frame_def)
  show "kinv ?s" by (rule kinv_frame(1) [OF k f w(1)])
  show view: "env_view e ?s = env_view e s" if "e \<in> in_use s"
    using w(2) [OF kinvD(4) [OF k that]] by (simp add: env_view_def)
  show "env_mem e ?s v = env_mem e s v"
    if e: "e \<in> in_use s" and o: "env_view e s v AND PTE_P = 0 \<or> pte_page (env_view e s v) \<noteq> p"
  proof (cases "env_view e s v AND PTE_P = 0")
    case True
    then show ?thesis by (simp add: env_mem_def view [OF e])
  next
    case False
    note i = shared_data_frame(3) [OF kinvD(1,7) [OF k]]
    have "page2pa (pte_page (env_view e s v)) \<noteq> page2pa p"
      using o False page2pa_inj [OF i [OF env_view_shared [OF k e False]] i [OF sh]] by auto
    then have "PTE_ADDR ((PTE_ADDR (env_view e s v) OR PGOFF v) AND NOT 3) \<noteq> page2pa p"
      by (metis byte_page page2pa_PGNUM)
    with m show ?thesis by (simp only: env_mem_def Let_def view [OF e] ld8_def) simp
  qed
qed

text \<open>Translation of a user address is what the mapping says.\<close>

lemma mmu_view:
  assumes d: "cr3 s (cpunum_reg s) = env_pgdir (envs s c) - KERNBASE" and pd: "pgdir_ok s (env_pgdir (envs s c))"
    and p: "env_view c s v AND PTE_P \<noteq> 0"
    and w: "write \<Longrightarrow> env_view c s v AND PTE_W \<noteq> 0 \<and> pde_of s (env_pgdir (envs s c)) (PDX v) AND PTE_W \<noteq> 0"
  shows "mmu write v s = Some (PTE_ADDR (env_view c s v) OR PGOFF v)"
proof -
  let ?d = "env_pgdir (envs s c)"
  have v: "v < UTOP" using p env_view_high [of v c s] by (cases "v < UTOP") simp_all
  have pt: "has_pt s ?d (PDX v)" by (rule env_view_has_pt [OF v p])
  have e: "env_view c s v = phys s (PTE_ADDR (pde_of s ?d (PDX v)) + 4 * PTX v)"
    using pt v by (simp add: env_view_def user_view_def pte_of_def has_pt_def Let_def)
  have a: "PTE_ADDR (?d - KERNBASE) = ?d - KERNBASE" using pgdir_okD(1) [OF pd] by simp
  have pde: "phys s (?d - KERNBASE + 4 * PDX v) = pde_of s ?d (PDX v)" by (simp only: pde_of_def)
  have "pde_of s ?d (PDX v) AND PTE_P \<noteq> 0" using pt by (simp add: has_pt_def)
  with p w show ?thesis
    unfolding mmu_def Let_def d a pde e [symmetric] by (cases "write") simp_all
qed

section \<open>Copying through the page tables\<close>

text \<open>Pages that no two mappings share.\<close>

definition private_to :: "nat \<Rightarrow> u32 \<Rightarrow> nat \<Rightarrow> kstate \<Rightarrow> bool" where
  "private_to c a p s \<longleftrightarrow> (\<forall>i\<in>in_use s. \<forall>v. env_view i s v AND PTE_P \<noteq> 0 \<longrightarrow>
     pte_page (env_view i s v) = p \<longrightarrow> i = c \<and> PTE_ADDR v = a)"

lemma pages_apart:
  assumes "PGOFF a = 0" and "PTE_ADDR b = b" and "a \<noteq> b"
  shows "\<not> (a < b \<and> a + PGSIZE > b)"
proof
  assume h: "a < b \<and> a + PGSIZE > b"
  have "unat (a + PGSIZE) \<le> unat a + 4096" by (simp add: unat_word_ariths)
  with h have "unat b < unat a + 4096" by (simp add: word_less_nat_alt)
  moreover have "unat (b - a) = unat b - unat a" by (rule unat_sub) (use h in \<open>simp add: less_imp_le\<close>)
  moreover have "unat a < unat b" using h by (simp add: word_less_nat_alt)
  ultimately have "b - a < 4096" by (simp add: word_less_nat_alt)
  then have "PTE_ADDR b = a" using page_range_iff [OF assms(1)] by simp
  with assms(2,3) show False by simp
qed

lemma copy_page:
  assumes k: "kinv s" and c: "c \<in> in_use s" and cr: "cr3 s (cpunum_reg s) = env_pgdir (envs s c) - KERNBASE"
    and al: "PTE_ADDR dst = dst" "PTE_ADDR src = src"
    and d: "env_view c s dst AND PTE_P \<noteq> 0" "env_view c s dst AND PTE_W \<noteq> 0"
      "pde_of s (env_pgdir (envs s c)) (PDX dst) AND PTE_W \<noteq> 0"
    and sr: "env_view c s src AND PTE_P \<noteq> 0" and ne: "src \<noteq> dst"
    and priv: "private_to c dst (pte_page (env_view c s dst)) s"
  shows "\<exists>m. memmove dst src PGSIZE s = Some (s\<lparr>phys := m\<rparr>) \<and> kinv (s\<lparr>phys := m\<rparr>) \<and>
    (\<forall>e\<in>in_use s. env_view e (s\<lparr>phys := m\<rparr>) = env_view e s) \<and>
    (\<forall>e\<in>in_use s. e \<noteq> c \<longrightarrow> env_mem e (s\<lparr>phys := m\<rparr>) = env_mem e s) \<and>
    (\<forall>v. env_mem c (s\<lparr>phys := m\<rparr>) v = (if PTE_ADDR v = dst then env_mem c s (src OR PGOFF v) else env_mem c s v))"
proof -
  let ?d = "env_pgdir (envs s c)" and ?p = "pte_page (env_view c s dst)"
  let ?P = "PTE_ADDR (env_view c s dst)" and ?Q = "PTE_ADDR (env_view c s src)"
  have P: "page2pa ?p = ?P" by (rule page2pa_PGNUM)
  have sh: "shared_data s (dirs s) ?p" by (rule env_view_shared [OF k c d(1)])
  have dD: "?d \<in> dirs s" by (rule kinvD(4) [OF k c])
  have off: "PGOFF src = 0" "PGOFF dst = 0" by (metis al PGOFF_PTE_ADDR)+
  have pq: "?P \<noteq> ?Q"
  proof
    assume "?P = ?Q"
    then have "pte_page (env_view c s src) = ?p" by (metis PGNUM_PTE_ADDR)
    with priv c sr have "PTE_ADDR src = dst" by (simp add: private_to_def)
    with ne al show False by simp
  qed
  have at: "mmu wr v (s\<lparr>phys := m\<rparr>) = Some (PTE_ADDR (env_view c s a) OR PGOFF v)"
    if m: "\<forall>a. PTE_ADDR a \<noteq> ?P \<longrightarrow> m a = phys s a" and v: "PTE_ADDR v = a" and a: "PTE_ADDR a = a"
      and p: "env_view c s a AND PTE_P \<noteq> 0"
      and w: "wr \<Longrightarrow> env_view c s a AND PTE_W \<noteq> 0 \<and> pde_of s ?d (PDX a) AND PTE_W \<noteq> 0" for wr v m a
  proof -
    have m': "\<forall>a. PTE_ADDR a \<noteq> page2pa ?p \<longrightarrow> m a = phys s a" using m by (simp only: P)
    note kw = data_write_kinv [OF k sh m'] and sw = data_write_spaces [OF kinvD(1) [OF k] sh m']
    have va: "env_view c s v = env_view c s a" "PDX v = PDX a"
      using env_view_page [of v a c s] same_page_iff [of v a] v a by simp_all
    have "pgdir_ok (s\<lparr>phys := m\<rparr>) ?d" using sw(1) dD by (simp add: spaces_ok_def)
    moreover have "pde_of (s\<lparr>phys := m\<rparr>) ?d (PDX a) = pde_of s ?d (PDX a)" by (rule sw(4) [OF dD]) simp
    ultimately show ?thesis
      using mmu_view [of "s\<lparr>phys := m\<rparr>" c v wr] cr p w by (simp add: kw(2) [OF c] va)
  qed
  have Pa: "PTE_ADDR ?P = ?P" "PTE_ADDR ?Q = ?Q" by simp_all
  have "\<exists>m. copy_up 4096 (dst + of_nat (4096 - 4096)) (src + of_nat (4096 - 4096)) (s\<lparr>phys := phys s\<rparr>) = Some (s\<lparr>phys := m\<rparr>) \<and>
    (\<forall>a. PTE_ADDR a \<noteq> ?P \<longrightarrow> m a = phys s a) \<and>
    (\<forall>x < 4096. ld8 m (?P OR x) = (if 4096 - 4096 \<le> unat x then ld8 (phys s) (?Q OR x) else ld8 (phys s) (?P OR x)))"
    by (rule copy_up_page [OF at at off Pa pq]) (use al d sr in simp_all)
  then obtain m where run: "copy_up 4096 dst src s = Some (s\<lparr>phys := m\<rparr>)"
    and m: "\<forall>a. PTE_ADDR a \<noteq> ?P \<longrightarrow> m a = phys s a" and cp: "\<forall>x < 4096. ld8 m (?P OR x) = ld8 (phys s) (?Q OR x)"
    by auto
  have m': "\<forall>a. PTE_ADDR a \<noteq> page2pa ?p \<longrightarrow> m a = phys s a" using m by (simp only: P)
  note kw = data_write_kinv [OF k sh m']
  have "memmove dst src PGSIZE s = Some (s\<lparr>phys := m\<rparr>)"
    using pages_apart [OF off(1) al(1) ne] run by (auto simp: memmove_def)
  moreover have "env_mem e (s\<lparr>phys := m\<rparr>) = env_mem e s" if "e \<in> in_use s" "e \<noteq> c" for e
  proof
    fix v
    show "env_mem e (s\<lparr>phys := m\<rparr>) v = env_mem e s v"
      by (rule kw(3) [OF that(1)]) (use priv that in \<open>auto simp: private_to_def\<close>)
  qed
  moreover have "env_mem c (s\<lparr>phys := m\<rparr>) v = (if PTE_ADDR v = dst then env_mem c s (src OR PGOFF v) else env_mem c s v)" for v
  proof (cases "PTE_ADDR v = dst")
    case True
    then have "env_view c s v = env_view c s dst" using env_view_page [of v dst c s] al by simp
    moreover have "env_view c s (src OR PGOFF v) = env_view c s src" "PGOFF (src OR PGOFF v) = PGOFF v"
      using in_page [OF al(2), of v] env_view_page [of "src OR PGOFF v" src c s] al by simp_all
    ultimately show ?thesis using True cp d(1) sr by (simp add: env_mem_def Let_def kw(2) [OF c])
  next
    case False
    have "env_mem c (s\<lparr>phys := m\<rparr>) v = env_mem c s v"
      by (rule kw(3) [OF c]) (use priv c False in \<open>auto simp: private_to_def\<close>)
    with False show ?thesis by simp
  qed
  ultimately show ?thesis using kw(1,2) by (intro exI [of _ m]) auto
qed

section \<open>The fault handler\<close>

lemma PGNUM_PGSIZE: "PGNUM v * PGSIZE = PTE_ADDR v" "unat (PGNUM v) < 1048576"
proof -
  have "page2pa (unat (PGNUM v)) = PGNUM v * PGSIZE"
    unfolding page2pa_def push_bit_eq_mult by simp
  then show "PGNUM v * PGSIZE = PTE_ADDR v" by (simp only: page2pa_PGNUM)
  show "unat (PGNUM v) < 1048576"
    using unat_u32_less [of v] by (simp add: unat_PGNUM div_less_iff_less_mult)
qed

text \<open>
  The first two calls of the handler: the page is mapped at \<^verbatim>\<open>PFTEMP\<close> too, and replaced at its own
  address by a fresh one.
\<close>

lemma cow_replaced:
  assumes k: "kinv s" and c: "curenv s = Some c" and a: "PTE_ADDR a = a" "a < UTOP" "a \<noteq> PFTEMP"
    and w: "env_view c s a AND PTE_P \<noteq> 0" and ref: "unat (pp_ref (pages s (pte_page (env_view c s a)))) < 65535"
    and room: "3 \<le> length (free_pages s)"
  shows "\<exists>p s1 s2. usys_page_map 0 a 0 PFTEMP (PTE_U OR PTE_P) s = Some (Returns 0 s1) \<and>
    usys_page_alloc 0 a (PTE_W OR PTE_U OR PTE_P) s1 = Some (Returns 0 s2) \<and> kinv s2 \<and> vm_frame s s2 \<and>
    private_to c a p s2 \<and> p < 1048576 \<and>
    (\<forall>v < UTOP. env_view c s2 v = (if PTE_ADDR v = a then page2pa p OR PTE_W OR PTE_U OR PTE_P
       else if PTE_ADDR v = PFTEMP then PTE_ADDR (env_view c s a) OR PTE_U OR PTE_P else env_view c s v)) \<and>
    (\<forall>v. PTE_ADDR v \<noteq> a \<longrightarrow>
       env_mem c s2 v = (if PTE_ADDR v = PFTEMP then env_mem c s (a OR PGOFF v) else env_mem c s v)) \<and>
    (\<forall>i\<in>in_use s. i \<noteq> c \<longrightarrow> env_space i s2 = env_space i s) \<and>
    pde_of s2 (env_pgdir (envs s c)) (PDX a) = pde_of s (env_pgdir (envs s c)) (PDX a)"
proof -
  let ?d = "env_pgdir (envs s c)" and ?w = "env_view c s a"
  have u: "c \<in> in_use s" by (rule kinvD(6) [OF k c])
  have self: "envid2env 0 True s' = Some (Inr (Some c))" if "curenv s' = Some c" for s'
    using that by (simp add: envid2env_def)
  have pm: "\<not> bad_perm (PTE_U OR PTE_P)" "\<not> bad_perm (PTE_W OR PTE_U OR PTE_P)" by (simp_all add: bad_perm_def)
  have "PGOFF a = 0" using PGOFF_PTE_ADDR [of a] a(1) by simp
  then have va: "\<not> bad_va a" "\<not> bad_va PFTEMP" using a(2) by (auto simp: bad_va_def PGOFF_def not_le)
  have ok: "map_valid c a PFTEMP (PTE_U OR PTE_P) s" using pm(1) va w by (simp add: map_valid_def)
  from sys_page_map_valid [OF k c self [OF c] u self [OF c] u ok ref] room obtain s1 where
    s1: "sys_page_map 0 a 0 PFTEMP (PTE_U OR PTE_P) s = Some (Returns 0 s1)" "call_post c 0 s s1"
    "map_done c a c PFTEMP (PTE_U OR PTE_P) s s1" by auto
  have c1: "kinv s1" "curenv s1 = Some c" using s1(2) c by (simp_all add: call_post_def)
  have d1: "vm_frame s s1" "insert_cost ?d PFTEMP (pte_page ?w) s s1" using s1(3) by (simp_all add: map_done_def)
  note f1 = vm_frame_fields [OF d1(1)]
  have iu1: "in_use s1 = in_use s" by (simp add: in_use_def f1)
  have "2 \<le> length (free_pages s1)" using d1(2) room by (simp add: insert_cost_def split: if_splits)
  with sys_page_alloc_ok [OF c1, of 0 a "PTE_W OR PTE_U OR PTE_P"] self [OF c1(2)] va(1) pm(2) obtain s2 where
    s2: "sys_page_alloc 0 a (PTE_W OR PTE_U OR PTE_P) s1 = Some (Returns 0 s2)" "call_post c 0 s1 s2"
    "alloc_done c a (PTE_W OR PTE_U OR PTE_P) s1 s2" by (auto simp: target_def)
  from s2(3) obtain p where p: "p \<in> set (free_pages s1)"
    "\<forall>v < UTOP. env_view c s2 v = (if PTE_ADDR v = a then page2pa p OR (PTE_W OR PTE_U OR PTE_P) else env_view c s1 v)"
    unfolding alloc_done_def by blast
  have lt: "p < 1048576"
    using p(1) pages_okD(2,4) [of s1] kinvD(1) [OF c1(1)] by (force simp: spaces_ok_def)
  have others: "env_space i s2 = env_space i s1" "env_space i s2 = env_space i s" if "i \<in> in_use s" "i \<noteq> c" for i
    using call_post_space [OF s1(2), of i] call_post_space [OF s2(2), of i] that iu1 by simp_all
  have views: "env_view c s2 v = (if PTE_ADDR v = a then page2pa p OR PTE_W OR PTE_U OR PTE_P
       else if PTE_ADDR v = PFTEMP then PTE_ADDR ?w OR PTE_U OR PTE_P else env_view c s v)" if "v < UTOP" for v
    using p(2) s1(3) that by (simp add: map_done_def)
  have mem: "env_mem c s2 v = (if PTE_ADDR v = PFTEMP then env_mem c s (a OR PGOFF v) else env_mem c s v)"
    if "PTE_ADDR v \<noteq> a" for v
    using alloc_done_mem [OF c1(1) _ s2(3) pm(2), of v] map_done_mem [OF k u u ok s1(3), of v] that u iu1 by simp
  have "private_to c a p s2"
    unfolding private_to_def
  proof (intro ballI allI impI)
    fix i v assume i: "i \<in> in_use s2" and v: "env_view i s2 v AND PTE_P \<noteq> 0" "pte_page (env_view i s2 v) = p"
    have i': "i \<in> in_use s1" using i s2(3) vm_frame_fields(4) [of s1 s2] by (simp add: alloc_done_def in_use_def)
    have vu: "v < UTOP" using v(1) env_view_high [of v i s2] by (cases "v < UTOP") simp_all
    show "i = c \<and> PTE_ADDR v = a"
    proof (rule ccontr)
      assume "\<not> ?thesis"
      then have "env_view i s2 v = env_view i s1 v"
        using others(1) [of i] p(2) vu i' iu1 by (cases "i = c") (auto simp: env_space_def)
      with v view_not_free [OF c1(1) i' vu] p(1) show False by simp
    qed
  qed
  moreover have "pde_of s2 ?d (PDX a) = pde_of s ?d (PDX a)"
  proof -
    have "tables_kept ?d s s2"
      using tables_kept_trans [OF insert_cost_tables [OF d1(2)]] s2(3) by (simp add: alloc_done_def f1)
    with env_view_has_pt [OF a(2) w] show ?thesis by (simp add: tables_kept_def)
  qed
  moreover have "kinv s2" "vm_frame s s2"
    using s2(2,3) vm_frame_trans [OF d1(1)] by (auto simp: call_post_def alloc_done_def)
  ultimately show ?thesis
    using s1(1) s2(1) lt views mem others(2)
    by (intro exI [of _ p] exI [of _ s1] exI [of _ s2]) (auto simp: usys_page_map_eq usys_page_alloc_eq)
qed

text \<open>The rest of the handler: the copy, and the removal of the temporary mapping.\<close>

lemma cow_finished:
  assumes k: "kinv s" and c: "curenv s = Some c" and cr: "cr3 s (cpunum_reg s) = env_pgdir (envs s c) - KERNBASE"
    and a: "PTE_ADDR a = a" "a \<noteq> PFTEMP"
    and w: "env_view c s a AND PTE_P \<noteq> 0" "env_view c s a AND PTE_W \<noteq> 0"
      "pde_of s (env_pgdir (envs s c)) (PDX a) AND PTE_W \<noteq> 0"
    and src: "env_view c s PFTEMP AND PTE_P \<noteq> 0" and priv: "private_to c a (pte_page (env_view c s a)) s"
  shows "\<exists>s1 s'. memmove a PFTEMP PGSIZE s = Some s1 \<and> usys_page_unmap 0 PFTEMP s1 = Some (Returns 0 s') \<and>
    kinv s' \<and> vm_frame s s' \<and>
    (\<forall>v < UTOP. if PTE_ADDR v = PFTEMP then env_view c s' v AND PTE_P = 0 else env_view c s' v = env_view c s v) \<and>
    (\<forall>v. PTE_ADDR v \<noteq> PFTEMP \<longrightarrow>
       env_mem c s' v = (if PTE_ADDR v = a then env_mem c s (PFTEMP OR PGOFF v) else env_mem c s v)) \<and>
    (\<forall>i\<in>in_use s. i \<noteq> c \<longrightarrow> env_space i s' = env_space i s)"
proof -
  have u: "c \<in> in_use s" by (rule kinvD(6) [OF k c])
  have tmp: "PTE_ADDR PFTEMP = PFTEMP" "\<not> bad_va PFTEMP" by (simp_all add: PTE_ADDR_def bad_va_def PGOFF_def)
  from copy_page [OF k u cr a(1) tmp(1) w src a(2) [symmetric] priv] obtain m where
    m: "memmove a PFTEMP PGSIZE s = Some (s\<lparr>phys := m\<rparr>)" "kinv (s\<lparr>phys := m\<rparr>)"
    "\<forall>i\<in>in_use s. env_view i (s\<lparr>phys := m\<rparr>) = env_view i s"
    "\<forall>i\<in>in_use s. i \<noteq> c \<longrightarrow> env_mem i (s\<lparr>phys := m\<rparr>) = env_mem i s"
    "\<forall>v. env_mem c (s\<lparr>phys := m\<rparr>) v = (if PTE_ADDR v = a then env_mem c s (PFTEMP OR PGOFF v) else env_mem c s v)"
    by blast
  define s1 where "s1 = s\<lparr>phys := m\<rparr>"
  note m = m [folded s1_def]
  have f: "vm_frame s s1" by (simp add: vm_frame_def s1_def)
  have c1: "curenv s1 = Some c" and iu: "in_use s1 = in_use s" using c by (simp_all add: s1_def curenv_def in_use_def)
  have t: "target c 0 = c" "envid2env 0 True s1 = Some (Inr (Some c))" using c1 by (simp_all add: target_def envid2env_def)
  obtain s' where s': "sys_page_unmap 0 PFTEMP s1 = Some (Returns 0 s')" "call_post c 0 s1 s'" "vm_frame s1 s'"
    "\<forall>v. PTE_ADDR v \<noteq> PFTEMP \<longrightarrow> env_mem c s' v = env_mem c s1 v"
    "\<forall>v < UTOP. if PTE_ADDR v = PFTEMP then env_view c s' v AND PTE_P = 0 else env_view c s' v = env_view c s1 v"
    using sys_page_unmap_ok [OF m(2) c1, of 0 PFTEMP, unfolded t] tmp(2) by auto
  have view: "env_view i s1 = env_view i s" if "i \<in> in_use s" for i using m(3) that by blast
  have "env_space i s' = env_space i s" if "i \<in> in_use s" "i \<noteq> c" for i
    using call_post_space [OF s'(2), of i] view [OF that(1)] m(4) that iu by (simp add: env_space_def)
  moreover have "env_mem c s' v = (if PTE_ADDR v = a then env_mem c s (PFTEMP OR PGOFF v) else env_mem c s v)"
    if "PTE_ADDR v \<noteq> PFTEMP" for v using s'(4) m(5) that by simp
  moreover have "usys_page_unmap 0 PFTEMP s1 = Some (Returns 0 s')" using s'(1) by (simp add: usys_page_unmap_eq)
  moreover have "kinv s'" "vm_frame s s'" using s'(2) vm_frame_trans [OF f s'(3)] by (simp_all add: call_post_def)
  ultimately show ?thesis
    using m(1) s'(5) view [OF u] by (intro exI [of _ s1] exI [of _ s']) simp
qed

lemma private_to_kept:
  assumes p: "private_to c a p s" and iu: "in_use s' = in_use s"
    and o: "\<forall>i\<in>in_use s. i \<noteq> c \<longrightarrow> env_space i s' = env_space i s"
    and v: "\<forall>v < UTOP. if PTE_ADDR v = b then env_view c s' v AND PTE_P = 0 else env_view c s' v = env_view c s v"
  shows "private_to c a p s'"
  unfolding private_to_def
proof (intro ballI allI impI)
  fix i u assume i: "i \<in> in_use s'" and w: "env_view i s' u AND PTE_P \<noteq> 0" "pte_page (env_view i s' u) = p"
  have lt: "u < UTOP" using w(1) env_view_high [of u i s'] by (cases "u < UTOP") simp_all
  have "env_view i s' u = env_view i s u"
  proof (cases "i = c")
    case True
    with w(1) v lt show ?thesis by (cases "PTE_ADDR u = b") auto
  next
    case False
    with o i iu show ?thesis by (simp add: env_space_def)
  qed
  with p i iu w show "i = c \<and> PTE_ADDR u = a" unfolding private_to_def by metis
qed

text \<open>
  C9. The fault handler on a write to a present copy-on-write page of the running environment, with a
  writable page directory entry, when a reference count and three free pages are left: it returns,
  the page is mapped writable, by a fresh page that no other mapping of any environment shares, and
  reads byte for byte as before. The temporary mapping is gone again, every other mapping and byte of
  the environment is as it was, all other environments keep theirs, and the kernel's invariant holds.
\<close>

theorem pgfault_correct:
  assumes "kinv s" and "running c s" and "err AND FEC_WR \<noteq> 0" and "PTE_ADDR va \<noteq> PFTEMP"
    and "env_view c s va AND PTE_P \<noteq> 0" and "env_view c s va AND PTE_COW \<noteq> 0"
    and "pde_of s (env_pgdir (envs s c)) (PDX va) AND PTE_W \<noteq> 0"
    and "unat (pp_ref (pages s (pte_page (env_view c s va)))) < 65535" and "3 \<le> length (free_pages s)"
  shows "\<exists>p s'. pgfault va err s = Some (Returns () s') \<and> kinv s' \<and> vm_frame s s' \<and>
    (\<forall>v < UTOP. if PTE_ADDR v = PFTEMP then env_view c s' v AND PTE_P = 0
       else env_view c s' v = (if PTE_ADDR v = PTE_ADDR va then page2pa p OR PTE_W OR PTE_U OR PTE_P else env_view c s v)) \<and>
    (\<forall>i\<in>in_use s. \<forall>v. env_view i s' v AND PTE_P \<noteq> 0 \<longrightarrow> pte_page (env_view i s' v) = p \<longrightarrow>
       i = c \<and> PTE_ADDR v = PTE_ADDR va) \<and>
    (\<forall>v. PTE_ADDR v \<noteq> PFTEMP \<longrightarrow> env_mem c s' v = env_mem c s v) \<and>
    (\<forall>i\<in>in_use s. i \<noteq> c \<longrightarrow> env_space i s' = env_space i s)"
proof -
  define a where "a = PTE_ADDR va"
  let ?d = "env_pgdir (envs s c)"
  note k = assms(1)
  have c: "curenv s = Some c" and cr: "cr3 s (cpunum_reg s) = ?d - KERNBASE" using assms(2) by (simp_all add: running_def Let_def)
  have u: "c \<in> in_use s" by (rule kinvD(6) [OF k c])
  have lt: "va < UTOP" using assms(5) env_view_high [of va c s] by (cases "va < UTOP") simp_all
  have a: "PTE_ADDR a = a" "a < UTOP" "a \<noteq> PFTEMP" "PDX a = PDX va" "env_view c s a = env_view c s va"
    using lt page_below [of va] assms(4) same_page_iff [of "PTE_ADDR va" va] env_view_page [of "PTE_ADDR va" va c s]
    by (simp_all add: a_def)
  have pd: "pgdir_ok s ?d" using kinvD(1,4) [OF k] u by (auto simp: spaces_ok_def)
  have "uvpt (PGNUM va) s = Some (env_view c s a)"
    using uvpt_reads [OF assms(2) pd PGNUM_PGSIZE(2), of va] env_view_has_pt [OF lt assms(5)] a(2,4)
    by (simp add: PGNUM_PGSIZE a_def [symmetric]) (simp add: env_view_def user_view_def)
  then have read: "uvpt (PGNUM va) s = Some (env_view c s va)" by (simp only: a(5))
  from cow_replaced [OF k c a(1-3), unfolded a(5), OF assms(5,8,9)] obtain p s1 s2 where
    s1: "usys_page_map 0 a 0 PFTEMP (PTE_U OR PTE_P) s = Some (Returns 0 s1)" and
    s2: "usys_page_alloc 0 a (PTE_W OR PTE_U OR PTE_P) s1 = Some (Returns 0 s2)" "kinv s2" "vm_frame s s2" and
    p: "private_to c a p s2" "p < 1048576" and
    v2: "\<forall>v < UTOP. env_view c s2 v = (if PTE_ADDR v = a then page2pa p OR PTE_W OR PTE_U OR PTE_P
       else if PTE_ADDR v = PFTEMP then PTE_ADDR (env_view c s va) OR PTE_U OR PTE_P else env_view c s v)" and
    m2: "\<forall>v. PTE_ADDR v \<noteq> a \<longrightarrow>
       env_mem c s2 v = (if PTE_ADDR v = PFTEMP then env_mem c s (a OR PGOFF v) else env_mem c s v)" and
    o2: "\<forall>i\<in>in_use s. i \<noteq> c \<longrightarrow> env_space i s2 = env_space i s" and
    pde: "pde_of s2 ?d (PDX a) = pde_of s ?d (PDX a)" by blast
  note f2 = vm_frame_fields [OF s2(3)]
  have iu: "in_use s2 = in_use s" by (simp add: in_use_def f2)
  have tmp: "PTE_ADDR PFTEMP = PFTEMP" by (simp add: PTE_ADDR_def)
  have e: "env_view c s2 a = page2pa p OR PTE_W OR PTE_U OR PTE_P"
    "env_view c s2 PFTEMP = PTE_ADDR (env_view c s va) OR PTE_U OR PTE_P"
    using v2 a(1-3) tmp by auto
  have pp: "pte_page (env_view c s2 a) = p" using entry_page(1) [OF p(2), of "PTE_W OR PTE_U"] by (simp add: e or.assoc)
  have bits: "env_view c s2 a AND PTE_P \<noteq> 0" "env_view c s2 a AND PTE_W \<noteq> 0" "env_view c s2 PFTEMP AND PTE_P \<noteq> 0"
    unfolding e by (simp_all add: bit.conj_disj_distrib2)
  have c2: "curenv s2 = Some c" "cr3 s2 (cpunum_reg s2) = env_pgdir (envs s2 c) - KERNBASE" using c cr by (simp_all add: f2)
  have w2: "pde_of s2 (env_pgdir (envs s2 c)) (PDX a) AND PTE_W \<noteq> 0" using pde a(4) assms(7) by (simp add: f2)
  from cow_finished [OF s2(2) c2 a(1,3) bits(1,2) w2 bits(3) p(1) [folded pp]] obtain s3 s' where
    s': "memmove a PFTEMP PGSIZE s2 = Some s3" "usys_page_unmap 0 PFTEMP s3 = Some (Returns 0 s')" "kinv s'" "vm_frame s2 s'" and
    v': "\<forall>v < UTOP. if PTE_ADDR v = PFTEMP then env_view c s' v AND PTE_P = 0 else env_view c s' v = env_view c s2 v" and
    m': "\<forall>v. PTE_ADDR v \<noteq> PFTEMP \<longrightarrow>
       env_mem c s' v = (if PTE_ADDR v = a then env_mem c s2 (PFTEMP OR PGOFF v) else env_mem c s2 v)" and
    o': "\<forall>i\<in>in_use s2. i \<noteq> c \<longrightarrow> env_space i s' = env_space i s2" by blast
  have iu': "in_use s' = in_use s2" using vm_frame_fields(4) [OF s'(4)] by (simp add: in_use_def)
  have priv: "private_to c a p s'" by (rule private_to_kept [OF p(1) iu' o' v'])
  have "env_mem c s' v = env_mem c s v" if v: "PTE_ADDR v \<noteq> PFTEMP" for v
  proof (cases "PTE_ADDR v = a")
    case True
    have "env_mem c s2 (PFTEMP OR PGOFF v) = env_mem c s (a OR PGOFF v)" using m2 in_page [OF tmp, of v] a(3) by simp
    with True m' v PTE_ADDR_PGOFF [of v] show ?thesis by simp
  next
    case False
    with m' m2 v show ?thesis by simp
  qed
  moreover have "pgfault va err s = Some (Returns () s')"
    using s1 s2(1) s'(1,2) assms(3,6) read by (simp add: pgfault_def ROUNDDOWN_page a_def [symmetric])
  moreover have "if PTE_ADDR v = PFTEMP then env_view c s' v AND PTE_P = 0
      else env_view c s' v = (if PTE_ADDR v = a then page2pa p OR PTE_W OR PTE_U OR PTE_P else env_view c s v)"
    if "v < UTOP" for v using v' v2 that by simp
  ultimately show ?thesis
    using s'(3) vm_frame_trans [OF s2(3) s'(4)] o' o2 priv iu iu'
    by (intro exI [of _ p] exI [of _ s']) (simp add: a_def private_to_def)
qed

theorem pgfault_correct_witness:
  "\<exists>p s'. pgfault 0x800123 7 (cow_demo 0xC805) = Some (Returns () s') \<and> kinv s' \<and>
    env_view 0 s' 0x800000 = page2pa p OR PTE_W OR PTE_U OR PTE_P \<and>
    env_mem 0 s' 0x800123 = env_mem 0 (cow_demo 0xC805) 0x800123"
proof -
  let ?s = "cow_demo 0xC805"
  have w: "pte_page 0xC805 = 12" by (simp add: PGNUM_def drop_bit_eq_div)
  have a: "PTE_ADDR 0x800123 = 0x800000" "PTE_ADDR 0x800000 = 0x800000" by (simp_all add: PTE_ADDR_def)
  then have v: "env_view 0 ?s 0x800123 = 0xC805" by (simp add: cow_view)
  have i: "PDX 0x800123 = 2" by (simp add: PDX_def drop_bit_eq_div)
  have "pde_of ?s (env_pgdir (envs ?s 0)) (PDX 0x800123) AND PTE_W \<noteq> 0"
    unfolding i by (simp add: demo_env_def cow_pde)
  moreover have "unat (pp_ref (pages ?s (pte_page (env_view 0 ?s 0x800123)))) < 65535"
    unfolding v w by (simp add: cow_page_def demo_page_def)
  ultimately obtain p s' where s': "pgfault 0x800123 7 ?s = Some (Returns () s')" "kinv s'"
    "\<forall>v < UTOP. if PTE_ADDR v = PFTEMP then env_view 0 s' v AND PTE_P = 0
       else env_view 0 s' v = (if PTE_ADDR v = PTE_ADDR 0x800123 then page2pa p OR PTE_W OR PTE_U OR PTE_P else env_view 0 ?s v)"
    "\<forall>v. PTE_ADDR v \<noteq> PFTEMP \<longrightarrow> env_mem 0 s' v = env_mem 0 ?s v"
    using pgfault_correct [OF cow_kinv(1) [OF w] cow_running, of 7 "0x800123"] v a by (auto simp: cow_pages)
  have "env_view 0 s' 0x800000 = page2pa p OR PTE_W OR PTE_U OR PTE_P" using s'(3) [rule_format, of "0x800000"] a by simp
  moreover have "env_mem 0 s' 0x800123 = env_mem 0 ?s 0x800123" using s'(4) [rule_format, of "0x800123"] a by simp
  ultimately show ?thesis using s'(1,2) by blast
qed

end
