(* ===== verification/Env_Free.thy ===== *)
theory Env_Free
  imports Cow_Demo
begin

text \<open>
  Freeing an environment: \<^verbatim>\<open>env_free\<close> unmaps every user page, frees every page table and the
  directory, and returns the slot. What it takes from the page tables to the free list, what each
  shared page loses, and that nobody else notices.
\<close>

section \<open>What is released\<close>

text \<open>The directory and the page tables of a space have one reference each and are in no list.\<close>

definition space_owned :: "kstate \<Rightarrow> u32 \<Rightarrow> bool" where
  "space_owned s d \<longleftrightarrow>
     (\<forall>f\<in>own_frames s d. pp_ref (pages s (pte_page f)) = 1 \<and> pp_link (pages s (pte_page f)) = None)"

text \<open>
  From \<open>s\<close> to \<open>s'\<close> environment \<open>e\<close> lost mappings and page tables and gained none: page tables gone are
  free, and a data page has lost exactly the references of the mappings gone, and is free if none is
  left. Nothing else changed.
\<close>

definition released :: "nat \<Rightarrow> kstate \<Rightarrow> kstate \<Rightarrow> bool" where
  "released e s s' \<longleftrightarrow> (let d = env_pgdir (envs s e); D = dirs s in
     call_post e 0 s s' \<and> vm_frame s s' \<and> space_owned s' d \<and>
     (\<forall>i. has_pt s' d i \<longrightarrow> has_pt s d i \<and> pde_of s' d i = pde_of s d i) \<and>
     (\<forall>f\<in>own_frames s d. f \<in> own_frames s' d \<or> pte_page f \<in> set (free_pages s')) \<and>
     set (free_pages s) \<subseteq> set (free_pages s') \<and>
     (\<forall>i. shared_data s D i \<longrightarrow> i \<in> set (free_pages s') \<or> shared_data s' D i) \<and>
     (\<forall>i. shared_data s D i \<longrightarrow>
        unat (pp_ref (pages s' i)) + card (mapped s d i) = unat (pp_ref (pages s i)) + card (mapped s' d i) \<and>
        (pp_ref (pages s' i) = 0 \<longrightarrow> pp_ref (pages s i) = 0 \<or> i \<in> set (free_pages s'))))"

lemma releasedD:
  assumes "released e s s'"
  shows "call_post e 0 s s'" "vm_frame s s'" "space_owned s' (env_pgdir (envs s e))"
    "has_pt s' (env_pgdir (envs s e)) i \<Longrightarrow>
       has_pt s (env_pgdir (envs s e)) i \<and> pde_of s' (env_pgdir (envs s e)) i = pde_of s (env_pgdir (envs s e)) i"
    "f \<in> own_frames s (env_pgdir (envs s e)) \<Longrightarrow>
       f \<in> own_frames s' (env_pgdir (envs s e)) \<or> pte_page f \<in> set (free_pages s')"
    "set (free_pages s) \<subseteq> set (free_pages s')"
    "shared_data s (dirs s) i' \<Longrightarrow> i' \<in> set (free_pages s') \<or> shared_data s' (dirs s) i'"
    "shared_data s (dirs s) i' \<Longrightarrow> unat (pp_ref (pages s' i')) + card (mapped s (env_pgdir (envs s e)) i') =
       unat (pp_ref (pages s i')) + card (mapped s' (env_pgdir (envs s e)) i')"
    "shared_data s (dirs s) i' \<Longrightarrow> pp_ref (pages s' i') = 0 \<Longrightarrow> pp_ref (pages s i') = 0 \<or> i' \<in> set (free_pages s')"
  using assms unfolding released_def Let_def by blast+

lemma released_fields:
  assumes "released e s s'" and "kinv s" and "e \<in> in_use s"
  shows "kinv s'" "envs s' = envs s" "dirs s' = dirs s" "in_use s' = in_use s" "e \<in> in_use s'"
proof -
  note f = vm_frame_fields [OF releasedD(2) [OF assms(1)]]
  show "kinv s'" using releasedD(1) [OF assms(1)] by (simp add: call_post_def)
  show "envs s' = envs s" "in_use s' = in_use s" "dirs s' = dirs s" "e \<in> in_use s'"
    using assms(3) by (simp_all add: in_use_def dirs_def f)
qed

lemma released_refl: "kinv s \<Longrightarrow> space_owned s (env_pgdir (envs s e)) \<Longrightarrow> released e s s"
  by (simp add: released_def)

lemma released_trans:
  assumes k: "kinv s" and e: "e \<in> in_use s" and 1: "released e s s1" and 2: "released e s1 s2"
  shows "released e s s2"
proof -
  let ?d = "env_pgdir (envs s e)" and ?D = "dirs s"
  note f = released_fields [OF 1 k e]
  note g = released_fields [OF 2 f(1,5)]
  note A = releasedD [OF 1] and B = releasedD [OF 2, unfolded f(2,3)]
  have data: "(i \<in> set (free_pages s2) \<or> shared_data s2 ?D i) \<and>
      unat (pp_ref (pages s2 i)) + card (mapped s ?d i) = unat (pp_ref (pages s i)) + card (mapped s2 ?d i) \<and>
      (pp_ref (pages s2 i) = 0 \<longrightarrow> pp_ref (pages s i) = 0 \<or> i \<in> set (free_pages s2))"
    if i: "shared_data s ?D i" for i
  proof (cases "i \<in> set (free_pages s1)")
    case True
    then have fr: "i \<in> set (free_pages s2)" using B(6) by blast
    have m: "mapped s' ?d i = {} \<and> pp_ref (pages s' i) = 0" if "kinv s'" "env_pgdir (envs s' e) = ?d" "e \<in> in_use s'"
      "i \<in> set (free_pages s')" for s'
    proof -
      have z: "pp_ref (pages s' i) = 0"
        using kinvD(1) [OF that(1)] that(4) pages_okD(3) [of s' i] by (simp add: spaces_ok_def)
      then show ?thesis using mapped_le_ref [OF kinvD(1,4) [OF that(1)], OF that(3), of i] that(2) by simp
    qed
    show ?thesis using m [of s1] m [of s2] f g True fr A(8) [OF i] by simp
  next
    case False
    with A(7) [OF i] have i1: "shared_data s1 ?D i" by blast
    from A(8,9) [OF i] B(7-9) [OF i1] B(6) show ?thesis by auto
  qed
  have "call_post e 0 s s2" by (rule call_post_trans [OF A(1) B(1)]) simp
  moreover have "vm_frame s s2" by (rule vm_frame_trans [OF A(2) B(2)])
  moreover have "has_pt s ?d i \<and> pde_of s2 ?d i = pde_of s ?d i" if "has_pt s2 ?d i" for i
    using B(4) [OF that] A(4) [of i] by simp
  moreover have "x \<in> own_frames s2 ?d \<or> pte_page x \<in> set (free_pages s2)" if "x \<in> own_frames s ?d" for x
    using A(5) [OF that] B(5) [of x] B(6) by blast
  ultimately show ?thesis
    unfolding released_def Let_def using A(6) B(3,6) data by blast
qed

section \<open>One page\<close>

lemma own_frame_page: "f \<in> own_frames s d \<Longrightarrow> PGOFF d = 0 \<Longrightarrow> page2pa (pte_page f) = f"
  using own_frames_sub [of s d] frame_page [of f s d] by (auto simp: page2pa_PGNUM)

lemma frames_by_tables:
  assumes "has_pt s' d = has_pt s d" and "\<And>i. i < 1024 \<Longrightarrow> pde_of s' d i = pde_of s d i"
  shows "frames s' d = frames s d" and "own_frames s' d = own_frames s d"
  using assms has_pt_slot(2) by (auto simp: own_frames_def frames_def image_iff)

text \<open>A data page that is not freed stays one when no space gains a frame.\<close>

lemma shared_data_stays:
  assumes "shared_data s D i" and "i \<notin> set (free_pages s')" and "npages s' = npages s"
    and "pp_link (pages s' i) = pp_link (pages s i)" and "\<And>d. d \<in> D \<Longrightarrow> frames s' d \<subseteq> frames s d"
  shows "shared_data s' D i"
  using assms by (auto simp: shared_data_def data_page_iff)

lemma page_remove_released:
  assumes k: "kinv s" and e: "e \<in> in_use s" and own: "space_owned s (env_pgdir (envs s e))"
    and va: "va < UTOP" and m: "pte_of s (env_pgdir (envs s e)) va AND PTE_P \<noteq> 0"
  shows "\<exists>s'. page_remove (env_pgdir (envs s e)) va s = Some s' \<and> released e s s' \<and>
    has_pt s' (env_pgdir (envs s e)) = has_pt s (env_pgdir (envs s e)) \<and>
    (\<forall>v. tree_slot (PDX v) \<longrightarrow> pte_of s' (env_pgdir (envs s e)) v =
       (if PTE_ADDR v = PTE_ADDR va then 0 else pte_of s (env_pgdir (envs s e)) v))"
proof -
  let ?d = "env_pgdir (envs s e)" and ?D = "dirs s" and ?old = "pte_page (pte_of s (env_pgdir (envs s e)) va)"
  have d: "?d \<in> ?D" by (rule kinvD(4) [OF k e])
  note inv = kinvD(1) [OF k]
  have ok: "pages_ok s" and pd: "pgdir_ok s ?d" using inv d by (simp_all add: spaces_ok_def)
  from remove_local_change [OF inv d va m] obtain s' where
    s': "page_remove ?d va s = Some s'" "local_change ?d ?D s s'" "vm_frame s s'" and
    pte: "\<And>v. tree_slot (PDX v) \<Longrightarrow> pte_of s' ?d v = (if PTE_ADDR v = PTE_ADDR va then 0 else pte_of s ?d v)" and
    ref: "\<And>i. pp_ref (pages s' i) = pp_ref (pages s i) - (if i = ?old then 1 else 0)" and
    tab: "has_pt s' ?d = has_pt s ?d" "\<And>i. i < 1024 \<Longrightarrow> pde_of s' ?d i = pde_of s ?d i" and
    fr: "set (free_pages s) \<subseteq> set (free_pages s')" "pp_ref (pages s ?old) = 1 \<Longrightarrow> ?old \<in> set (free_pages s')"
    by metis
  note cp = call_post_change [OF k e s'(3,2)]
  have pd': "pages_ok s'" "pgdir_ok s' ?d" using s'(2) by (simp_all add: local_change_def)
  note frm = frames_by_tables [OF tab]
  have oldD: "shared_data s ?D ?old" using inv d va m by (simp add: spaces_ok_def)
  have link: "pp_link (pages s' i) = pp_link (pages s i)" if "i \<notin> set (free_pages s')" for i
    using s'(2) that fr(1) by (auto simp: local_change_def)
  have data: "i \<in> set (free_pages s') \<or> shared_data s' ?D i" if i: "shared_data s ?D i" for i
  proof (cases "i \<in> set (free_pages s')")
    case False
    have "frames s' d' \<subseteq> frames s d'" if "d' \<in> ?D" for d'
      using frm(1) local_change_other(2) [OF inv s'(2) d that] by (cases "d' = ?d") simp_all
    then show ?thesis
      using shared_data_stays [OF i False _ link [OF False]] vm_frame_fields(1) [OF s'(3)] by blast
  qed simp
  have count: "unat (pp_ref (pages s' i)) + card (mapped s ?d i) = unat (pp_ref (pages s i)) + card (mapped s' ?d i)" for i
  proof -
    have m': "mapped s' ?d i = mapped s ?d i - {PTE_ADDR va}" using mapped_upd [OF pte va, of i] by simp
    have iff: "PTE_ADDR va \<in> mapped s ?d i \<longleftrightarrow> i = ?old" using mapped_at [OF va, of s ?d i] m by auto
    show ?thesis
    proof (cases "i = ?old")
      case True
      with iff have "0 < card (mapped s ?d i)" by (auto simp: card_gt_0_iff)
      with True m' iff ref mapped_le_ref [OF inv d, of i] show ?thesis by (simp add: ref_decrement)
    qed (use m' iff ref in simp)
  qed
  have own': "space_owned s' ?d"
    unfolding space_owned_def
  proof
    fix f assume f: "f \<in> own_frames s' ?d"
    have pf: "page2pa (pte_page f) = f" by (rule own_frame_page [OF f pgdir_okD(1) [OF pd]])
    have in_fr: "f \<in> frames s' ?d" "f \<in> frames s ?d" using f frm own_frames_sub by blast+
    then have "pte_page f \<noteq> ?old" using shared_data_frame(1) [OF inv d oldD] pf by metis
    moreover have "pte_page f \<notin> set (free_pages s')"
      using frames_not_free [OF pd' in_fr(1)] pf by (auto simp: free_frames_def image_iff)
    moreover have "f \<in> own_frames s ?d" using f frm by simp
    ultimately show "pp_ref (pages s' (pte_page f)) = 1 \<and> pp_link (pages s' (pte_page f)) = None"
      using own ref [of "pte_page f"] link by (simp add: space_owned_def)
  qed
  have "pp_ref (pages s' i) = 0 \<longrightarrow> pp_ref (pages s i) = 0 \<or> i \<in> set (free_pages s')" for i
    using ref [of i] fr(2) by (cases "i = ?old") auto
  then have "released e s s'"
    unfolding released_def Let_def using cp(1) s'(3) own' fr(1) data count frm(2) tab has_pt_slot(2) by auto
  with s'(1) tab(1) pte show ?thesis by blast
qed

section \<open>One page table\<close>

lemma slot_address:
  assumes "i < 955" and "j < 1024"
  defines "va \<equiv> PGADDR (of_nat i) (of_nat j) 0"
  shows "PDX va = of_nat i" "PTX va = of_nat j" "va < UTOP"
proof -
  have b: "(of_nat i :: u32) < 1024" "(of_nat j :: u32) < 1024"
    using assms(1,2) by (simp_all add: word_less_nat_alt unat_of_nat)
  show x: "PDX va = of_nat i" "PTX va = of_nat j" using PGADDR_parts [OF b, of 0] by (simp_all add: va_def)
  then have "unat va div 4194304 < 955" using assms(1) unat_PDX [of va] by (simp add: unat_of_nat)
  then show "va < UTOP" by (simp add: word_less_nat_alt div_less_iff_less_mult)
qed

text \<open>One entry: a mapping there is removed, and no other entry becomes present.\<close>

lemma env_free_pte_released:
  assumes k: "kinv s" and e: "e \<in> in_use s" and own: "space_owned s (env_pgdir (envs s e))"
    and i: "i < 955" and j: "j < 1024" and pt: "has_pt s (env_pgdir (envs s e)) (of_nat i)"
  defines "d \<equiv> env_pgdir (envs s e)"
  shows "\<exists>s'. env_free_pte e i (PTE_ADDR (pde_of s d (of_nat i)) + KERNBASE) j s = Some s' \<and> released e s s' \<and>
    has_pt s' d = has_pt s d \<and>
    (\<forall>v. tree_slot (PDX v) \<longrightarrow> (pte_of s d v AND PTE_P = 0 \<or> PDX v = of_nat i \<and> PTX v = of_nat j \<longrightarrow> pte_of s' d v AND PTE_P = 0))"
proof -
  define va where "va = PGADDR (of_nat i) (of_nat j) 0"
  note a = slot_address [OF i j, folded va_def]
  have same: "PTE_ADDR v = PTE_ADDR va \<longleftrightarrow> PDX v = of_nat i \<and> PTX v = of_nat j" for v by (simp add: same_page_iff a)
  have w: "ld s (PTE_ADDR (pde_of s d (of_nat i)) + KERNBASE + 4 * of_nat j) = pte_of s d va"
    using pt by (simp add: ld_def pte_of_def a has_pt_def d_def Let_def algebra_simps)
  have eq: "pte_of s d v = pte_of s d va" if "PTE_ADDR v = PTE_ADDR va" for v
    using that by (simp add: same_page_iff pte_of_def Let_def)
  show ?thesis
  proof (cases "pte_of s d va AND PTE_P = 0")
    case True
    then have "env_free_pte e i (PTE_ADDR (pde_of s d (of_nat i)) + KERNBASE) j s = Some s"
      unfolding env_free_pte_def w by simp
    moreover have "released e s s" by (rule released_refl [OF k own])
    moreover have "pte_of s d v AND PTE_P = 0" if "PDX v = of_nat i" "PTX v = of_nat j" for v
      using True eq [of v] same that by simp
    ultimately show ?thesis by blast
  next
    case False
    from page_remove_released [OF k e own a(3) False [unfolded d_def]] obtain s' where
      s': "page_remove d va s = Some s'" "released e s s'" "has_pt s' d = has_pt s d"
      "\<forall>v. tree_slot (PDX v) \<longrightarrow> pte_of s' d v = (if PTE_ADDR v = PTE_ADDR va then 0 else pte_of s d v)"
      unfolding d_def by blast
    have "env_free_pte e i (PTE_ADDR (pde_of s d (of_nat i)) + KERNBASE) j s = Some s'"
      using False s'(1) unfolding env_free_pte_def w by (simp add: d_def va_def)
    moreover have "pte_of s' d v AND PTE_P = 0"
      if "tree_slot (PDX v)" "pte_of s d v AND PTE_P = 0 \<or> PDX v = of_nat i \<and> PTX v = of_nat j" for v
      using s'(4) that same [of v] by auto
    ultimately show ?thesis using s'(2,3) by blast
  qed
qed

lemma env_free_ptes_released:
  assumes k: "kinv s" and e: "e \<in> in_use s" and own: "space_owned s (env_pgdir (envs s e))"
    and i: "i < 955" and js: "set js \<subseteq> {..<1024}" and pt: "has_pt s (env_pgdir (envs s e)) (of_nat i)"
  defines "d \<equiv> env_pgdir (envs s e)"
  shows "\<exists>s'. foldM (env_free_pte e i (PTE_ADDR (pde_of s d (of_nat i)) + KERNBASE)) js s = Some s' \<and> released e s s' \<and>
    has_pt s' d = has_pt s d \<and>
    (\<forall>v. tree_slot (PDX v) \<longrightarrow> (pte_of s d v AND PTE_P = 0 \<or> PDX v = of_nat i \<and> unat (PTX v) \<in> set js \<longrightarrow>
       pte_of s' d v AND PTE_P = 0))"
  using k e own js pt unfolding d_def
proof (induction js arbitrary: s)
  case Nil
  then show ?case using released_refl by auto
next
  case (Cons j js)
  let ?d = "env_pgdir (envs s e)" and ?p = "PTE_ADDR (pde_of s (env_pgdir (envs s e)) (of_nat i)) + KERNBASE"
  have j: "j < 1024" using Cons.prems(4) by simp
  from env_free_pte_released [OF Cons.prems(1-3) i j Cons.prems(5)] obtain s1 where
    s1: "env_free_pte e i ?p j s = Some s1" "released e s s1" "has_pt s1 ?d = has_pt s ?d"
    "\<forall>v. tree_slot (PDX v) \<longrightarrow> (pte_of s ?d v AND PTE_P = 0 \<or> PDX v = of_nat i \<and> PTX v = of_nat j \<longrightarrow> pte_of s1 ?d v AND PTE_P = 0)"
    by blast
  note f = released_fields [OF s1(2) Cons.prems(1,2)]
  have pde: "pde_of s1 ?d (of_nat i) = pde_of s ?d (of_nat i)"
    using releasedD(4) [OF s1(2), of "of_nat i"] s1(3) Cons.prems(5) by simp
  from Cons.IH [of s1, unfolded f(2)] f(1,5) releasedD(3) [OF s1(2)] Cons.prems(4,5) s1(3) obtain s2 where
    s2: "foldM (env_free_pte e i ?p) js s1 = Some s2" "released e s1 s2" "has_pt s2 ?d = has_pt s1 ?d"
    "\<forall>v. tree_slot (PDX v) \<longrightarrow> (pte_of s1 ?d v AND PTE_P = 0 \<or> PDX v = of_nat i \<and> unat (PTX v) \<in> set js \<longrightarrow>
       pte_of s2 ?d v AND PTE_P = 0)"
    unfolding pde by auto
  have "released e s s2" by (rule released_trans [OF Cons.prems(1,2) s1(2) s2(2)])
  moreover have "PTX v = of_nat j" if "unat (PTX v) = j" for v
    using that j by (intro word_eq_unatI) (simp add: unat_of_nat)
  ultimately show ?case using s1 s2 by (intro exI [of _ s2]) (auto simp: s2(3))
qed

section \<open>Dropping a page table\<close>

lemma slot_offset_inj: "i < 1024 \<Longrightarrow> j < 1024 \<Longrightarrow> b + 4 * i = b + 4 * j \<longleftrightarrow> i = (j :: u32)"
proof -
  assume "i < 1024" "j < 1024"
  then have "unat (4 * i) = 4 * unat i" "unat (4 * j) = 4 * unat j"
    by (simp_all add: word_less_nat_alt unat_word_ariths)
  then have "i = j" if "4 * i = 4 * j"
    using arg_cong [OF that, of unat] by (intro word_eq_unatI) linarith
  then show ?thesis by auto
qed

lemma slot_cleared_view:
  assumes pd: "pgdir_ok s d" and i: "has_pt s d i" and ph: "phys s' = (phys s)(d - KERNBASE + 4 * i := 0)"
  shows "j < 1024 \<Longrightarrow> pde_of s' d j = (if j = i then 0 else pde_of s d j)"
    and "has_pt s' d j \<longleftrightarrow> has_pt s d j \<and> j \<noteq> i"
    and "tree_slot (PDX v) \<Longrightarrow> pte_of s' d v = (if PDX v = i then 0 else pte_of s d v)"
    and "frames s' d \<subseteq> frames s d" and "own_frames s' d \<subseteq> own_frames s d"
    and "f \<in> own_frames s d \<Longrightarrow> f \<in> own_frames s' d \<or> f = PTE_ADDR (pde_of s d i)"
    and "PTE_ADDR (pde_of s d i) \<notin> frames s' d"
proof -
  show pde: "pde_of s' d j = (if j = i then 0 else pde_of s d j)" if "j < 1024" for j
    using slot_offset_inj [OF that has_pt_slot(2) [OF i], of "d - KERNBASE"] by (simp add: pde_of_def ph)
  show hp: "has_pt s' d j \<longleftrightarrow> has_pt s d j \<and> j \<noteq> i" for j
    by (cases "j < 1024") (auto simp: has_pt_def tree_slot_def pde)
  show "pte_of s' d v = (if PDX v = i then 0 else pte_of s d v)" if t: "tree_slot (PDX v)"
  proof (cases "has_pt s' d (PDX v)")
    case True
    then have h: "has_pt s d (PDX v)" "PDX v \<noteq> i" using hp by blast+
    have "PTE_ADDR (PTE_ADDR (pde_of s d (PDX v)) + 4 * PTX v) = PTE_ADDR (pde_of s d (PDX v))" by simp
    moreover have "PTE_ADDR (d - KERNBASE + 4 * i) = d - KERNBASE" using pgdir_okD(1) [OF pd] has_pt_slot(2) [OF i] by simp
    ultimately have "PTE_ADDR (pde_of s d (PDX v)) + 4 * PTX v \<noteq> d - KERNBASE + 4 * i"
      using pgdir_okD(4) [OF pd h(1)] by metis
    then show ?thesis using h(2) pde [of "PDX v"] by (simp add: pte_of_def Let_def ph)
  next
    case False
    then have "pte_of s' d v = 0" by (rule pte_of_no_pt [OF t])
    moreover have "pte_of s d v = 0" if "PDX v \<noteq> i" using False hp that pte_of_no_pt [OF t] by blast
    ultimately show ?thesis by simp
  qed
  have same: "pde_of s' d j = pde_of s d j" if "has_pt s' d j" for j
    using that pde [of j] hp [of j] has_pt_slot(2) [OF that] by simp
  show "frames s' d \<subseteq> frames s d" "own_frames s' d \<subseteq> own_frames s d"
    using hp same by (auto simp: frames_def own_frames_def)
  show "f \<in> own_frames s d \<Longrightarrow> f \<in> own_frames s' d \<or> f = PTE_ADDR (pde_of s d i)"
    using hp same by (force simp: own_frames_def)
  show "PTE_ADDR (pde_of s d i) \<notin> frames s' d"
    using hp same pgdir_okD(4,5) [OF pd] i by (auto simp: frames_def)
qed

lemma drop_table_local:
  assumes inv: "spaces_ok s D" and d: "d \<in> D" and i: "has_pt s d i" "i < PDX UTOP"
    and own: "space_owned s d" and empty: "\<And>v. PDX v = i \<Longrightarrow> pte_of s d v AND PTE_P = 0"
  shows "\<exists>s'. page_decref (pte_page (pde_of s d i)) (st (d + 4 * i) 0 s) = Some s' \<and>
    local_change d D s s' \<and> vm_frame s s' \<and> phys s' = (phys s)(d - KERNBASE + 4 * i := 0) \<and>
    free_pages s' = pte_page (pde_of s d i) # free_pages s \<and> mapped s' d = mapped s d \<and>
    (\<forall>j. j \<noteq> pte_page (pde_of s d i) \<longrightarrow> pp_ref (pages s' j) = pp_ref (pages s j))"
proof -
  let ?p = "pte_page (pde_of s d i)"
  define s1 where "s1 = st (d + 4 * i) 0 s"
  have ok: "pages_ok s" and pd: "pgdir_ok s d" using inv d by (simp_all add: spaces_ok_def)
  have f: "PTE_ADDR (pde_of s d i) \<in> own_frames s d" using i by (simp add: own_frames_def)
  have P: "page2pa ?p = PTE_ADDR (pde_of s d i)" by (rule page2pa_PGNUM)
  have p: "?p < unat (npages s)" "?p \<notin> set (free_pages s)" "pp_ref (pages s ?p) = 1" "pp_link (pages s ?p) = None"
    using pgdir_okD(3) [OF pd i(1)] own f by (auto simp: frame_ok_def word_less_nat_alt space_owned_def)
  have s1: "pages_ok s1" "free_pages s1 = free_pages s" "pages s1 = pages s" "npages s1 = npages s"
    using pages_ok_cong [of s1 s] ok by (simp_all add: s1_def st_def)
  from page_decref_last [OF s1(1), of ?p] p s1 obtain s' where
    s': "page_decref ?p s1 = Some s'" "pages_ok s'" "free_pages s' = ?p # free_pages s" by auto
  note dec = page_decref_state [OF s'(1)]
  have ph: "phys s' = (phys s)(d - KERNBASE + 4 * i := 0)" and n: "npages s' = npages s"
    using dec s1(4) by (auto simp: s1_def phys_st algebra_simps)
  note V = slot_cleared_view [OF pd i(1) ph]
  have ref: "pp_ref (pages s' j) = (if j = ?p then 0 else pp_ref (pages s j))" for j using dec s1(3) p(3) by auto
  have m: "mapped s' d = mapped s d"
  proof
    fix j
    have "pte_of s' d v AND PTE_P \<noteq> 0 \<and> pte_page (pte_of s' d v) = j \<longleftrightarrow> pte_of s d v AND PTE_P \<noteq> 0 \<and> pte_page (pte_of s d v) = j"
      if "v < UTOP" for v using V(3) [OF user_slot(1) [OF that]] empty [of v] by auto
    then show "mapped s' d j = mapped s d j" by (auto simp: mapped_def)
  qed
  have fr: "frame_ok s' a" if "frame_ok s a" "PTE_ADDR a \<noteq> PTE_ADDR (pde_of s d i)" for a
    using that s'(3) n by (auto simp: frame_ok_def) (metis page2pa_PGNUM)
  have "pgdir_ok s' d"
  proof -
    have "PTE_ADDR (d - KERNBASE) \<noteq> PTE_ADDR (pde_of s d i)"
      using pgdir_okD(1) [OF pd] pgdir_okD(4) [OF pd i(1)] by simp
    then have "frame_ok s' (d - KERNBASE)" by (rule fr [OF pgdir_okD(2) [OF pd]])
    moreover have "frame_ok s' (pde_of s d j)" if "has_pt s d j" "j \<noteq> i" for j
      by (rule fr [OF pgdir_okD(3) [OF pd that(1)]]) (use pgdir_okD(5) [OF pd that(1) i(1)] that(2) in simp)
    ultimately show ?thesis
      unfolding pgdir_ok_def using pgdir_okD [OF pd] V(1,2) by auto
  qed
  moreover have "phys s' a = phys s a" if "PTE_ADDR a \<notin> own_frames s d \<union> free_frames s" for a
    using that pgdir_okD(1) [OF pd] has_pt_slot(2) [OF i(1)] by (auto simp: ph)
  moreover have "pp_link (pages s' j) = pp_link (pages s j)" if "j \<notin> set (free_pages s')" for j
    using page_decref_links [OF s'(1,2) that] s1(3) by simp
  moreover have "shared_data s D (pte_page (pte_of s' d v))" if v: "v < UTOP" "pte_of s' d v AND PTE_P \<noteq> 0" for v
    using V(3) [OF user_slot(1) [OF v(1)]] v inv d by (auto simp: spaces_ok_def split: if_splits)
  moreover have "unat (pp_ref (pages s j)) + card (mapped s' d j) \<le> unat (pp_ref (pages s' j)) + card (mapped s d j)"
    if "page2pa j \<notin> own_frames s d" for j using that f P by (auto simp: ref m)
  moreover have "j \<in> set (free_pages s) \<or> shared_data s D j \<or> page2pa j \<in> own_frames s d" if "j \<in> set (free_pages s')" for j
    using that s'(3) f P by auto
  ultimately have "local_change d D s s'"
    unfolding local_change_def using s'(2) n V(4,5) by blast
  moreover have "vm_frame s s'"
    using vm_frame_trans [OF vm_frame_st vm_frame_decref [OF s'(1) [unfolded s1_def]]] .
  ultimately show ?thesis using s' ph m ref by (intro exI [of _ s']) (simp add: s1_def)
qed

lemma drop_table_released:
  assumes k: "kinv s" and e: "e \<in> in_use s" and own: "space_owned s (env_pgdir (envs s e))"
    and i: "has_pt s (env_pgdir (envs s e)) i" "i < PDX UTOP"
    and empty: "\<And>v. PDX v = i \<Longrightarrow> pte_of s (env_pgdir (envs s e)) v AND PTE_P = 0"
  defines "d \<equiv> env_pgdir (envs s e)"
  shows "\<exists>s'. page_decref (pte_page (pde_of s d i)) (st (d + 4 * i) 0 s) = Some s' \<and> released e s s' \<and> \<not> has_pt s' d i"
proof -
  let ?D = "dirs s" and ?p = "pte_page (pde_of s d i)"
  have dD: "d \<in> ?D" unfolding d_def by (rule kinvD(4) [OF k e])
  note inv = kinvD(1) [OF k]
  have ok: "pages_ok s" and pd: "pgdir_ok s d" using inv dD by (simp_all add: spaces_ok_def)
  note own = own [folded d_def] and i = i [folded d_def] and empty = empty [folded d_def]
  from drop_table_local [OF inv dD i own empty] obtain s' where
    s': "page_decref ?p (st (d + 4 * i) 0 s) = Some s'" "local_change d ?D s s'" "vm_frame s s'"
    "phys s' = (phys s)(d - KERNBASE + 4 * i := 0)" "free_pages s' = ?p # free_pages s" "mapped s' d = mapped s d"
    "\<forall>j. j \<noteq> ?p \<longrightarrow> pp_ref (pages s' j) = pp_ref (pages s j)" by blast
  note V = slot_cleared_view [OF pd i(1) s'(4)]
  have P: "page2pa ?p = PTE_ADDR (pde_of s d i)" by (rule page2pa_PGNUM)
  have ok': "pages_ok s'" "pgdir_ok s' d" using s'(2) by (simp_all add: local_change_def)
  have link: "pp_link (pages s' j) = pp_link (pages s j)" if "j \<notin> set (free_pages s')" for j
    using s'(2,5) that by (simp add: local_change_def)
  have "space_owned s' d"
    unfolding space_owned_def
  proof
    fix f assume f: "f \<in> own_frames s' d"
    have pf: "page2pa (pte_page f) = f" by (rule own_frame_page [OF f pgdir_okD(1) [OF pd]])
    have in_fr: "f \<in> frames s' d" "f \<in> own_frames s d" using f V(5) own_frames_sub by blast+
    have "pte_page f \<noteq> ?p" using V(7) in_fr(1) pf P by metis
    moreover have "pte_page f \<notin> set (free_pages s')"
      using frames_not_free [OF ok' in_fr(1)] pf by (auto simp: free_frames_def image_iff)
    ultimately show "pp_ref (pages s' (pte_page f)) = 1 \<and> pp_link (pages s' (pte_page f)) = None"
      using own in_fr(2) s'(7) link by (simp add: space_owned_def)
  qed
  moreover have "has_pt s d j \<and> pde_of s' d j = pde_of s d j" if "has_pt s' d j" for j
    using that V(2) [of j] V(1) [of j] has_pt_slot(2) [OF that] by simp
  moreover have "f \<in> own_frames s' d \<or> pte_page f \<in> set (free_pages s')" if "f \<in> own_frames s d" for f
    using V(6) [OF that] s'(5) by auto
  moreover have "(j \<in> set (free_pages s') \<or> shared_data s' ?D j) \<and> pp_ref (pages s' j) = pp_ref (pages s j)"
    if j: "shared_data s ?D j" for j
  proof -
    have "page2pa j \<noteq> page2pa ?p" using shared_data_frame(1) [OF inv dD j] i(1) P by auto
    then have ne: "j \<noteq> ?p" by blast
    have fr: "frames s' d' \<subseteq> frames s d'" if "d' \<in> ?D" for d'
      using V(4) local_change_other(2) [OF inv s'(2) dD that] by (cases "d' = d") simp_all
    show ?thesis
      using shared_data_stays [OF j _ vm_frame_fields(1) [OF s'(3)] link fr] s'(7) ne by blast
  qed
  moreover have "call_post e 0 s s'" by (rule call_post_change(1) [OF k e s'(3) s'(2) [unfolded d_def]])
  ultimately have "released e s s'"
    unfolding released_def Let_def d_def [symmetric] using s'(3,5,6) by (simp add: subset_insertI)
  moreover have "\<not> has_pt s' d i" by (simp add: V(2))
  ultimately show ?thesis using s'(1) by blast
qed

lemma env_free_pde_released:
  assumes k: "kinv s" and e: "e \<in> in_use s" and own: "space_owned s (env_pgdir (envs s e))" and i: "i < 955"
  defines "d \<equiv> env_pgdir (envs s e)"
  shows "\<exists>s'. env_free_pde e i s = Some s' \<and> released e s s' \<and> \<not> has_pt s' d (of_nat i)"
proof -
  let ?i = "of_nat i :: u32"
  have u: "unat ?i = i" using i by (simp add: unat_of_nat)
  have t: "tree_slot ?i" "?i < PDX UTOP"
    using i by (auto simp: tree_slot_def word_less_nat_alt word_unat_eq_iff unat_PDX u)
  have pde: "ld s (d + 4 * ?i) = pde_of s d ?i" by (simp add: ld_def pde_of_def algebra_simps)
  show ?thesis
  proof (cases "pde_of s d ?i AND PTE_P = 0")
    case True
    then have "env_free_pde e i s = Some s" by (simp add: env_free_pde_def pde [unfolded d_def] d_def Let_def)
    with True released_refl [OF k own] show ?thesis by (auto simp: has_pt_def)
  next
    case False
    with t have pt: "has_pt s d ?i" by (simp add: has_pt_def)
    have dD: "d \<in> dirs s" unfolding d_def by (rule kinvD(4) [OF k e])
    have pd: "pgdir_ok s d" using kinvD(1) [OF k] dD by (simp add: spaces_ok_def)
    have lt: "PGNUM (pde_of s d ?i) < npages s" using pgdir_okD(3) [OF pd pt] by (simp add: frame_ok_def)
    have js: "set [0..<1024] \<subseteq> {..<1024 :: nat}" by auto
    from env_free_ptes_released [OF k e own i js pt [unfolded d_def], folded d_def] obtain s1 where
      s1: "foldM (env_free_pte e i (PTE_ADDR (pde_of s d ?i) + KERNBASE)) [0..<1024] s = Some s1" "released e s s1"
      "has_pt s1 d = has_pt s d"
      "\<forall>v. tree_slot (PDX v) \<longrightarrow> (pte_of s d v AND PTE_P = 0 \<or> PDX v = ?i \<and> unat (PTX v) \<in> set [0..<1024] \<longrightarrow>
         pte_of s1 d v AND PTE_P = 0)" by blast
    note f = released_fields [OF s1(2) k e]
    have pt1: "has_pt s1 d ?i" "pde_of s1 d ?i = pde_of s d ?i"
      using pt s1(3) releasedD(4) [OF s1(2), of ?i] by (simp_all add: d_def)
    have "pte_of s1 d v AND PTE_P = 0" if "PDX v = ?i" for v
    proof -
      have "unat (PTX v) \<in> set [0..<1024]" by (simp add: unat_PTX)
      moreover have "tree_slot (PDX v)" using t(1) that by simp
      ultimately show ?thesis using s1(4) that by blast
    qed
    from drop_table_released [OF f(1,5), unfolded f(2), folded d_def, OF releasedD(3) [OF s1(2), folded d_def] pt1(1) t(2) this]
    obtain s' where s': "page_decref (pte_page (pde_of s1 d ?i)) (st (d + 4 * ?i) 0 s1) = Some s'" "released e s1 s'" "\<not> has_pt s' d ?i"
      by blast
    have n: "npages (st (d + 4 * ?i) 0 s1) = npages s"
      using vm_frame_fields(1) [OF releasedD(2) [OF s1(2)]] by (simp add: st_def)
    have "env_free_pde e i s = Some s'"
      using False s1(1) s'(1) lt n pt1(2)
      by (simp add: env_free_pde_def Let_def d_def [symmetric] pde KADDR_def pa2page_def not_le [symmetric] del: upt_rec_numeral)
    with released_trans [OF k e s1(2) s'(2)] s'(3) show ?thesis by blast
  qed
qed

lemma env_free_pdes_released:
  assumes "kinv s" and "e \<in> in_use s" and "space_owned s (env_pgdir (envs s e))" and "set is \<subseteq> {..<955}"
  shows "\<exists>s'. foldM (env_free_pde e) is s = Some s' \<and> released e s s' \<and>
    (\<forall>i\<in>set is. \<not> has_pt s' (env_pgdir (envs s e)) (of_nat i))"
  using assms
proof (induction "is" arbitrary: s)
  case Nil
  then show ?case using released_refl by auto
next
  case (Cons i "is")
  let ?d = "env_pgdir (envs s e)"
  from env_free_pde_released [OF Cons.prems(1-3), of i] Cons.prems(4) obtain s1 where
    s1: "env_free_pde e i s = Some s1" "released e s s1" "\<not> has_pt s1 ?d (of_nat i)" by auto
  note f = released_fields [OF s1(2) Cons.prems(1,2)]
  from Cons.IH [OF f(1,5), unfolded f(2), OF releasedD(3) [OF s1(2)]] Cons.prems(4) obtain s2 where
    s2: "foldM (env_free_pde e) is s1 = Some s2" "released e s1 s2" "\<forall>i\<in>set is. \<not> has_pt s2 ?d (of_nat i)" by auto
  have "\<not> has_pt s2 ?d (of_nat i)" using releasedD(4) [OF s2(2), of "of_nat i"] s1(3) f(2) by auto
  with s1(1) s2 released_trans [OF Cons.prems(1,2) s1(2) s2(2)] show ?case by auto
qed

section \<open>The directory and the slot\<close>

text \<open>Dropping the last reference to a page that no space of the set uses.\<close>

lemma decref_foreign:
  assumes inv: "spaces_ok s D" and p: "p < unat (npages s)" "p \<notin> set (free_pages s)"
    and one: "pp_ref (pages s p) = 1" "pp_link (pages s p) = None"
    and no: "\<And>d. d \<in> D \<Longrightarrow> page2pa p \<notin> frames s d" "\<And>d. d \<in> D \<Longrightarrow> mapped s d p = {}"
  shows "\<exists>s'. page_decref p s = Some s' \<and> spaces_ok s' D \<and> free_pages s' = p # free_pages s \<and> phys s' = phys s \<and>
    vm_frame s s' \<and> (\<forall>i. i \<noteq> p \<longrightarrow> pp_ref (pages s' i) = pp_ref (pages s i))"
proof -
  have ok: "pages_ok s" using inv by (simp add: spaces_ok_def)
  from page_decref_last [OF ok p one] obtain s' where
    s': "page_decref p s = Some s'" "pages_ok s'" "free_pages s' = p # free_pages s" by blast
  note dec = page_decref_state [OF s'(1)]
  have ph: "phys s' = phys s" and n: "npages s' = npages s" using dec by auto
  have ref: "pp_ref (pages s' i) = (if i = p then 0 else pp_ref (pages s i))" for i using dec one by auto
  note v = view_phys [OF ph]
  have fr: "frames s' = frames s" "own_frames s' = own_frames s" "mapped s' = mapped s"
    by (simp_all add: frames_def own_frames_def mapped_def fun_eq_iff v)
  have link: "pp_link (pages s' i) = pp_link (pages s i)" if "i \<notin> set (free_pages s')" for i
    by (rule page_decref_links [OF s'(1,2) that])
  have pd: "pgdir_ok s' d" if d: "d \<in> D" for d
  proof (rule pgdir_ok_transfer)
    show "pgdir_ok s d" using inv d by (simp add: spaces_ok_def)
    fix a assume a: "frame_ok s a" "PTE_ADDR a = d - KERNBASE \<or> (\<exists>i. has_pt s d i \<and> PTE_ADDR a = PTE_ADDR (pde_of s d i))"
    then have "PTE_ADDR a \<in> frames s d" by auto
    then have "PTE_ADDR a \<noteq> page2pa p" using no(1) [OF d] by metis
    then have "unat (PGNUM a) \<noteq> p" using page2pa_PGNUM [of a] by metis
    with a(1) show "frame_ok s' a" using s'(3) n by (simp add: frame_ok_def)
  qed (simp_all add: ph n)
  have data: "shared_data s' D (pte_page (pte_of s' d u))" if d: "d \<in> D" and u: "u < UTOP" "pte_of s' d u AND PTE_P \<noteq> 0" for d u
  proof -
    let ?j = "pte_page (pte_of s d u)"
    have sh: "shared_data s D ?j" using inv d u by (simp add: spaces_ok_def v)
    have "?j \<noteq> p" using no(2) [OF d] mapped_at [OF u(1), of s d p] u(2) by (auto simp: v)
    moreover have "?j \<notin> set (free_pages s)" using sh d by (auto simp: shared_data_def data_page_def)
    ultimately have f: "?j \<notin> set (free_pages s')" by (simp add: s'(3))
    show ?thesis using shared_data_stays [OF sh f n link [OF f]] fr by (simp add: v)
  qed
  have "(\<Sum>d\<in>D. card (mapped s' d i)) \<le> unat (pp_ref (pages s' i))" for i
    using inv no(2) by (cases "i = p") (simp_all add: fr ref spaces_ok_def)
  then have "spaces_ok s' D" using inv s'(2) pd data unfolding spaces_ok_def fr by blast
  with s' ph ref vm_frame_decref [OF s'(1)] show ?thesis by auto
qed

lemma spaces_ok_mono:
  assumes inv: "spaces_ok s D" and sub: "D' \<subseteq> D"
  shows "spaces_ok s D'"
proof -
  have fin: "finite D" using inv by (simp add: spaces_ok_def)
  have "(\<Sum>d\<in>D'. card (mapped s d i)) \<le> unat (pp_ref (pages s i))" for i
  proof -
    have "(\<Sum>d\<in>D'. card (mapped s d i)) \<le> (\<Sum>d\<in>D. card (mapped s d i))" by (rule sum_mono2 [OF fin sub]) simp
    also have "\<dots> \<le> unat (pp_ref (pages s i))" using inv by (simp add: spaces_ok_def)
    finally show ?thesis .
  qed
  moreover have "shared_data s D i \<Longrightarrow> shared_data s D' i" for i using sub by (auto simp: shared_data_def)
  ultimately show ?thesis using inv sub finite_subset [OF sub fin] unfolding spaces_ok_def by blast
qed

lemma directory_freed:
  assumes inv: "spaces_ok s D" and d: "d \<in> D" and own: "space_owned s d"
  shows "\<exists>s'. page_decref (unat (PGNUM (d - KERNBASE))) s = Some s' \<and> spaces_ok s' (D - {d}) \<and>
    free_pages s' = unat (PGNUM (d - KERNBASE)) # free_pages s \<and> phys s' = phys s \<and> vm_frame s s' \<and>
    (\<forall>i. i \<noteq> unat (PGNUM (d - KERNBASE)) \<longrightarrow> pp_ref (pages s' i) = pp_ref (pages s i))"
proof -
  let ?p = "unat (PGNUM (d - KERNBASE))"
  have pd: "pgdir_ok s d" using inv d by (simp add: spaces_ok_def)
  have P: "page2pa ?p = d - KERNBASE" using pgdir_okD(1) [OF pd] by (simp add: page2pa_PGNUM)
  have f: "?p < unat (npages s)" "?p \<notin> set (free_pages s)"
    using pgdir_okD(2) [OF pd] by (simp_all add: frame_ok_def word_less_nat_alt)
  have o: "pp_ref (pages s ?p) = 1" "pp_link (pages s ?p) = None"
    using own frames_simps(2) [of d s] unfolding space_owned_def by blast+
  have "page2pa ?p \<notin> frames s d' \<and> mapped s d' ?p = {}" if d': "d' \<in> D - {d}" for d'
  proof
    have "d' \<in> D" "d \<noteq> d'" using d' by auto
    with inv d have "own_frames s d \<inter> frames s d' = {}" by (simp add: spaces_ok_def)
    then show "page2pa ?p \<notin> frames s d'" using frames_simps(2) [of d s] unfolding P by blast
    have "\<not> shared_data s D ?p" using d unfolding shared_data_def data_page_iff P using frames_simps(1) [of d s] by blast
    moreover have "shared_data s D ?p" if v: "v \<in> mapped s d' ?p" for v
    proof -
      have "v < UTOP" "pte_of s d' v AND PTE_P \<noteq> 0" "pte_page (pte_of s d' v) = ?p" using v by (simp_all add: mapped_def)
      moreover from this(1,2) inv d' have "shared_data s D (pte_page (pte_of s d' v))" by (simp add: spaces_ok_def)
      ultimately show ?thesis by simp
    qed
    ultimately show "mapped s d' ?p = {}" by blast
  qed
  from decref_foreign [OF spaces_ok_mono [OF inv, of "D - {d}"] f o] this show ?thesis by blast
qed

lemma kinv_cong:
  assumes k: "kinv s" and eq: "npages s' = npages s" "pages s' = pages s" "page_free_list s' = page_free_list s"
      "phys s' = phys s" "envs s' = envs s" "env_free_list s' = env_free_list s" "kern_pgdir s' = kern_pgdir s"
    and c: "\<forall>c. curenv s' = Some c \<longrightarrow> c \<in> in_use s"
  shows "kinv s'" and "dirs s' = dirs s" and "in_use s' = in_use s" and "env_space i s' = env_space i s"
proof -
  show u: "in_use s' = in_use s" and d: "dirs s' = dirs s" by (simp_all add: in_use_def dirs_def eq)
  note sp = spaces_cong [OF eq(1-4)]
  show "kinv s'" using k c unfolding kinv_def u d sp(1) by (simp add: eq envs_ok_cong [OF eq(5,6)])
  have v: "env_view i s' = env_view i s" by (simp add: env_view_def sp(2) eq(5))
  then show "env_space i s' = env_space i s" using env_mem_cong [OF eq(4)] by (simp add: env_space_def)
qed

text \<open>All page tables of the space are gone, so are all its mappings.\<close>

lemma no_tables:
  assumes "\<forall>i\<in>set [0..<unat (PDX UTOP)]. \<not> has_pt s d (of_nat i)"
  shows "own_frames s d = {d - KERNBASE}" and "mapped s d i = {}"
proof -
  have n: "\<not> has_pt s d j" if "j < PDX UTOP" for j
  proof -
    have "unat j < unat (PDX UTOP)" using that by (simp only: word_less_nat_alt)
    then have "unat j \<in> set [0..<unat (PDX UTOP)]" by (simp only: set_upt atLeastLessThan_iff) simp
    with assms have "\<not> has_pt s d (of_nat (unat j))" by (rule bspec)
    then show ?thesis by simp
  qed
  then show "own_frames s d = {d - KERNBASE}" by (auto simp: own_frames_def)
  show "mapped s d i = {}"
    using pte_of_no_pt [OF user_slot(1)] user_slot(2) n by (fastforce simp: mapped_def)
qed

text \<open>The slot goes to the free list, and the kernel's invariant covers what is left.\<close>

lemma slot_freed:
  assumes k: "kinv s" and e: "e \<in> in_use s"
    and sp: "spaces_ok s' (dirs s - {env_pgdir (envs s e)})"
    and ev: "envs s' = (envs s)(e := v\<lparr>env_status := ENV_FREE, env_link := env_free_list s\<rparr>)" "env_free_list s' = Some e"
    and eq: "npages s' = npages s" "kern_pgdir s' = kern_pgdir s"
    and c: "\<forall>c. curenv s' = Some c \<longrightarrow> c \<in> in_use s \<and> c \<noteq> e"
  shows "kinv s'" and "in_use s' = in_use s - {e}" and "free_envs s' = e # free_envs s"
proof -
  note I = kinvD [OF k]
  show u: "in_use s' = in_use s - {e}" by (auto simp: in_use_def ev)
  have pg: "env_pgdir (envs s' i) = env_pgdir (envs s i)" "env_id (envs s' i) = env_id (envs s i)" if "i \<noteq> e" for i
    using that by (simp_all add: ev)
  have d: "dirs s' = dirs s - {env_pgdir (envs s e)}"
  proof -
    have "env_pgdir (envs s i) = env_pgdir (envs s e) \<longleftrightarrow> i = e" if "i \<in> in_use s" for i by (rule I(9) [OF that e])
    then show ?thesis using I(10) [OF e] pg(1) e unfolding dirs_def u eq(2) by (auto simp: image_iff)
  qed
  have st: "env_status (envs s e) \<noteq> ENV_FREE" "e < NENV" using e by (simp_all add: in_use_def)
  have ne: "e \<notin> set (free_envs s)" using envs_okD(3) [OF I(2), of e] st(1) by blast
  have "chain (\<lambda>i. env_link (envs s' i)) (env_free_list s) (free_envs s)"
    by (rule chain_transfer [OF envs_okD(1) [OF I(2)]]) (use ne in \<open>auto simp: ev\<close>)
  then have "chain (\<lambda>i. env_link (envs s' i)) (env_free_list s') (e # free_envs s)" by (simp add: ev)
  moreover have "\<forall>i\<in>set (e # free_envs s). i < NENV \<and> env_status (envs s' i) = ENV_FREE"
    using envs_okD(2,3) [OF I(2)] st(2) by (auto simp: ev)
  ultimately have f: "envs_ok s' \<and> free_envs s' = e # free_envs s" by (rule envs_okI)
  then show "free_envs s' = e # free_envs s" by simp
  have "inj_on (\<lambda>i. env_pgdir (envs s' i)) (in_use s')"
    using k unfolding kinv_def u by (auto simp: inj_on_def pg)
  with f sp c I(3,5,10) show "kinv s'"
    unfolding kinv_def d u by (auto simp: eq pg)
qed

text \<open>The switch to the kernel's directory.\<close>

definition left_space :: "nat \<Rightarrow> kstate \<Rightarrow> kstate" where
  "left_space e s = (if curenv s = Some e then lcr3 (kern_pgdir s - KERNBASE) s else s)"

lemma left_space_fields:
  "npages (left_space e s) = npages s" "pages (left_space e s) = pages s" "phys (left_space e s) = phys s"
  "page_free_list (left_space e s) = page_free_list s" "envs (left_space e s) = envs s"
  "env_free_list (left_space e s) = env_free_list s" "kern_pgdir (left_space e s) = kern_pgdir s"
  "curenv (left_space e s) = curenv s" "cpunum_reg (left_space e s) = cpunum_reg s"
  "curenv s = Some e \<Longrightarrow> cr3 (left_space e s) (cpunum_reg s) = kern_pgdir s - KERNBASE"
  by (simp_all add: left_space_def lcr3_def curenv_def)

lemma space_owned_cong: "phys s' = phys s \<Longrightarrow> pages s' = pages s \<Longrightarrow> space_owned s' d = space_owned s d"
  using view_phys [of s' s] by (simp add: space_owned_def own_frames_def)

text \<open>
  The work of \<^verbatim>\<open>env_free\<close> on memory: what is left of the space after the loop, and the state after the
  directory is freed, before the slot is.
\<close>

lemma env_free_memory:
  assumes k: "kinv s" and e: "e \<in> in_use s" and own: "space_owned s (env_pgdir (envs s e))"
  defines "d \<equiv> env_pgdir (envs s e)" and "p \<equiv> unat (PGNUM (env_pgdir (envs s e) - KERNBASE))"
  shows "\<exists>s1 s2. foldM (env_free_pde e) [0..<unat (PDX UTOP)] (left_space e s) = Some s1 \<and> released e (left_space e s) s1 \<and>
    own_frames s1 d = {d - KERNBASE} \<and> (\<forall>i. mapped s1 d i = {}) \<and>
    page_decref p (upd_env e (\<lambda>v. v\<lparr>env_pgdir := 0\<rparr>) s1) = Some s2 \<and> spaces_ok s2 (dirs s - {d}) \<and>
    vm_frame (upd_env e (\<lambda>v. v\<lparr>env_pgdir := 0\<rparr>) s1) s2 \<and> phys s2 = phys s1 \<and> free_pages s2 = p # free_pages s1 \<and>
    (\<forall>i. i \<noteq> p \<longrightarrow> pp_ref (pages s2 i) = pp_ref (pages s1 i))"
proof -
  let ?s = "left_space e s" and ?D = "dirs s"
  note F = left_space_fields [where e = e and s = s]
  note K = kinv_cong [OF k F(1,2,4,3,5-7)]
  have ks: "kinv ?s" "dirs ?s = ?D" "in_use ?s = in_use s" using K F(8) kinvD(6) [OF k] by auto
  have e1: "e \<in> in_use ?s" using e ks(3) by simp
  have "space_owned ?s (env_pgdir (envs ?s e))" using own space_owned_cong [OF F(3,2)] F(5) by simp
  moreover have "set [0..<unat (PDX UTOP)] \<subseteq> {..<955}" by (auto simp: unat_PDX)
  ultimately obtain s1 where
    s1: "foldM (env_free_pde e) [0..<unat (PDX UTOP)] ?s = Some s1" "released e ?s s1"
    "\<forall>i\<in>set [0..<unat (PDX UTOP)]. \<not> has_pt s1 d (of_nat i)"
    using env_free_pdes_released [OF ks(1) e1] F(5) unfolding d_def by metis
  note f = released_fields [OF s1(2) ks(1) e1]
  define s3 where "s3 = upd_env e (\<lambda>v. v\<lparr>env_pgdir := 0\<rparr>) s1"
  have c: "npages s3 = npages s1" "pages s3 = pages s1" "page_free_list s3 = page_free_list s1" "phys s3 = phys s1"
    by (simp_all add: s3_def upd_env_def)
  have D: "dirs s1 = ?D" "d \<in> ?D" using f(3) ks(2) kinvD(4) [OF k e] by (simp_all add: d_def)
  have "spaces_ok s3 ?D" using kinvD(1) [OF f(1)] spaces_cong(1) [OF c] D(1) by simp
  moreover have "space_owned s3 d" using releasedD(3) [OF s1(2)] space_owned_cong [OF c(4,2)] F(5) by (simp add: d_def)
  ultimately obtain s2 where
    s2: "page_decref p s3 = Some s2" "spaces_ok s2 (?D - {d})" "free_pages s2 = p # free_pages s3" "phys s2 = phys s3" "vm_frame s3 s2"
    "\<forall>i. i \<noteq> p \<longrightarrow> pp_ref (pages s2 i) = pp_ref (pages s3 i)"
    using directory_freed [OF _ D(2)] unfolding p_def d_def by metis
  have fp: "free_pages s3 = free_pages s1" by (rule pages_ok_cong(2) [OF c(1-3)])
  have g: "spaces_ok s2 (?D - {d})" "phys s2 = phys s1" "free_pages s2 = p # free_pages s1"
    "\<forall>i. i \<noteq> p \<longrightarrow> pp_ref (pages s2 i) = pp_ref (pages s1 i)" using s2 c fp by simp_all
  show ?thesis
  proof (rule exI [of _ s1], rule exI [of _ s2], intro conjI allI)
    show "own_frames s1 d = {d - KERNBASE}" by (rule no_tables(1) [OF s1(3)])
    show "mapped s1 d i = {}" for i by (rule no_tables(2) [OF s1(3)])
    show "i \<noteq> p \<longrightarrow> pp_ref (pages s2 i) = pp_ref (pages s1 i)" for i using g(4) by blast
  qed (use s1(1,2) s2(1,5) g(1-3) in \<open>simp_all only: s3_def\<close>)
qed

section \<open>Freeing an environment\<close>

text \<open>
  C10. Freeing an environment whose tables belong to it alone succeeds and gives back all it held: the
  slot is at the head of the free list, the frames of its page directory and page tables are free, every
  data page has lost exactly the references of the mappings that are gone and is free once none is left,
  the processor no longer runs on the freed directory, the other environments keep their registers,
  mappings and memory, and the kernel's invariant holds once \<^verbatim>\<open>curenv\<close> is cleared.
\<close>

theorem env_free_correct:
  assumes "kinv s" and "e \<in> in_use s" and "space_owned s (env_pgdir (envs s e))"
  shows "\<exists>s'. env_free e s = Some s' \<and>
    in_use s' = in_use s - {e} \<and> free_envs s' = e # free_envs s \<and>
    kinv (if curenv s = Some e then set_curenv None s' else s') \<and>
    (curenv s = Some e \<longrightarrow> cr3 s' (cpunum_reg s') = kern_pgdir s - KERNBASE) \<and>
    (\<forall>f\<in>own_frames s (env_pgdir (envs s e)). pte_page f \<in> set (free_pages s')) \<and>
    (\<forall>i. shared_data s (dirs s) i \<longrightarrow>
       unat (pp_ref (pages s' i)) + card (mapped s (env_pgdir (envs s e)) i) = unat (pp_ref (pages s i)) \<and>
       (pp_ref (pages s' i) = 0 \<longrightarrow> pp_ref (pages s i) = 0 \<or> i \<in> set (free_pages s'))) \<and>
    (\<forall>i\<in>in_use s. i \<noteq> e \<longrightarrow> envs s' i = envs s i \<and> env_space i s' = env_space i s)"
proof -
  let ?d = "env_pgdir (envs s e)" and ?l = "left_space e s"
  define p where "p = unat (PGNUM (?d - KERNBASE))"
  note k = assms(1) and e = assms(2) and F = left_space_fields [where e = e and s = s]
  note D = kinvD(4) [OF k e] and C = kinv_cong [OF k F(1,2,4,3,5-7)]
  have L: "kinv ?l" "dirs ?l = dirs s" "in_use ?l = in_use s" "env_space i ?l = env_space i s" for i
    using C F(8) kinvD(6) [OF k] by auto
  obtain s1 s2 where
    M: "foldM (env_free_pde e) [0..<unat (PDX UTOP)] ?l = Some s1" "released e ?l s1"
      "own_frames s1 ?d = {?d - KERNBASE}" "\<And>i. mapped s1 ?d i = {}"
      "page_decref p (upd_env e (\<lambda>v. v\<lparr>env_pgdir := 0\<rparr>) s1) = Some s2"
      "spaces_ok s2 (dirs s - {?d})" "vm_frame (upd_env e (\<lambda>v. v\<lparr>env_pgdir := 0\<rparr>) s1) s2"
      "phys s2 = phys s1" "free_pages s2 = p # free_pages s1"
      "\<And>i. i \<noteq> p \<Longrightarrow> pp_ref (pages s2 i) = pp_ref (pages s1 i)"
    using env_free_memory [OF assms] unfolding p_def by blast
  have e1: "e \<in> in_use ?l" using e L(3) by simp
  note f = released_fields [OF M(2) L(1) e1] and g = vm_frame_fields [OF M(7)]
    and h = vm_frame_fields [OF releasedD(2) [OF M(2)]]
  have pd: "pgdir_ok s x" "KERNBASE \<le> x" if "x \<in> dirs s" for x
    using kinvD(1) [OF k] that pgdir_kernel [OF _ kinvD(3) [OF k]] by (simp_all add: spaces_ok_def)
  define s' where
    "s' = (upd_env e (\<lambda>v. v\<lparr>env_status := ENV_FREE, env_link := env_free_list s2\<rparr>) s2)\<lparr>env_free_list := Some e\<rparr>"
  have f1: "envs s1 = envs s" "npages s1 = npages s" "kern_pgdir s1 = kern_pgdir s" "env_free_list s1 = env_free_list s"
    "curenv s1 = curenv s" "cpunum_reg s1 = cpunum_reg s" "cr3 s1 = cr3 ?l"
    using f(2) h F by simp_all
  have frame: "unat (PGNUM (?d - KERNBASE)) < unat (npages s)"
    using pgdir_okD(2) [OF pd(1) [OF D]] by (simp add: frame_ok_def word_less_nat_alt)
  have run: "env_free e s = Some s'"
  proof -
    have 1: "(if curenv s = Some e then do { cr \<leftarrow> PADDR (kern_pgdir s); Some (lcr3 cr s) } else Some s) = Some ?l"
      using pd(2) [OF kinvD(7) [OF k]] by (simp add: left_space_def PADDR_def not_less [symmetric])
    have 2: "PADDR (env_pgdir (envs s1 e)) = Some (?d - KERNBASE)"
      using pd(2) [OF D] by (simp add: f1 PADDR_def not_less [symmetric])
    have 3: "pa2page (upd_env e (\<lambda>v. v\<lparr>env_pgdir := 0\<rparr>) s1) (?d - KERNBASE) = Some p"
      using frame by (simp add: pa2page_def p_def upd_env_def f1 word_le_nat_alt)
    show ?thesis unfolding env_free_def 1 by (simp add: M(1) 2 3 M(5) s'_def Let_def)
  qed
  have q: "npages s' = npages s" "pages s' = pages s2" "page_free_list s' = page_free_list s2" "phys s' = phys s1"
    "kern_pgdir s' = kern_pgdir s" "env_free_list s' = Some e" "curenv s' = curenv s" "cpunum_reg s' = cpunum_reg s"
    "cr3 s' = cr3 ?l"
    "envs s' = (envs s)(e := (envs s e)\<lparr>env_pgdir := 0, env_status := ENV_FREE, env_link := env_free_list s\<rparr>)"
    using g f1 M(8) by (simp_all add: s'_def upd_env_def curenv_def)
  define s'' where "s'' = (if curenv s = Some e then set_curenv None s' else s')"
  have fc: "npages s'' = npages s'" "pages s'' = pages s'" "page_free_list s'' = page_free_list s'" "phys s'' = phys s'"
    "kern_pgdir s'' = kern_pgdir s'" "env_free_list s'' = env_free_list s'" "envs s'' = envs s'"
    "curenv s'' = (if curenv s = Some e then None else curenv s)"
    by (simp_all add: s''_def set_curenv_def) (simp_all add: curenv_def q(7) [unfolded curenv_def])
  have sp: "spaces_ok s' (dirs s - {?d})"
    using M(6,8) spaces_cong(1) [OF _ q(2,3)] q(1,4) g(1) f1(2) by (simp add: upd_env_def)
  have c: "\<forall>c. curenv s'' = Some c \<longrightarrow> c \<in> in_use s \<and> c \<noteq> e" using kinvD(6) [OF k] by (auto simp: fc(8))
  have "envs s'' = (envs s)(e := (envs s e)\<lparr>env_pgdir := 0, env_status := ENV_FREE, env_link := env_free_list s\<rparr>)"
    using fc(7) q(10) by simp
  note fin = slot_freed [OF k e _ this _ _ _ c]
  have kin: "kinv s''" using fin(1) sp spaces_cong(1) [OF fc(1-4)] fc q by simp
  have ulist: "in_use s' = in_use s - {e}" "free_envs s' = e # free_envs s"
    using fin(2,3) sp spaces_cong(1) [OF fc(1-4)] fc q by (simp_all add: in_use_def free_envs_def)
  have fp: "free_pages s' = p # free_pages s1"
    using M(9) pages_ok_cong(2) [of s' s2] q(1-3) g(1) f1(2) by (simp add: upd_env_def)
  have frees: "pte_page x \<in> set (free_pages s')" if x: "x \<in> own_frames s ?d" for x
  proof -
    have "own_frames ?l ?d = own_frames s ?d" using view_phys [OF F(3)] by (simp add: own_frames_def)
    then have "x \<in> own_frames s1 ?d \<or> pte_page x \<in> set (free_pages s1)" using releasedD(5) [OF M(2)] x F(5) by simp
    then show ?thesis unfolding M(3) fp by (auto simp: p_def)
  qed
  have data: "unat (pp_ref (pages s' i)) + card (mapped s ?d i) = unat (pp_ref (pages s i)) \<and>
      (pp_ref (pages s' i) = 0 \<longrightarrow> pp_ref (pages s i) = 0 \<or> i \<in> set (free_pages s'))" if sd: "shared_data s (dirs s) i" for i
  proof -
    have "data_page s ?d i" using sd D by (simp add: shared_data_def)
    then have "i \<noteq> p"
      using frames_simps(1) [of ?d s] pgdir_okD(1) [OF pd(1) [OF D]] by (auto simp: data_page_iff p_def page2pa_PGNUM)
    moreover have sl: "shared_data ?l (dirs ?l) i" using sd spaces_cong(3) [OF F(1,2,4,3)] L(2) by simp
    moreover have "mapped ?l ?d i = mapped s ?d i" using view_phys [OF F(3)] by (simp add: mapped_def)
    ultimately show ?thesis
      using releasedD(8,9) [OF M(2) sl] M(4,10) by (auto simp: q(2) fp F)
  qed
  have others: "envs s' i = envs s i \<and> env_space i s' = env_space i s" if i: "i \<in> in_use s" "i \<noteq> e" for i
  proof
    show v: "envs s' i = envs s i" using i(2) by (simp add: q(10))
    then have v: "env_view i s' = env_view i s1"
      using view_phys [OF q(4)] by (simp add: env_view_def user_view_def f1(1) fun_eq_iff)
    have "env_space i s' = env_space i s1" using env_mem_cong [OF q(4) v] v by (simp add: env_space_def)
    then show "env_space i s' = env_space i s" using call_post_space [OF releasedD(1) [OF M(2)]] i L(3,4) by simp
  qed
  show ?thesis
    using run ulist kin [unfolded s''_def] F(10) q(8,9) frees data others by (intro exI [of _ s'] conjI) simp_all
qed

text \<open>
  The only environment of the demonstration state, whose one page is copy-on-write: its directory (page
  8), its page table (page 14) and its data page (page 12) are free afterwards.
\<close>

lemma cow_own_frames: "own_frames (cow_demo w) 0xF0008000 = {0x8000, 0xE000}"
  by (auto simp: own_frames_def cow_has_pt cow_pde PTE_ADDR_def PDX_def drop_bit_eq_div)

theorem env_free_correct_witness:
  "\<exists>s'. env_free 0 (cow_demo 0xC805) = Some s' \<and> in_use s' = {} \<and> kinv (set_curenv None s') \<and>
    {8, 12, 14} \<subseteq> set (free_pages s')"
proof -
  let ?s = "cow_demo 0xC805" and ?d = "0xF0008000 :: u32"
  have w: "pte_page 0xC805 = 12" by (simp add: PGNUM_def drop_bit_eq_div)
  have d: "env_pgdir (envs ?s 0) = ?d" by (simp add: demo_env_def)
  have own: "space_owned ?s (env_pgdir (envs ?s 0))"
    unfolding d space_owned_def cow_own_frames
    by (simp add: PGNUM_def drop_bit_eq_div cow_page_def demo_page_def)
  have v: "pte_of ?s ?d 0x800000 = 0xC805" by (simp add: cow_pte PTE_ADDR_def)
  have "\<forall>d\<in>{0xF0006000, ?d}. \<forall>v. v < UTOP \<longrightarrow> pte_of ?s d v AND PTE_P \<noteq> 0 \<longrightarrow>
      shared_data ?s {0xF0006000, ?d} (pte_page (pte_of ?s d v))"
    using cow_spaces_ok [OF w] unfolding spaces_ok_def by blast
  then have "(0x800000 :: u32) < UTOP \<longrightarrow> pte_of ?s ?d 0x800000 AND PTE_P \<noteq> 0 \<longrightarrow>
      shared_data ?s {0xF0006000, ?d} (pte_page (pte_of ?s ?d 0x800000))" by blast
  then have sd: "shared_data ?s (dirs ?s) 12" unfolding v w cow_dirs by simp
  have "0x800000 \<in> mapped ?s ?d 12" using v w by (simp add: mapped_def PGOFF_def)
  then have m: "mapped ?s ?d 12 = {0x800000}" using cow_mapped(1) [OF w, of 12] by auto
  have e: "0 \<in> in_use ?s" by (simp add: cow_in_use)
  have r: "pp_ref (pages ?s 12) = 1" by (simp add: cow_page_def demo_page_def)
  from env_free_correct [OF cow_kinv(1) [OF w] e own] show ?thesis
  proof (elim exE conjE)
    fix s'
    assume run: "env_free 0 ?s = Some s'" "in_use s' = in_use ?s - {0}"
        "kinv (if curenv ?s = Some 0 then set_curenv None s' else s')"
      and frees: "\<forall>f\<in>own_frames ?s (env_pgdir (envs ?s 0)). pte_page f \<in> set (free_pages s')"
      and data: "\<forall>i. shared_data ?s (dirs ?s) i \<longrightarrow>
        unat (pp_ref (pages s' i)) + card (mapped ?s (env_pgdir (envs ?s 0)) i) = unat (pp_ref (pages ?s i)) \<and>
        (pp_ref (pages s' i) = 0 \<longrightarrow> pp_ref (pages ?s i) = 0 \<or> i \<in> set (free_pages s'))"
    note data = data [unfolded d, THEN spec, THEN mp, OF sd, unfolded m r]
    then have "pp_ref (pages s' 12) = 0" by (simp add: unat_eq_zero)
    then have "12 \<in> set (free_pages s')" using data by simp
    moreover have "8 \<in> set (free_pages s')" "14 \<in> set (free_pages s')"
      using frees unfolding d cow_own_frames by (simp_all add: PGNUM_def drop_bit_eq_div)
    ultimately show ?thesis using run by (auto simp: cow_in_use)
  qed
qed

end
