(* ===== verification/Spec2Isabelle.thy ===== *)
theory Spec2Isabelle
  imports Sys_Props Meminit Console_Props Snprintf_Props Boot Kdebug Mpconf_Props Init Monitor_Props Fork_Props Cow_Props
    Env_Free
begin

text \<open>
  JOS is a small multiprocessor kernel in the exokernel style: it gives programs pages, address
  spaces, environments (processes), traps and messages, and leaves \<^verbatim>\<open>fork\<close> and the handling of page
  faults to a library in user space. This development models its C code and proves what makes it
  correct. Names of definitions are those of the code; where a name is taken, the definition has a
  suffix or the \<^verbatim>\<open>map\<close> of the manifest says which function it is.

  \<^bold>\<open>Parts, sources and theories.\<close>

  \<^item> Shared: \<open>Prelude\<close> (machine integers, \<open>foldM\<close>, the collections and generic lemmas, the
    interfaces \<open>free_store\<close> and \<open>isolated_ops\<close>), \<open>Layout\<close> (constants and macros of
    \<^verbatim>\<open>inc/mmu.h\<close>, \<^verbatim>\<open>inc/memlayout.h\<close>, \<^verbatim>\<open>inc/error.h\<close>), \<open>Segments\<close> (descriptors), \<open>Kstate\<close> (the
    record \<open>kstate\<close> of the whole kernel), \<open>Demo\<close> and \<open>Cow_Demo\<close> (concrete states for witnesses).
  \<^item> Memory, \<^verbatim>\<open>kern/pmap.c\<close>: \<open>Pages\<close> (free list, reference counts), \<open>Pgdir\<close> (walk, insert, lookup,
    remove), \<open>Regions\<close> (static mappings, MMIO, checks of user pointers), \<open>Meminit\<close> (detection and
    \<^verbatim>\<open>mem_init\<close>), \<open>Selfcheck\<close> (the boot-time self-tests), \<open>Vmem\<close> (translation by the MMU),
    \<open>Spaces\<close> (several address spaces at once), \<open>Vm_Props\<close>.
  \<^item> Environments, \<^verbatim>\<open>kern/env.c\<close>: \<open>Envs\<close>, \<open>Env_Facts\<close>, \<open>Env_Props\<close>, \<open>Env_Free\<close>. Scheduler and lock,
    \<^verbatim>\<open>kern/sched.c\<close> and \<^verbatim>\<open>kern/spinlock.c\<close>: \<open>Sched\<close>, \<open>Locks\<close>, \<open>Run_Props\<close>. Traps, \<^verbatim>\<open>kern/trap.c\<close>:
    \<open>Trap\<close>, \<open>Exits\<close>. System calls, \<^verbatim>\<open>kern/syscall.c\<close>: \<open>Syscall\<close>, \<open>Kinv\<close> (the kernel's invariant),
    \<open>Sys_Facts\<close>, \<open>Sys_Errors\<close>, \<open>Sys_Props\<close>.
  \<^item> Devices: \<open>Console\<close> and \<open>Console_Props\<close> (\<^verbatim>\<open>kern/console.c\<close>), \<open>Mpconf\<close> and \<open>Mpconf_Props\<close>
    (\<^verbatim>\<open>kern/mpconfig.c\<close>), \<open>Lapic\<close> (\<^verbatim>\<open>kern/lapic.c\<close>, \<^verbatim>\<open>kern/picirq.c\<close>, \<^verbatim>\<open>kern/kclock.c\<close>).
  \<^item> Start-up: \<open>Boot\<close> (\<^verbatim>\<open>boot/main.c\<close>, \<^verbatim>\<open>kern/entrypgdir.c\<close>), \<open>Init\<close> (\<^verbatim>\<open>kern/init.c\<close>).
  \<^item> Library: \<open>Strings\<close> (\<^verbatim>\<open>lib/string.c\<close>), \<open>Printfmt\<close>, \<open>Printfmt_Props\<close> and \<open>Snprintf_Props\<close> (\<^verbatim>\<open>lib/printfmt.c\<close> and
    both \<^verbatim>\<open>printf.c\<close>), \<open>Kdebug\<close> (\<^verbatim>\<open>kern/kdebug.c\<close>), \<open>Monitor\<close> and \<open>Monitor_Props\<close> (\<^verbatim>\<open>kern/monitor.c\<close>,
    \<^verbatim>\<open>lib/readline.c\<close>).
  \<^item> User space: \<open>Userlib\<close> (stubs, start-up, \<^verbatim>\<open>fork\<close>, messages), \<open>Userlib_Props\<close>,
    \<open>Fork_Props\<close> and \<open>Cow_Props\<close>.

  \<^bold>\<open>State.\<close> A kernel operation maps a \<open>kstate\<close> to an option: \<^term>\<open>None\<close> is a panic, a failed
  assertion or a fault in the kernel. Physical memory is a map from addresses of words to words, so
  page directories and page tables lie in the memory they describe, as in the code; the free lists
  of pages and environments are links in the tables \<open>pages\<close> and \<open>envs\<close>. An \<^verbatim>\<open>int\<close> result is a word,
  negative errors included. A call that may not return has the result type \<open>kout\<close>: it returns with
  a value, or leaves the kernel for user mode, the halt loop, an endless loop or the monitor.
  The string routines, formatted output, the monitor and the boot loader work on a flat memory of
  bytes. Drivers keep a log of what they write; what a device or the firmware supplies is an
  argument. \<open>Locks\<close> has a second view of the lock, an interleaving of all CPUs step by step.

  \<^bold>\<open>What is shown.\<close>

  \<^item> Invariants: \<open>pages_ok\<close> (free list), \<open>pgdir_ok\<close> and \<open>spaces_ok\<close> (page tables private to their
    directory, no mapped page free, counts not below the number of mappings), \<open>envs_ok\<close>, and \<open>kinv\<close>,
    which joins them for the whole kernel. Memory operations and system calls keep them, alone and
    in any sequence, and change no mapping but their target's, nor any byte another environment
    reads (\<open>env_space\<close>: the mappings of an environment and the bytes behind them). Freeing an
    environment gives back its tables, its share of every page and its slot.
  \<^item> Effects and errors of each operation, exit conditions of the trap handler, the order and the
    fairness of the scheduler (\<open>passed_over\<close> counts the rounds a runnable environment waits), mutual
    exclusion of the lock in every interleaving. The isolation of sequences of system calls leaves out
    those that block, destroy an environment or print, and names the arguments against which the
    kernel does not protect itself.
  \<^item> \<open>fork\<close> is shown to make the copy-on-write image of an address space, over the system calls'
    proved effects and the processor's view of the page tables, and the fault handler \<open>pgfault\<close> to
    turn a shared page into a private writable one with the same bytes.
  \<^item> The console's ring buffer refines a queue, \<^verbatim>\<open>memmove\<close> a block copy, the buffered \<^verbatim>\<open>cprintf\<close>
    the plain one; printing and \<^verbatim>\<open>strtol\<close> are inverse; \<^verbatim>\<open>vsnprintf\<close> returns, stays in its buffer and
    gives there what unbounded printing gives; the line
    editor, the argument parser, the symbol search and the evaluation of the multiprocessor
    table do what they are for.

  \<^bold>\<open>Interfaces.\<close> \<open>free_store\<close> is an allocator over a list, provided by the page allocator;
  \<open>isolated_ops\<close> is an operation with a target that leaves all others alone, provided by the memory
  operations and by the system calls; \<open>device\<close> is what \<^verbatim>\<open>cons_intr\<close> needs of a driver, provided by
  the serial port and the keyboard; \<open>printer_map\<close> relates two output routines character by
  character, provided by the buffered \<^verbatim>\<open>putch\<close> and by \<^verbatim>\<open>sprintputch\<close>; \<open>output_region\<close> is output
  that changes memory only in a region, so that formatting returns, provided by printing to a buffer.

  \<^bold>\<open>Loops.\<close> A loop over a range is a fold or a recursion over its list of indices. A loop that may
  not end is a partial function into option, whose \<^term>\<open>None\<close> then also stands for not returning; the theorems
  show that it returns. The only fuel is the number of page descriptors or of environments, which
  bounds a walk along a free list without a cycle; such lists are what the invariants assert.
  Where the code polls a device or waits for a character, the values it reads, or the arrivals of
  input, are a list; the loop has not ended when the list is used up.

  \<^bold>\<open>Not modelled.\<close> Assembly files and inline assembly appear as the state they leave. A system call
  stub is the system call; saving and restoring registers around it is left out, so the saved frame
  \<^verbatim>\<open>env_tf\<close> is not refreshed on entry, and the registers a child of \<^verbatim>\<open>fork\<close> gets are those stored there
  before. The stack of user code is not in the modelled memory, so faults that
  \<^verbatim>\<open>fork\<close> takes on its own stack do not occur. A CPU that finds the kernel lock taken ends its run as
  \<open>Spinning\<close>; how it gets the lock later is the subject of \<open>Locks\<close>. The translation
  of addresses is not cached, so a missing invalidation has no effect. Concurrent access to kernel
  data is modelled for the lock only; everything else runs as one step under the lock. Of
  printing, the trap frame's listing, the messages of panics and warnings and the one of \<^verbatim>\<open>user_mem_check\<close> are
  left out. The test programs
  under \<^verbatim>\<open>user\<close> are not part of the system and are left out.
\<close>

end
